(* ===== verification/Prelude.thy ===== *)
theory Prelude
  imports Main "HOL-Library.List_Lexorder" "HOL-Library.Char_ord" "HOL-Library.Sublist"
begin

text \<open>
  The vocabulary every component of the proxy shares.

  \<^item> Go's \<open>[]byte\<close> and \<open>string\<close> are byte sequences: both are \<^typ>\<open>string\<close> here (a
    \<^typ>\<open>char\<close> is one byte). The bytewise order of \<open>bytes.Compare\<close> is the lexicographic
    order of the library theories List_Lexorder and Char_ord.
  \<^item> etcd's range convention, \<open>in_range\<close>: an empty end is a single key, the end \<open>0x00\<close> is
    unbounded, any other end is exclusive.
  \<^item> \<open>int64\<close> arithmetic is arithmetic on \<^typ>\<open>int\<close> with the wrap-around written out.
  \<^item> A Go function that returns \<open>(T, error)\<close> returns a \<open>result\<close>: \<open>Ok\<close>, \<open>Err\<close>, or \<open>Panic\<close>
    where the source indexes out of range or dereferences nil. A function with effects on the
    outside world (the etcd clusters, the gRPC transport, the random source) is an \<open>io\<close>: it
    takes the world and returns a result with the world after its calls, in program order.

  The collections \<open>io_defs\<close> (the io combinators) and \<open>preserves_intros\<close> (invariants of the world
  carried through the combinators) drive the component proofs.
\<close>

named_theorems io_defs "definitions of the io combinators"
named_theorems preserves_intros "a predicate on the world is kept by an io action"

section \<open>Byte strings\<close>

type_synonym bytes = string

fun bytes_compare :: "bytes \<Rightarrow> bytes \<Rightarrow> int" where
  "bytes_compare [] [] = 0"
| "bytes_compare [] (_ # _) = -1"
| "bytes_compare (_ # _) [] = 1"
| "bytes_compare (a # as) (b # bs) =
     (if a < b then -1 else if b < a then 1 else bytes_compare as bs)"

lemma bytes_compare_less [simp]: "bytes_compare a b < 0 \<longleftrightarrow> a < b"
  by (induction a b rule: bytes_compare.induct) auto

lemma bytes_compare_eq [simp]: "bytes_compare a b = 0 \<longleftrightarrow> a = b"
  by (induction a b rule: bytes_compare.induct) auto

lemma bytes_compare_greater [simp]: "0 < bytes_compare a b \<longleftrightarrow> b < a"
  by (induction a b rule: bytes_compare.induct) auto

lemma bytes_compare_geq [simp]: "0 \<le> bytes_compare a b \<longleftrightarrow> b \<le> a"
  using bytes_compare_less [of a b] by (simp add: not_less [symmetric] del: bytes_compare_less)

text \<open>The order of byte strings under a common prefix, and what lies between two of them.\<close>

lemma append_less_append_iff [simp]: "p @ a < p @ b \<longleftrightarrow> a < (b :: bytes)"
  by (induction p) auto

lemma append_le_append_iff [simp]: "p @ a \<le> p @ b \<longleftrightarrow> a \<le> (b :: bytes)"
  by (induction p) auto

lemma prefix_of_between:
  fixes m :: bytes
  assumes "p @ a \<le> m" and "m < p @ b"
  shows "prefix p m"
  using assms
proof (induction p arbitrary: m)
  case (Cons c p)
  then obtain d m' where m: "m = d # m'" by (cases m) auto
  with Cons.prems have "c = d" "p @ a \<le> m'" "m' < p @ b" by auto
  with Cons.IH m show ?case by auto
qed simp

lemma prefix_of_below_successor:
  fixes m :: bytes
  assumes "p @ [c] @ a \<le> m" and "m < p @ [d]"
    and "\<And>x :: char. c < x \<Longrightarrow> d \<le> x"
  shows "prefix (p @ [c]) m"
proof -
  have "prefix p m" using assms(1,2) by (rule prefix_of_between)
  then obtain r where m: "m = p @ r" by (auto simp: prefix_def)
  with assms(1,2) have "[c] @ a \<le> r" "r < [d]" by auto
  then obtain x r' where r: "r = x # r'" "c \<le> x" "x < d"
    by (cases r) auto
  with assms(3) have "x = c" by (metis leD order_le_less)
  with m r show ?thesis by simp
qed

lemma successor_above:
  fixes a :: bytes
  assumes "c < (d :: char)"
  shows "p @ [c] @ a < p @ [d]"
  using assms by simp

lemma Nil_less_bytes_iff [simp]: "[] < (k :: bytes) \<longleftrightarrow> k \<noteq> []"
  by (cases k) auto

section \<open>Key ranges\<close>

text \<open>\<open>noEnd\<close> is the one-byte string that etcd reads as an unbounded range end.\<close>

definition noEnd :: bytes where
  "noEnd = [CHR 0x00]"

definition in_range :: "bytes \<Rightarrow> bytes \<Rightarrow> bytes \<Rightarrow> bool" where
  "in_range k key rangeEnd \<longleftrightarrow>
     (if rangeEnd = [] then k = key
      else if rangeEnd = noEnd then key \<le> k
      else key \<le> k \<and> k < rangeEnd)"

lemma in_range_single [simp]: "in_range k key [] \<longleftrightarrow> k = key"
  by (simp add: in_range_def)

lemma in_range_ge: "in_range k key rangeEnd \<Longrightarrow> key \<le> k"
  by (auto simp: in_range_def split: if_splits)

section \<open>Signed 64-bit integers\<close>

definition wrap64 :: "int \<Rightarrow> int" where
  "wrap64 x = (x + 2 ^ 63) mod 2 ^ 64 - 2 ^ 63"

definition is_int64 :: "int \<Rightarrow> bool" where
  "is_int64 x \<longleftrightarrow> - (2 ^ 63) \<le> x \<and> x < 2 ^ 63"

definition add64 :: "int \<Rightarrow> int \<Rightarrow> int" where
  "add64 a b = wrap64 (a + b)"

lemma wrap64_int64 [simp]: "is_int64 (wrap64 x)"
  by (simp add: is_int64_def wrap64_def)

lemma wrap64_id: "is_int64 x \<Longrightarrow> wrap64 x = x"
  by (simp add: is_int64_def wrap64_def)

lemma add64_exact: "is_int64 (a + b) \<Longrightarrow> add64 a b = a + b"
  by (simp add: add64_def wrap64_id)

lemma wrap64_idem_add: "wrap64 (wrap64 a + b) = wrap64 (a + b)"
  unfolding wrap64_def by (simp add: mod_simps) (simp add: algebra_simps)

section \<open>Decimal numerals\<close>

definition digit_char :: "nat \<Rightarrow> char" where
  "digit_char d = char_of (48 + d)"

fun itoa :: "nat \<Rightarrow> string" where
  "itoa n = (if n < 10 then [digit_char n] else itoa (n div 10) @ [digit_char (n mod 10)])"

declare itoa.simps [simp del]

definition itoi :: "int \<Rightarrow> string" where
  "itoi i = (if i < 0 then CHR ''-'' # itoa (nat (- i)) else itoa (nat i))"

section \<open>Errors and results\<close>

text \<open>
  gRPC status codes, and the errors the proxy produces or passes on: \<open>io.EOF\<close>, a gRPC status,
  a plain error, an error wrapped with a message, and the two context errors.
\<close>

datatype code =
  OK | Canceled | Unknown | InvalidArgument | DeadlineExceeded | NotFound | AlreadyExists
| PermissionDenied | ResourceExhausted | FailedPrecondition | Aborted | OutOfRange
| Unimplemented | Internal | Unavailable | DataLoss | Unauthenticated

datatype error =
  EOF
| Status code string
| Errorf string
| Wrap string error
| ContextCanceled
| ContextDeadlineExceeded

datatype 'a result = Ok 'a | Err error | Panic string

definition res_bind :: "'a result \<Rightarrow> ('a \<Rightarrow> 'b result) \<Rightarrow> 'b result" where
  "res_bind r f = (case r of Ok a \<Rightarrow> f a | Err e \<Rightarrow> Err e | Panic s \<Rightarrow> Panic s)"

lemma res_bind_simps [simp]:
  "res_bind (Ok a) f = f a"
  "res_bind (Err e) f = Err e"
  "res_bind (Panic s) f = Panic s"
  by (simp_all add: res_bind_def)

lemma res_bind_eq_Ok: "res_bind r f = Ok b \<longleftrightarrow> (\<exists>a. r = Ok a \<and> f a = Ok b)"
  by (cases r) auto

definition res_wrap :: "string \<Rightarrow> 'a result \<Rightarrow> 'a result" where
  "res_wrap msg r = (case r of Err e \<Rightarrow> Err (Wrap msg e) | _ \<Rightarrow> r)"

lemma res_wrap_simps [simp]:
  "res_wrap msg (Ok a) = Ok a"
  "res_wrap msg (Err e) = Err (Wrap msg e)"
  "res_wrap msg (Panic s) = Panic s"
  by (simp_all add: res_wrap_def)

text \<open>A slice index: Go panics out of range.\<close>

definition index :: "'a list \<Rightarrow> int \<Rightarrow> 'a result" where
  "index xs i =
     (if 0 \<le> i \<and> i < int (length xs) then Ok (xs ! nat i) else Panic ''index out of range'')"

lemma index_Ok_iff: "index xs i = Ok x \<longleftrightarrow> 0 \<le> i \<and> nat i < length xs \<and> xs ! nat i = x"
  by (auto simp: index_def)

lemma index_nth [simp]: "n < length xs \<Longrightarrow> index xs (int n) = Ok (xs ! n)"
  by (simp add: index_def)

lemma index_Cons_0 [simp]: "index (x # xs) 0 = Ok x"
  by (simp add: index_def)

lemma index_Nil [simp]: "index [] i = Panic ''index out of range''"
  by (simp add: index_def)

text \<open>Reading through a pointer: Go panics on nil.\<close>

definition deref :: "'a option \<Rightarrow> ('a \<Rightarrow> 'b result) \<Rightarrow> 'b result" where
  "deref p f = (case p of None \<Rightarrow> Panic ''nil pointer dereference'' | Some x \<Rightarrow> f x)"

lemma deref_simps [simp]:
  "deref (Some x) f = f x"
  "deref None f = Panic ''nil pointer dereference''"
  by (simp_all add: deref_def)

section \<open>Actions on the outside world\<close>

type_synonym ('w, 'a) io = "'w \<Rightarrow> 'a result \<times> 'w"

definition io_return :: "'a \<Rightarrow> ('w, 'a) io" where
  [io_defs]: "io_return a = (\<lambda>w. (Ok a, w))"

definition io_err :: "error \<Rightarrow> ('w, 'a) io" where
  [io_defs]: "io_err e = (\<lambda>w. (Err e, w))"

definition io_lift :: "'a result \<Rightarrow> ('w, 'a) io" where
  [io_defs]: "io_lift r = (\<lambda>w. (r, w))"

definition io_bind :: "('w, 'a) io \<Rightarrow> ('a \<Rightarrow> ('w, 'b) io) \<Rightarrow> ('w, 'b) io" where
  [io_defs]: "io_bind m f =
     (\<lambda>w. case m w of
            (Ok a, w') \<Rightarrow> f a w'
          | (Err e, w') \<Rightarrow> (Err e, w')
          | (Panic s, w') \<Rightarrow> (Panic s, w'))"

fun io_map :: "('a \<Rightarrow> ('w, 'b) io) \<Rightarrow> 'a list \<Rightarrow> ('w, 'b list) io" where
  "io_map f [] = io_return []"
| "io_map f (x # xs) =
     io_bind (f x) (\<lambda>y. io_bind (io_map f xs) (\<lambda>ys. io_return (y # ys)))"

text \<open>\<open>for\<close> loops that only look for an error: the body returns nothing of use.\<close>

fun io_iter :: "('a \<Rightarrow> ('w, unit) io) \<Rightarrow> 'a list \<Rightarrow> ('w, unit) io" where
  "io_iter f [] = io_return ()"
| "io_iter f (x # xs) = io_bind (f x) (\<lambda>_. io_iter f xs)"

text \<open>\<open>errors.Wrap(err, msg)\<close> on the error of an action; a nil error stays nil.\<close>

definition io_wrap :: "string \<Rightarrow> ('w, 'a) io \<Rightarrow> ('w, 'a) io" where
  [io_defs]: "io_wrap msg m =
     (\<lambda>w. case m w of
            (Err e, w') \<Rightarrow> (Err (Wrap msg e), w')
          | (Ok a, w') \<Rightarrow> (Ok a, w')
          | (Panic s, w') \<Rightarrow> (Panic s, w'))"

lemma io_wrap_step:
  "m w = (Ok a, w') \<Longrightarrow> io_wrap msg m w = (Ok a, w')"
  "m w = (Err e, w') \<Longrightarrow> io_wrap msg m w = (Err (Wrap msg e), w')"
  by (simp_all add: io_wrap_def)

lemma io_wrap_Ok_iff [simp]: "io_wrap msg m w = (Ok a, w') \<longleftrightarrow> m w = (Ok a, w')"
  by (auto simp: io_wrap_def split: prod.splits result.splits)

lemma io_bind_Ok_iff:
  "io_bind m f w = (Ok b, w'') \<longleftrightarrow> (\<exists>a w'. m w = (Ok a, w') \<and> f a w' = (Ok b, w''))"
  by (auto simp: io_bind_def split: prod.splits result.splits)

lemma io_return_eq [simp]: "io_return a w = (r, w') \<longleftrightarrow> r = Ok a \<and> w' = w"
  by (auto simp: io_return_def)

lemma io_err_eq [simp]: "io_err e w = (r, w') \<longleftrightarrow> r = Err e \<and> w' = w"
  by (auto simp: io_err_def)

lemma io_lift_eq [simp]: "io_lift x w = (r, w') \<longleftrightarrow> x = r \<and> w' = w"
  by (auto simp: io_lift_def)

lemma io_bind_return [simp]: "io_bind (io_return a) f = f a"
  by (simp add: io_defs)

lemma io_bind_err [simp]: "io_bind (io_err e) f = io_err e"
  by (simp add: io_defs)

lemma io_bind_lift_Ok [simp]: "io_bind (io_lift (Ok a)) f = f a"
  by (simp add: io_defs)

lemma io_bind_lift_Err [simp]: "io_bind (io_lift (Err e)) f = io_err e"
  by (simp add: io_defs)

lemma io_bind_step:
  "m w = (Ok a, w') \<Longrightarrow> io_bind m f w = f a w'"
  "m w = (Err e, w') \<Longrightarrow> io_bind m f w = (Err e, w')"
  "m w = (Panic s, w') \<Longrightarrow> io_bind m f w = (Panic s, w')"
  by (simp_all add: io_bind_def)

lemma io_map_Ok_length: "io_map f xs w = (Ok ys, w') \<Longrightarrow> length ys = length xs"
  by (induction xs arbitrary: ys w w') (auto simp: io_bind_Ok_iff)

text \<open>
  A loop whose body reads the world without changing it computes its results pointwise.
\<close>

lemma io_map_pure:
  assumes "\<And>x. x \<in> set xs \<Longrightarrow> f x w = (Ok (g x), w)"
  shows "io_map f xs w = (Ok (map g xs), w)"
  using assms by (induction xs) (auto simp: io_bind_step io_return_def)

lemma io_map_Ok_pointwise:
  assumes "io_map f xs w = (Ok ys, w')"
    and "\<And>x w r w'. f x w = (Ok r, w') \<Longrightarrow> Q x r"
  shows "list_all2 Q xs ys"
  using assms(1)
proof (induction xs arbitrary: ys w)
  case (Cons x xs)
  then obtain y w1 zs where "f x w = (Ok y, w1)" "io_map f xs w1 = (Ok zs, w')" "ys = y # zs"
    by (auto simp: io_bind_Ok_iff)
  with Cons.IH assms(2) show ?case by auto
qed auto

text \<open>An action that returns a value or an error in every world.\<close>

definition no_panic :: "('w, 'a) io \<Rightarrow> bool" where
  "no_panic m \<longleftrightarrow> (\<forall>w s w'. m w \<noteq> (Panic s, w'))"

section \<open>Invariants of the world\<close>

definition preserves :: "('w \<Rightarrow> bool) \<Rightarrow> ('w, 'a) io \<Rightarrow> bool" where
  "preserves P m \<longleftrightarrow> (\<forall>w. P w \<longrightarrow> P (snd (m w)))"

lemma preservesD: "preserves P m \<Longrightarrow> P w \<Longrightarrow> m w = (r, w') \<Longrightarrow> P w'"
  unfolding preserves_def by (metis snd_conv)

lemma preserves_return [preserves_intros]: "preserves P (io_return a)"
  by (simp add: preserves_def io_return_def)

lemma preserves_err [preserves_intros]: "preserves P (io_err e)"
  by (simp add: preserves_def io_err_def)

lemma preserves_lift [preserves_intros]: "preserves P (io_lift r)"
  by (simp add: preserves_def io_lift_def)

text \<open>Where the continuation keeps the predicate only for what the action returns.\<close>

lemma preserves_bind_post:
  assumes "preserves P m" and "\<And>a w w'. P w \<Longrightarrow> m w = (Ok a, w') \<Longrightarrow> preserves P (f a)"
  shows "preserves P (io_bind m f)"
  unfolding preserves_def
proof (intro allI impI)
  fix w assume "P w"
  obtain r w1 where m: "m w = (r, w1)" by fastforce
  with assms(1) \<open>P w\<close> have "P w1" by (rule preservesD)
  with m assms(2) [OF \<open>P w\<close>] show "P (snd (io_bind m f w))"
    by (cases r) (auto simp: io_bind_def preserves_def)
qed

lemma preserves_bind [preserves_intros]:
  assumes "preserves P m" and "\<And>a. preserves P (f a)"
  shows "preserves P (io_bind m f)"
  using assms by (rule preserves_bind_post)

lemma preserves_map [preserves_intros]:
  assumes "\<And>x. x \<in> set xs \<Longrightarrow> preserves P (f x)"
  shows "preserves P (io_map f xs)"
  using assms by (induction xs) (auto intro!: preserves_intros)

lemma preserves_iter [preserves_intros]:
  assumes "\<And>x. x \<in> set xs \<Longrightarrow> preserves P (f x)"
  shows "preserves P (io_iter f xs)"
  using assms by (induction xs) (auto intro!: preserves_intros)

lemma preserves_if [preserves_intros]:
  "(b \<Longrightarrow> preserves P m) \<Longrightarrow> (\<not> b \<Longrightarrow> preserves P n) \<Longrightarrow> preserves P (if b then m else n)"
  by simp

text \<open>Actions that always answer, and the answers an action can give.\<close>

definition answers :: "('w, 'r) io \<Rightarrow> bool" where
  "answers c \<longleftrightarrow> (\<forall>w. \<exists>r w'. c w = (Ok r, w'))"

definition answer_of :: "('w, 'r) io \<Rightarrow> 'r \<Rightarrow> bool" where
  "answer_of c r \<longleftrightarrow> (\<exists>w w'. c w = (Ok r, w'))"

lemma answer_ofI: "c w = (Ok r, w') \<Longrightarrow> answer_of c r"
  unfolding answer_of_def by blast

end
