(* ===== verification/Key_Ranges.thy ===== *)
theory Key_Ranges
  imports Prelude
begin

text \<open>
  Partitions of the key space into half-open byte ranges. Both sharded modes cut the key space
  the same way (the first range starts at the empty key, each range ends where the next starts,
  the last one is unbounded) but write the unbounded end differently: \<open>0x00\<close> in
  \<open>pkg/server/shard.go\<close>, the empty string in \<open>pkg/server/coordinated_proxy.go\<close>. The facts about
  ownership are proved here once, over segments with an optional end, and the interface
  \<open>key_router\<close> states what each mode's routing function promises.
\<close>

section \<open>Segments that tile the key space\<close>

type_synonym segment = "bytes \<times> bytes option"

definition seg_owns :: "segment \<Rightarrow> bytes \<Rightarrow> bool" where
  "seg_owns s k \<longleftrightarrow> fst s \<le> k \<and> (case snd s of None \<Rightarrow> True | Some e \<Rightarrow> k < e)"

fun tiles :: "bytes \<Rightarrow> segment list \<Rightarrow> bool" where
  "tiles b [] \<longleftrightarrow> False"
| "tiles b [s] \<longleftrightarrow> fst s = b \<and> snd s = None"
| "tiles b (s # t # ts) \<longleftrightarrow>
     fst s = b \<and> (case snd s of None \<Rightarrow> False | Some e \<Rightarrow> b < e \<and> tiles e (t # ts))"

lemma tiles_nonempty [simp]: "\<not> tiles b []"
  by simp

lemma tiles_Cons_cases:
  assumes "tiles b (s # ss)"
  obtains "ss = []" "s = (b, None)"
  | e where "s = (b, Some e)" "b < e" "ss \<noteq> []" "tiles e ss"
  using assms by (cases ss; cases s) (auto split: option.splits)

lemma tiles_starts_ge: "tiles b ss \<Longrightarrow> s \<in> set ss \<Longrightarrow> b \<le> fst s"
proof (induction ss arbitrary: b)
  case (Cons t ts)
  from Cons.prems(1) show ?case
  proof (cases rule: tiles_Cons_cases)
    case (2 e)
    with Cons show ?thesis by force
  qed (use Cons.prems in auto)
qed simp

lemma tiles_owner:
  assumes "tiles b ss" and "b \<le> k"
  shows "\<exists>i < length ss. seg_owns (ss ! i) k"
  using assms
proof (induction ss arbitrary: b)
  case (Cons t ts)
  from Cons.prems(1) show ?case
  proof (cases rule: tiles_Cons_cases)
    case 1
    with Cons.prems show ?thesis by (auto simp: seg_owns_def)
  next
    case (2 e)
    show ?thesis
    proof (cases "k < e")
      case True
      with 2 Cons.prems show ?thesis by (auto intro!: exI [of _ 0] simp: seg_owns_def)
    next
      case False
      with Cons.IH 2 obtain i where "i < length ts" "seg_owns (ts ! i) k"
        by (meson not_less)
      then show ?thesis by (auto intro!: exI [of _ "Suc i"])
    qed
  qed
qed simp

lemma tiles_owner_ge:
  assumes "tiles b ss" and "i < length ss" and "seg_owns (ss ! i) k"
  shows "b \<le> k"
  using assms tiles_starts_ge [OF assms(1), of "ss ! i"] by (auto simp: seg_owns_def)

lemma tiles_owner_unique:
  assumes "tiles b ss" "i < length ss" "j < length ss"
    and "seg_owns (ss ! i) k" "seg_owns (ss ! j) k"
  shows "i = j"
  using assms
proof (induction ss arbitrary: b i j)
  case (Cons t ts)
  from Cons.prems(1) show ?case
  proof (cases rule: tiles_Cons_cases)
    case (2 e)
    have ge: "e \<le> k" if "n < length ts" "seg_owns (ts ! n) k" for n
      using tiles_owner_ge [OF 2(4) that] .
    have lt: "k < e" if "seg_owns t k" using that 2 by (simp add: seg_owns_def)
    show ?thesis
      using Cons.IH [OF 2(4)] Cons.prems(2-5) ge lt
      by (cases i; cases j) (auto simp: not_less [symmetric])
  qed (use Cons.prems in auto)
qed simp

section \<open>The routing interface\<close>

text \<open>
  \<open>route c k\<close> is the index of the shard a routing table sends key \<open>k\<close> to; \<open>segs c\<close> are the key
  ranges the table describes.
\<close>

locale key_router =
  fixes invar :: "'cfg \<Rightarrow> bool"
    and segs :: "'cfg \<Rightarrow> segment list"
    and route :: "'cfg \<Rightarrow> bytes \<Rightarrow> nat result"
  assumes segs_tile: "invar c \<Longrightarrow> tiles [] (segs c)"
    and route_owner:
      "invar c \<Longrightarrow> \<exists>i < length (segs c). route c k = Ok i \<and> seg_owns (segs c ! i) k"
begin

lemma route_Ok_iff:
  assumes "invar c"
  shows "route c k = Ok i \<longleftrightarrow> i < length (segs c) \<and> seg_owns (segs c ! i) k"
proof -
  obtain j where j: "j < length (segs c)" "route c k = Ok j" "seg_owns (segs c ! j) k"
    using route_owner [OF assms] by blast
  show ?thesis
    using j tiles_owner_unique [OF segs_tile [OF assms], of i j k] by auto
qed

lemma route_never_fails: "invar c \<Longrightarrow> route c k \<noteq> Err e \<and> route c k \<noteq> Panic s"
  using route_owner [of c k] by auto

lemma route_exactly_one:
  "invar c \<Longrightarrow> \<exists>!i. i < length (segs c) \<and> seg_owns (segs c ! i) k"
  using route_owner [of c k] tiles_owner_unique [OF segs_tile] by blast

lemma route_same_segment:
  assumes "invar c" "route c k = Ok i" "snd (segs c ! i) = Some e" "k \<le> k'" "k' < e"
  shows "route c k' = Ok i"
  using assms by (auto simp: route_Ok_iff seg_owns_def intro: order_trans)

end

end
