(* ===== verification/Json.thy ===== *)
theory Json
  imports Prelude
begin

text \<open>
  The part of Go's \<open>encoding/json\<close>, \<open>encoding/base64\<close> and \<open>encoding/hex\<close> that
  \<open>pkg/server/coordinated_proxy.go\<close> uses: encoding and decoding a blob reference (a struct with
  an \<open>int\<close> field \<open>shard\<close> and a \<open>string\<close> field \<open>key\<close>), encoding the routing table, and hexadecimal
  tokens. Decoding follows the package: the whole input must be one JSON value, unknown members
  are skipped, member names match without regard to case, \<open>null\<close> leaves a field alone, and a value
  of the wrong type is an error. The package's nesting limit of 10000 is not modelled.

  The parser recurses on fuel; \<open>parse_value_fuel\<close> shows that twice the length of the input and one
  more unit is enough. The main lemma is that decoding inverts encoding for every reference the proxy
  writes (\<open>Unmarshal_Marshal_ref\<close>).
\<close>

section \<open>UTF-8\<close>

abbreviation (input) byte :: "char \<Rightarrow> nat" where
  "byte c \<equiv> of_char c"

definition cont_byte :: "char \<Rightarrow> bool" where
  "cont_byte c \<longleftrightarrow> 128 \<le> byte c \<and> byte c \<le> 191"

text \<open>The width of the encoded rune at the head of a string, 0 when it is not valid.\<close>

fun utf8_width :: "string \<Rightarrow> nat" where
  "utf8_width [] = 0"
| "utf8_width (a # s) =
     (let x = byte a in
      if x < 128 then 1
      else if 194 \<le> x \<and> x \<le> 223
      then (case s of b # _ \<Rightarrow> if cont_byte b then 2 else 0 | _ \<Rightarrow> 0)
      else if 224 \<le> x \<and> x \<le> 239
      then (case s of
              b # c # _ \<Rightarrow>
                if cont_byte b \<and> cont_byte c \<and> (x = 224 \<longrightarrow> 160 \<le> byte b) \<and> (x = 237 \<longrightarrow> byte b \<le> 159)
                then 3 else 0
            | _ \<Rightarrow> 0)
      else if 240 \<le> x \<and> x \<le> 244
      then (case s of
              b # c # d # _ \<Rightarrow>
                if cont_byte b \<and> cont_byte c \<and> cont_byte d \<and>
                   (x = 240 \<longrightarrow> 144 \<le> byte b) \<and> (x = 244 \<longrightarrow> byte b \<le> 143)
                then 4 else 0
            | _ \<Rightarrow> 0)
      else 0)"

definition encode_rune :: "nat \<Rightarrow> string" where
  "encode_rune r =
     (if r < 128 then [char_of r]
      else if r < 2048 then [char_of (192 + r div 64), char_of (128 + r mod 64)]
      else if 55296 \<le> r \<and> r \<le> 57343 \<or> 1114111 < r
      then [char_of (239 :: nat), char_of (191 :: nat), char_of (189 :: nat)]
      else if r < 65536
      then [char_of (224 + r div 4096), char_of (128 + r div 64 mod 64), char_of (128 + r mod 64)]
      else [char_of (240 + r div 262144), char_of (128 + r div 4096 mod 64),
            char_of (128 + r div 64 mod 64), char_of (128 + r mod 64)])"

section \<open>Characters\<close>

definition QUOTE :: char where "QUOTE = CHR 0x22"
definition BSLASH :: char where "BSLASH = CHR 0x5C"

definition is_ws :: "char \<Rightarrow> bool" where
  "is_ws c \<longleftrightarrow> c \<in> {CHR 0x20, CHR 0x09, CHR 0x0D, CHR 0x0A}"

definition is_digit :: "char \<Rightarrow> bool" where
  "is_digit c \<longleftrightarrow> 48 \<le> byte c \<and> byte c \<le> 57"

definition hex_val :: "char \<Rightarrow> nat option" where
  "hex_val c =
     (if is_digit c then Some (byte c - 48)
      else if 97 \<le> byte c \<and> byte c \<le> 102 then Some (byte c - 87)
      else if 65 \<le> byte c \<and> byte c \<le> 70 then Some (byte c - 55)
      else None)"

definition hex_digit :: "nat \<Rightarrow> char" where
  "hex_digit d = (if d < 10 then char_of (48 + d) else char_of (87 + d))"

definition hex4 :: "char \<Rightarrow> char \<Rightarrow> char \<Rightarrow> char \<Rightarrow> nat option" where
  "hex4 a b c d =
     (case (hex_val a, hex_val b, hex_val c, hex_val d) of
        (Some w, Some x, Some y, Some z) \<Rightarrow> Some (((w * 16 + x) * 16 + y) * 16 + z)
      | _ \<Rightarrow> None)"

text \<open>Bytes that appear unescaped inside an encoded string (HTML escaping is on by default).\<close>

definition json_safe :: "char \<Rightarrow> bool" where
  "json_safe c \<longleftrightarrow> 32 \<le> byte c \<and> byte c < 128 \<and>
     c \<notin> {QUOTE, BSLASH, CHR ''<'', CHR ''>'', CHR ''&''}"

section \<open>Encoding\<close>

definition json_escape :: "char \<Rightarrow> string" where
  "json_escape c =
     (if c = QUOTE \<or> c = BSLASH then [BSLASH, c]
      else if c = CHR 0x0A then [BSLASH, CHR ''n'']
      else if c = CHR 0x0D then [BSLASH, CHR ''r'']
      else if c = CHR 0x09 then [BSLASH, CHR ''t'']
      else [BSLASH] @ ''u00'' @ [hex_digit (byte c div 16), hex_digit (byte c mod 16)])"

function json_body :: "string \<Rightarrow> string" where
  "json_body [] = []"
| "json_body (c # cs) =
     (if byte c < 128 then (if json_safe c then [c] else json_escape c) @ json_body cs
      else let n = utf8_width (c # cs); r = take n (c # cs) in
        if n = 0 then [BSLASH] @ ''ufffd'' @ json_body cs
        else if map byte r = [226, 128, 168] then [BSLASH] @ ''u2028'' @ json_body (drop n (c # cs))
        else if map byte r = [226, 128, 169] then [BSLASH] @ ''u2029'' @ json_body (drop n (c # cs))
        else r @ json_body (drop n (c # cs)))"
  by pat_completeness auto
termination
  by (relation "measure length") auto

definition json_string :: "string \<Rightarrow> string" where
  "json_string s = [QUOTE] @ json_body s @ [QUOTE]"

definition json_int :: "int \<Rightarrow> string" where
  "json_int i = itoi i"

definition base64_digit :: "nat \<Rightarrow> char" where
  "base64_digit d =
     (if d < 26 then char_of (65 + d) else if d < 52 then char_of (71 + d)
      else if d < 62 then char_of (d - 4) else if d = 62 then CHR ''+'' else CHR ''/'')"

fun base64 :: "bytes \<Rightarrow> string" where
  "base64 [] = []"
| "base64 [a] =
     [base64_digit (byte a div 4), base64_digit (byte a mod 4 * 16), CHR ''='', CHR ''='']"
| "base64 [a, b] =
     [base64_digit (byte a div 4), base64_digit (byte a mod 4 * 16 + byte b div 16),
      base64_digit (byte b mod 16 * 4), CHR ''='']"
| "base64 (a # b # c # s) =
     [base64_digit (byte a div 4), base64_digit (byte a mod 4 * 16 + byte b div 16),
      base64_digit (byte b mod 16 * 4 + byte c div 64), base64_digit (byte c mod 64)] @ base64 s"

text \<open>A nil slice encodes as \<open>null\<close>, any other byte slice as a base64 string.\<close>

definition json_bytes :: "bytes \<Rightarrow> string" where
  "json_bytes b = (if b = [] then ''null'' else [QUOTE] @ base64 b @ [QUOTE])"

definition json_member :: "string \<Rightarrow> string \<Rightarrow> string" where
  "json_member name val = [QUOTE] @ name @ [QUOTE] @ '':'' @ val"

fun join :: "string \<Rightarrow> string list \<Rightarrow> string" where
  "join sep [] = []"
| "join sep [s] = s"
| "join sep (s # t # ts) = s @ sep @ join sep (t # ts)"

definition json_object :: "(string \<times> string) list \<Rightarrow> string" where
  "json_object ms = ''{'' @ join '','' (map (\<lambda>(n, v). json_member n v) ms) @ ''}''"

definition json_array :: "string list \<Rightarrow> string" where
  "json_array vs = ''['' @ join '','' vs @ '']''"

definition hex_encode :: "bytes \<Rightarrow> string" where
  "hex_encode bs = concat (map (\<lambda>c. [hex_digit (byte c div 16), hex_digit (byte c mod 16)]) bs)"

section \<open>Decoding\<close>

datatype json =
  JNull | JBool bool | JNum string | JStr string | JArr "json list" | JObj "(string \<times> json) list"

definition skip_ws :: "string \<Rightarrow> string" where
  "skip_ws = dropWhile is_ws"

text \<open>The raw body of a string, up to its closing quote, with its escapes checked.\<close>

fun scan_string :: "string \<Rightarrow> (string \<times> string) option" where
  "scan_string [] = None"
| "scan_string (c # cs) =
     (if c = QUOTE then Some ([], cs)
      else if c = BSLASH
      then (case cs of
              [] \<Rightarrow> None
            | d # ds \<Rightarrow>
                if d \<in> {QUOTE, BSLASH} \<union> set ''/bfnrt''
                then map_option (apfst (\<lambda>b. c # d # b)) (scan_string ds)
                else if d = CHR ''u''
                then (case ds of
                        w # x # y # z # es \<Rightarrow>
                          if hex4 w x y z \<noteq> None
                          then map_option (apfst (\<lambda>b. c # d # w # x # y # z # b)) (scan_string es)
                          else None
                      | _ \<Rightarrow> None)
                else None)
      else if byte c < 32 then None
      else map_option (apfst (\<lambda>b. c # b)) (scan_string cs))"

definition simple_escape :: "char \<Rightarrow> char" where
  "simple_escape d =
     (if d = CHR ''b'' then CHR 0x08 else if d = CHR ''f'' then CHR 0x0C
      else if d = CHR ''n'' then CHR 0x0A else if d = CHR ''r'' then CHR 0x0D
      else if d = CHR ''t'' then CHR 0x09 else d)"

text \<open>The rune of an escape, joined with a following low surrogate where there is one.\<close>

definition low_surrogate :: "string \<Rightarrow> nat option" where
  "low_surrogate s =
     (case s of
        b # u # w # x # y # z # _ \<Rightarrow>
          (case hex4 w x y z of
             Some r \<Rightarrow> if b = BSLASH \<and> u = CHR ''u'' \<and> 56320 \<le> r \<and> r \<le> 57343 then Some r else None
           | None \<Rightarrow> None)
      | _ \<Rightarrow> None)"

function unquote :: "string \<Rightarrow> string" where
  "unquote [] = []"
| "unquote (c # cs) =
     (if c = BSLASH
      then (case cs of
              [] \<Rightarrow> []
            | d # ds \<Rightarrow>
                if d = CHR ''u''
                then (case ds of
                        w # x # y # z # es \<Rightarrow>
                          (let r = (case hex4 w x y z of None \<Rightarrow> 0 | Some r \<Rightarrow> r) in
                           case (if 55296 \<le> r \<and> r \<le> 56319 then low_surrogate es else None) of
                             Some lo \<Rightarrow>
                               encode_rune ((r - 55296) * 1024 + (lo - 56320) + 65536) @
                               unquote (drop 6 es)
                           | None \<Rightarrow> encode_rune r @ unquote es)
                      | _ \<Rightarrow> [])
                else simple_escape d # unquote ds)
      else if byte c < 128 then c # unquote cs
      else let n = utf8_width (c # cs) in
        if n = 0 then encode_rune 65533 @ unquote cs
        else take n (c # cs) @ unquote (drop n (c # cs)))"
  by pat_completeness auto
termination
  by (relation "measure length") auto

text \<open>
  A number literal: an optional sign, an integer part without leading zeros, an optional fraction,
  an optional exponent.
\<close>

definition digits1 :: "string \<Rightarrow> (string \<times> string) option" where
  "digits1 s = (let d = takeWhile is_digit s in if d = [] then None else Some (d, dropWhile is_digit s))"

definition scan_int :: "string \<Rightarrow> (string \<times> string) option" where
  "scan_int s =
     (case s of
        [] \<Rightarrow> None
      | c # cs \<Rightarrow> if c = CHR ''0'' then Some ([c], cs) else digits1 s)"

definition scan_frac :: "string \<Rightarrow> (string \<times> string) option" where
  "scan_frac s =
     (case s of
        [] \<Rightarrow> Some ([], [])
      | c # cs \<Rightarrow>
          if c = CHR ''.'' then map_option (apfst (\<lambda>d. c # d)) (digits1 cs) else Some ([], s))"

definition scan_exp :: "string \<Rightarrow> (string \<times> string) option" where
  "scan_exp s =
     (case s of
        [] \<Rightarrow> Some ([], [])
      | c # cs \<Rightarrow>
          if c \<in> {CHR ''e'', CHR ''E''}
          then (case cs of
                  [] \<Rightarrow> None
                | d # ds \<Rightarrow>
                    if d \<in> {CHR ''+'', CHR ''-''}
                    then map_option (apfst (\<lambda>x. c # d # x)) (digits1 ds)
                    else map_option (apfst (\<lambda>x. c # x)) (digits1 cs))
          else Some ([], s))"

definition scan_number :: "string \<Rightarrow> (string \<times> string) option" where
  "scan_number s =
     (let (sign, s) = (case s of [] \<Rightarrow> ([], []) | c # cs \<Rightarrow> if c = CHR ''-'' then ([c], cs) else ([], s)) in
      Option.bind (scan_int s) (\<lambda>(i, s).
        Option.bind (scan_frac s) (\<lambda>(f, s).
          Option.bind (scan_exp s) (\<lambda>(e, s). Some (sign @ i @ f @ e, s)))))"

definition scan_literal :: "string \<Rightarrow> (json \<times> string) option" where
  "scan_literal s =
     (if take 4 s = ''true'' then Some (JBool True, drop 4 s)
      else if take 5 s = ''false'' then Some (JBool False, drop 5 s)
      else if take 4 s = ''null'' then Some (JNull, drop 4 s)
      else map_option (apfst JNum) (scan_number s))"

text \<open>Values, the elements of an array after its bracket, the members of an object after its brace.\<close>

fun parse_value :: "nat \<Rightarrow> string \<Rightarrow> (json \<times> string) option"
and parse_elems :: "nat \<Rightarrow> string \<Rightarrow> (json list \<times> string) option"
and parse_members :: "nat \<Rightarrow> string \<Rightarrow> ((string \<times> json) list \<times> string) option"
where
  "parse_value 0 s = None"
| "parse_value (Suc n) s =
     (case skip_ws s of
        [] \<Rightarrow> None
      | c # cs \<Rightarrow>
          if c = CHR 0x7B
          then (if take 1 (skip_ws cs) = [CHR 0x7D] then Some (JObj [], drop 1 (skip_ws cs))
                else map_option (apfst JObj) (parse_members n cs))
          else if c = CHR 0x5B
          then (if take 1 (skip_ws cs) = [CHR 0x5D] then Some (JArr [], drop 1 (skip_ws cs))
                else map_option (apfst JArr) (parse_elems n cs))
          else if c = QUOTE then map_option (apfst (\<lambda>b. JStr (unquote b))) (scan_string cs)
          else scan_literal (c # cs))"
| "parse_elems 0 s = None"
| "parse_elems (Suc n) s =
     Option.bind (parse_value n s) (\<lambda>(v, r).
       case skip_ws r of
         [] \<Rightarrow> None
       | c # cs \<Rightarrow>
           if c = CHR 0x5D then Some ([v], cs)
           else if c = CHR '','' then map_option (apfst ((#) v)) (parse_elems n cs)
           else None)"
| "parse_members 0 s = None"
| "parse_members (Suc n) s =
     (case skip_ws s of
        [] \<Rightarrow> None
      | q # qs \<Rightarrow>
          if q \<noteq> QUOTE then None
          else Option.bind (scan_string qs) (\<lambda>(k, r).
            case skip_ws r of
              [] \<Rightarrow> None
            | c # cs \<Rightarrow>
                if c \<noteq> CHR '':'' then None
                else Option.bind (parse_value n cs) (\<lambda>(v, r).
                  case skip_ws r of
                    [] \<Rightarrow> None
                  | d # ds \<Rightarrow>
                      if d = CHR 0x7D then Some ([(unquote k, v)], ds)
                      else if d = CHR '','' then map_option (apfst ((#) (unquote k, v))) (parse_members n ds)
                      else None)))"

definition parse_json :: "string \<Rightarrow> json option" where
  "parse_json s =
     (case parse_value (2 * length s + 2) s of
        None \<Rightarrow> None
      | Some (v, r) \<Rightarrow> if skip_ws r = [] then Some v else None)"

section \<open>Blob references\<close>

record coordinatedRef =
  ref_Shard :: int
  ref_Key :: string

definition Marshal_ref :: "coordinatedRef \<Rightarrow> bytes" where
  "Marshal_ref ref =
     json_object [(''shard'', json_int (ref_Shard ref)), (''key'', json_string (ref_Key ref))]"

text \<open>
  Member names match a field when they agree up to case, where the Kelvin sign counts as a \<open>k\<close> and
  the long s as an \<open>s\<close>.
\<close>

definition lower :: "char \<Rightarrow> char" where
  "lower c = (if 65 \<le> byte c \<and> byte c \<le> 90 then char_of (byte c + 32) else c)"

fun fold_name :: "string \<Rightarrow> string" where
  "fold_name [] = []"
| "fold_name (a # s) =
     (if byte a = 197 \<and> map byte (take 1 s) = [191] then CHR ''s'' # fold_name (drop 1 s)
      else if byte a = 226 \<and> map byte (take 2 s) = [132, 170] then CHR ''k'' # fold_name (drop 2 s)
      else lower a # fold_name s)"

definition digit_val :: "char \<Rightarrow> nat" where
  "digit_val c = byte c - 48"

definition dec_value :: "string \<Rightarrow> nat" where
  "dec_value s = foldl (\<lambda>n c. 10 * n + digit_val c) 0 s"

text \<open>\<open>strconv.ParseInt(s, 10, 64)\<close> on a number literal.\<close>

definition ParseInt :: "string \<Rightarrow> int option" where
  "ParseInt s =
     (let neg = (take 1 s = ''-''); d = (if neg then drop 1 s else s);
          v = (if neg then - int (dec_value d) else int (dec_value d))
      in if d \<noteq> [] \<and> list_all is_digit d \<and> is_int64 v then Some v else None)"

definition decode_member :: "string \<times> json \<Rightarrow> coordinatedRef \<Rightarrow> coordinatedRef option" where
  "decode_member m ref =
     (case m of (name, v) \<Rightarrow>
        if fold_name name = ''shard''
        then (case v of
                JNull \<Rightarrow> Some ref
              | JNum s \<Rightarrow> map_option (\<lambda>i. ref\<lparr>ref_Shard := i\<rparr>) (ParseInt s)
              | _ \<Rightarrow> None)
        else if fold_name name = ''key''
        then (case v of
                JNull \<Rightarrow> Some ref
              | JStr s \<Rightarrow> Some (ref\<lparr>ref_Key := s\<rparr>)
              | _ \<Rightarrow> None)
        else Some ref)"

fun decode_members :: "(string \<times> json) list \<Rightarrow> coordinatedRef \<Rightarrow> coordinatedRef option" where
  "decode_members [] ref = Some ref"
| "decode_members (m # ms) ref = Option.bind (decode_member m ref) (decode_members ms)"

definition Unmarshal_ref :: "bytes \<Rightarrow> coordinatedRef option" where
  "Unmarshal_ref s =
     (let zero = \<lparr>ref_Shard = 0, ref_Key = []\<rparr> in
      case parse_json s of
        Some JNull \<Rightarrow> Some zero
      | Some (JObj ms) \<Rightarrow> decode_members ms zero
      | _ \<Rightarrow> None)"

section \<open>Decimal numerals\<close>

lemma digit_char_props [simp]:
  assumes "d < 10"
  shows "is_digit (digit_char d)" "digit_val (digit_char d) = d" "byte (digit_char d) = 48 + d"
  using assms by (simp_all add: is_digit_def digit_char_def digit_val_def)

lemma itoa_nonempty [simp]: "itoa n \<noteq> []"
  by (subst itoa.simps) simp

lemma itoa_digits: "list_all is_digit (itoa n)"
proof (induction n rule: itoa.induct)
  case (1 n)
  then show ?case by (subst itoa.simps) simp
qed

lemma dec_value_itoa: "dec_value (itoa n) = n"
proof (induction n rule: itoa.induct)
  case (1 n)
  show ?case
  proof (cases "n < 10")
    case True
    then show ?thesis by (subst itoa.simps) (simp add: dec_value_def)
  next
    case False
    with 1 have "dec_value (itoa (n div 10)) = n div 10" by simp
    with False show ?thesis by (subst itoa.simps) (simp add: dec_value_def)
  qed
qed

lemma itoa_leading_zero: "hd (itoa n) = CHR ''0'' \<Longrightarrow> itoa n = ''0''"
proof (induction n rule: itoa.induct)
  case (1 n)
  show ?case
  proof (cases "n < 10")
    case True
    with 1(2) show ?thesis by (simp add: itoa.simps [of n])
  next
    case False
    have "hd (itoa n) = hd (itoa (n div 10))"
      using False by (simp add: itoa.simps [of n])
    with 1 False have "itoa (n div 10) = ''0''" by simp
    then have "n div 10 = 0" using dec_value_itoa [of "n div 10"]
      by (simp add: dec_value_def digit_val_def)
    with False show ?thesis by simp
  qed
qed

section \<open>Decoding inverts encoding\<close>

definition json_plain :: "string \<Rightarrow> bool" where
  "json_plain s \<longleftrightarrow> list_all json_safe s"

lemma json_safe_props:
  assumes "json_safe c"
  shows "c \<noteq> QUOTE" "c \<noteq> BSLASH" "byte c < 128" "\<not> byte c < 32"
  using assms by (auto simp: json_safe_def)

lemma json_body_plain: "json_plain s \<Longrightarrow> json_body s = s"
  by (induction s) (auto simp: json_plain_def json_safe_props)

lemma scan_string_plain: "json_plain s \<Longrightarrow> scan_string (s @ QUOTE # r) = Some (s, r)"
  by (induction s) (auto simp: json_plain_def json_safe_props)

lemma unquote_plain: "json_plain s \<Longrightarrow> unquote s = s"
  by (induction s) (auto simp: json_plain_def json_safe_props)

lemma digits1_append:
  "list_all is_digit d \<Longrightarrow> d \<noteq> [] \<Longrightarrow> \<not> is_digit c \<Longrightarrow> digits1 (d @ c # r) = Some (d, c # r)"
  by (simp add: digits1_def takeWhile_append2 dropWhile_append2 list_all_iff)

lemma scan_int_itoa:
  assumes "\<not> is_digit c"
  shows "scan_int (itoa n @ c # r) = Some (itoa n, c # r)"
proof (cases "hd (itoa n) = CHR ''0''")
  case True
  then show ?thesis using itoa_leading_zero [OF True] by (simp add: scan_int_def)
next
  case False
  then show ?thesis
    using digits1_append [OF itoa_digits itoa_nonempty assms, of n r]
    by (cases "itoa n") (auto simp: scan_int_def)
qed

lemma comma_not_digit [simp]: "\<not> is_digit CHR '',''"
  by (simp add: is_digit_def)

lemma itoa_hd_digit: "is_digit (hd (itoa n))"
  using itoa_digits [of n] itoa_nonempty [of n] by (cases "itoa n") auto

lemma digit_not_special:
  "is_digit c \<Longrightarrow> c \<notin> {CHR ''-'', CHR ''t'', CHR ''f'', CHR ''n'', CHR 0x7B, CHR 0x5B, QUOTE} \<and> \<not> is_ws c"
  by (auto simp: is_digit_def QUOTE_def is_ws_def)

lemma scan_number_itoa: "scan_number (itoa n @ CHR '','' # r) = Some (itoa n, CHR '','' # r)"
proof -
  obtain c cs where c: "itoa n = c # cs" by (cases "itoa n") auto
  then have "c \<noteq> CHR ''-''" using itoa_hd_digit [of n] digit_not_special by force
  with c show ?thesis
    using scan_int_itoa [of "CHR '',''" n r]
    by (simp add: scan_number_def scan_frac_def scan_exp_def)
qed

lemma parse_value_itoa:
  "parse_value (Suc m) (itoa n @ CHR '','' # r) = Some (JNum (itoa n), CHR '','' # r)"
proof -
  obtain c cs where c: "itoa n = c # cs" by (cases "itoa n") auto
  have "is_digit c" using itoa_hd_digit [of n] c by simp
  from digit_not_special [OF this] c show ?thesis
    using scan_number_itoa [of n r] by (simp add: skip_ws_def scan_literal_def)
qed

lemma ParseInt_itoa:
  assumes "is_int64 (int n)"
  shows "ParseInt (itoa n) = Some (int n)"
proof -
  obtain c cs where c: "itoa n = c # cs" by (cases "itoa n") auto
  have "c \<noteq> CHR ''-''" using itoa_hd_digit [of n] digit_not_special [of c] c by simp
  with c assms itoa_digits [of n] dec_value_itoa [of n] show ?thesis by (simp add: ParseInt_def)
qed

lemma parse_value_string:
  "json_plain k \<Longrightarrow> parse_value (Suc m) (QUOTE # k @ QUOTE # r) = Some (JStr k, r)"
  by (simp add: skip_ws_def is_ws_def QUOTE_def scan_string_plain [unfolded QUOTE_def] unquote_plain)

lemma Marshal_ref_eq:
  assumes "json_plain k"
  shows "Marshal_ref \<lparr>ref_Shard = int n, ref_Key = k\<rparr> =
    CHR 0x7B # QUOTE # ''shard'' @ QUOTE # CHR '':'' # itoa n @ CHR '','' #
      (QUOTE # ''key'' @ QUOTE # CHR '':'' # QUOTE # k @ QUOTE # [CHR 0x7D])"
  using assms
  by (simp add: Marshal_ref_def json_object_def json_member_def json_int_def itoi_def json_string_def
      json_body_plain)

lemma skip_ws_simps [simp]:
  "skip_ws (QUOTE # s) = QUOTE # s"
  "skip_ws (CHR '':'' # s) = CHR '':'' # s"
  "skip_ws (CHR '','' # s) = CHR '','' # s"
  "skip_ws (CHR 0x7D # s) = CHR 0x7D # s"
  "skip_ws (CHR 0x7B # s) = CHR 0x7B # s"
  "skip_ws [] = []"
  by (simp_all add: skip_ws_def is_ws_def QUOTE_def)

lemma parse_member_more:
  assumes "json_plain name" and "parse_value n s = Some (v, CHR '','' # r)"
    and "parse_members n r = Some (ms, r')"
  shows "parse_members (Suc n) (QUOTE # name @ QUOTE # CHR '':'' # s) = Some ((name, v) # ms, r')"
  using assms by (simp add: scan_string_plain unquote_plain)

lemma parse_member_last:
  assumes "json_plain name" and "parse_value n s = Some (v, CHR 0x7D # r)"
  shows "parse_members (Suc n) (QUOTE # name @ QUOTE # CHR '':'' # s) = Some ([(name, v)], r)"
  using assms by (simp add: scan_string_plain unquote_plain)

lemma parse_value_object:
  "parse_members n (QUOTE # s) = Some (ms, r) \<Longrightarrow>
     parse_value (Suc n) (CHR 0x7B # QUOTE # s) = Some (JObj ms, r)"
  by (simp add: QUOTE_def [symmetric]) (simp add: QUOTE_def)

lemma field_names_plain [simp]: "json_plain ''shard''" "json_plain ''key''"
  by (simp_all add: json_plain_def json_safe_def QUOTE_def BSLASH_def)

lemma parse_Marshal_ref:
  assumes "json_plain k"
  shows "parse_json (Marshal_ref \<lparr>ref_Shard = int n, ref_Key = k\<rparr>) =
    Some (JObj [(''shard'', JNum (itoa n)), (''key'', JStr k)])"
proof -
  let ?key = "QUOTE # ''key'' @ QUOTE # CHR '':'' # QUOTE # k @ QUOTE # [CHR 0x7D]"
  let ?s = "Marshal_ref \<lparr>ref_Shard = int n, ref_Key = k\<rparr>"
  have "parse_value (Suc (Suc (Suc (Suc m)))) ?s =
      Some (JObj [(''shard'', JNum (itoa n)), (''key'', JStr k)], [])" for m
    unfolding Marshal_ref_eq [OF assms]
    by (rule parse_value_object, rule parse_member_more [OF _ parse_value_itoa],
        simp, rule parse_member_last [OF _ parse_value_string [OF assms]], simp)
  moreover obtain m where "2 * length ?s + 2 = Suc (Suc (Suc (Suc m)))"
    unfolding Marshal_ref_eq [OF assms] by simp
  ultimately show ?thesis by (simp only: parse_json_def) simp
qed

lemma fold_field_names [simp]: "fold_name ''shard'' = ''shard''" "fold_name ''key'' = ''key''"
  by (simp_all add: lower_def)

lemma Unmarshal_Marshal_ref:
  assumes "json_plain k" and "is_int64 (int n)"
  shows "Unmarshal_ref (Marshal_ref \<lparr>ref_Shard = int n, ref_Key = k\<rparr>) =
    Some \<lparr>ref_Shard = int n, ref_Key = k\<rparr>"
  using parse_Marshal_ref [OF assms(1)] ParseInt_itoa [OF assms(2)]
  by (simp add: Unmarshal_ref_def decode_member_def lower_def Let_def)

lemma Marshal_ref_nonempty: "Marshal_ref ref \<noteq> []"
  by (simp add: Marshal_ref_def json_object_def)

section \<open>Hexadecimal tokens\<close>

lemma hex_digit_safe: "d < 16 \<Longrightarrow> json_safe (hex_digit d)"
proof -
  assume "d < 16"
  then have "byte (hex_digit d) \<in> {48..57} \<union> {97..102}" by (auto simp: hex_digit_def)
  then show ?thesis
    by (auto simp: json_safe_def QUOTE_def BSLASH_def)
qed

lemma byte_div_16 [simp]: "(of_char c :: nat) div 16 < 16"
  using nat_of_char_less_256 [of c] by (simp add: less_mult_imp_div_less)

lemma hex_encode_plain: "json_plain (hex_encode bs)"
  by (auto simp: json_plain_def hex_encode_def list_all_iff intro!: hex_digit_safe)

lemma hex_digit_inj: "a < 16 \<Longrightarrow> b < 16 \<Longrightarrow> hex_digit a = hex_digit b \<Longrightarrow> a = b"
  by (auto simp: hex_digit_def split: if_splits dest!: arg_cong [of _ _ byte])

lemma byte_split: "byte a div 16 = byte b div 16 \<Longrightarrow> byte a mod 16 = byte b mod 16 \<Longrightarrow> a = b"
  by (metis div_mult_mod_eq of_char_eq_iff)

lemma hex_encode_inj: "hex_encode a = hex_encode b \<Longrightarrow> a = b"
proof (induction a arbitrary: b)
  case Nil
  then show ?case by (cases b) (auto simp: hex_encode_def)
next
  case (Cons x a)
  then obtain y b' where b: "b = y # b'" by (cases b) (auto simp: hex_encode_def)
  with Cons.prems have "hex_digit (byte x div 16) = hex_digit (byte y div 16)"
    "hex_digit (byte x mod 16) = hex_digit (byte y mod 16)" "hex_encode a = hex_encode b'"
    by (auto simp: hex_encode_def)
  then have "byte x div 16 = byte y div 16" "byte x mod 16 = byte y mod 16" "a = b'"
    using Cons.IH by (auto intro: hex_digit_inj)
  with b byte_split [of x y] show ?case by simp
qed

section \<open>Enough fuel\<close>

text \<open>
  Every parser consumes at least one character, so the recursion depth is bounded by the length of
  the input.
\<close>

lemma skip_ws_length: "length (skip_ws s) \<le> length s"
  by (simp add: skip_ws_def length_dropWhile_le)

lemma skip_ws_Cons_length: "skip_ws s = c # cs \<Longrightarrow> length cs < length s"
  using skip_ws_length [of s] by simp

lemma map_option_apfst_Some:
  "map_option (apfst f) m = Some (b, r) \<longleftrightarrow> (\<exists>b'. m = Some (b', r) \<and> b = f b')"
  by (cases m) auto

lemma scan_string_length: "scan_string s = Some (b, r) \<Longrightarrow> length r < length s"
proof (induction "length s" arbitrary: s b r rule: less_induct)
  case less
  have IH: "length r' < length s'" if "scan_string s' = Some (b', r')" "length s' < length s" for s' b' r'
    using less.hyps [OF that(2)] that(1) by simp
  from less.prems obtain c cs where s: "s = c # cs" by (cases s) auto
  note scan = less.prems [unfolded s scan_string.simps(2)]
  show ?case
  proof (cases "c = BSLASH")
    case False
    with scan have "r = cs \<or> (\<exists>b'. scan_string cs = Some (b', r))"
      by (simp only: if_False map_option_apfst_Some split: if_splits) auto
    with IH s show ?thesis by (auto intro: less_SucI)
  next
    case True
    with scan obtain d ds where ds: "cs = d # ds" by (cases cs) (simp_all add: QUOTE_def BSLASH_def)
    show ?thesis
    proof (cases "d \<in> {QUOTE, BSLASH} \<union> set ''/bfnrt''")
      case esc: True
      with scan True ds have "\<exists>b'. scan_string ds = Some (b', r)"
        by (simp only: list.case if_True map_option_apfst_Some split: if_splits)
          (auto simp: QUOTE_def BSLASH_def)
      with IH s ds show ?thesis by force
    next
      case False
      with scan True ds have d: "d = CHR ''u''"
        by (simp only: list.case if_False split: if_splits) (auto simp: QUOTE_def BSLASH_def)
      with scan True ds False obtain w x y z es where
        es: "ds = w # x # y # z # es" "\<exists>b'. scan_string es = Some (b', r)"
        by (simp only: list.case if_False if_True map_option_apfst_Some split: if_splits list.splits)
          (auto simp: QUOTE_def BSLASH_def)
      with IH s ds show ?thesis by force
    qed
  qed
qed

lemma digits1_length: "digits1 s = Some (d, r) \<Longrightarrow> length r < length s"
  by (cases s) (auto simp: digits1_def Let_def le_imp_less_Suc length_dropWhile_le split: if_splits)

lemma scan_int_length: "scan_int s = Some (d, r) \<Longrightarrow> length r < length s"
  by (auto simp: scan_int_def dest: digits1_length split: list.splits if_splits)

lemma scan_frac_length: "scan_frac s = Some (d, r) \<Longrightarrow> length r \<le> length s"
  by (auto simp: scan_frac_def dest!: digits1_length split: list.splits if_splits)

lemma scan_exp_length: "scan_exp s = Some (d, r) \<Longrightarrow> length r \<le> length s"
  by (auto simp: scan_exp_def dest!: digits1_length split: list.splits if_splits)

lemma scan_number_length: "scan_number s = Some (d, r) \<Longrightarrow> length r < length s"
  by (auto simp: scan_number_def bind_eq_Some_conv
      dest!: scan_int_length scan_frac_length scan_exp_length split: list.splits if_splits)

lemma scan_literal_length: "s \<noteq> [] \<Longrightarrow> scan_literal s = Some (v, r) \<Longrightarrow> length r < length s"
  by (auto simp: scan_literal_def dest!: scan_number_length split: if_splits)

lemma parse_value_consumes:
  assumes "\<And>s ms r. parse_members n s = Some (ms, r) \<Longrightarrow> length r < length s"
    and "\<And>s vs r. parse_elems n s = Some (vs, r) \<Longrightarrow> length r < length s"
    and "parse_value (Suc n) s = Some (v, r)"
  shows "length r < length s"
proof -
  from assms(3) obtain c cs where c: "skip_ws s = c # cs" by (cases "skip_ws s") auto
  have "length (drop 1 (skip_ws cs)) \<le> length cs" using skip_ws_length [of cs] by simp
  then have "length r < length (c # cs)"
    using assms(3) scan_literal_length [of "c # cs" v r]
    by (auto simp: c map_option_apfst_Some less_SucI split: if_splits
        dest: assms(1,2) scan_string_length)
  then show ?thesis using skip_ws_length [of s] c by simp
qed

lemma parse_elems_consumes:
  assumes "\<And>s v r. parse_value n s = Some (v, r) \<Longrightarrow> length r < length s"
    and "\<And>s vs r. parse_elems n s = Some (vs, r) \<Longrightarrow> length r < length s"
    and "parse_elems (Suc n) s = Some (vs, r)"
  shows "length r < length s"
proof -
  from assms(3) obtain v t where v: "parse_value n s = Some (v, t)"
    by (cases "parse_value n s") auto
  from assms(3) v obtain c cs where c: "skip_ws t = c # cs" by (cases "skip_ws t") auto
  have "length r \<le> length cs"
    using assms(3) by (auto simp: v c map_option_apfst_Some split: if_splits dest: assms(2))
  then show ?thesis using assms(1) [OF v] skip_ws_Cons_length [OF c] by simp
qed

lemma parse_members_consumes:
  assumes "\<And>s v r. parse_value n s = Some (v, r) \<Longrightarrow> length r < length s"
    and "\<And>s ms r. parse_members n s = Some (ms, r) \<Longrightarrow> length r < length s"
    and "parse_members (Suc n) s = Some (ms, r)"
  shows "length r < length s"
proof -
  from assms(3) obtain cs where cs: "skip_ws s = QUOTE # cs"
    by (cases "skip_ws s") (auto split: if_splits)
  from assms(3) obtain k t where k: "scan_string cs = Some (k, t)"
    by (cases "scan_string cs") (auto simp: cs)
  from assms(3) obtain t' where t: "skip_ws t = CHR '':'' # t'"
    by (cases "skip_ws t") (auto simp: cs k split: if_splits)
  from assms(3) obtain v u where v: "parse_value n t' = Some (v, u)"
    by (cases "parse_value n t'") (auto simp: cs k t)
  from assms(3) obtain e u' where u: "skip_ws u = e # u'"
    by (cases "skip_ws u") (auto simp: cs k t v)
  have "length r \<le> length u'"
    using assms(3) by (auto simp: cs k t v u map_option_apfst_Some split: if_splits dest: assms(2))
  then show ?thesis
    using skip_ws_Cons_length [OF cs] scan_string_length [OF k] skip_ws_Cons_length [OF t]
      assms(1) [OF v] skip_ws_Cons_length [OF u] by simp
qed

lemma parse_consumes:
  "(\<forall>s v r. parse_value n s = Some (v, r) \<longrightarrow> length r < length s) \<and>
   (\<forall>s vs r. parse_elems n s = Some (vs, r) \<longrightarrow> length r < length s) \<and>
   (\<forall>s ms r. parse_members n s = Some (ms, r) \<longrightarrow> length r < length s)"
proof (induction n)
  case (Suc n)
  then have V: "length r < length s" if "parse_value n s = Some (v, r)" for s v r
    using that by blast
  from Suc have E: "length r < length s" if "parse_elems n s = Some (vs, r)" for s vs r
    using that by blast
  from Suc have M: "length r < length s" if "parse_members n s = Some (ms, r)" for s ms r
    using that by blast
  show ?case
    by (intro conjI allI impI)
      (erule parse_value_consumes [rotated 2] parse_elems_consumes [rotated 2]
          parse_members_consumes [rotated 2]; erule V E M)+
qed simp

lemmas parse_consumes_value = parse_consumes [THEN conjunct1, rule_format]

lemma parse_fuel:
  "(\<forall>s. 2 * length s + 1 \<le> n \<longrightarrow> parse_value (Suc n) s = parse_value n s) \<and>
   (\<forall>s. 2 * length s + 2 \<le> n \<longrightarrow> parse_elems (Suc n) s = parse_elems n s) \<and>
   (\<forall>s. 2 * length s + 1 \<le> n \<longrightarrow> parse_members (Suc n) s = parse_members n s)"
proof (induction n)
  case (Suc n)
  have V: "parse_value (Suc (Suc n)) s = parse_value (Suc n) s" if "2 * length s \<le> n" for s
  proof (cases "skip_ws s")
    case (Cons c cs)
    then have "2 * length cs + 2 \<le> n" using skip_ws_Cons_length [OF Cons] that by simp
    then have "parse_members (Suc n) cs = parse_members n cs" "parse_elems (Suc n) cs = parse_elems n cs"
      using Suc.IH by auto
    with Cons show ?thesis by (simp only: parse_value.simps list.case)
  qed simp
  have E: "parse_elems (Suc (Suc n)) s = parse_elems (Suc n) s" if "2 * length s + 1 \<le> n" for s
  proof (cases "parse_value n s")
    case None
    with Suc.IH that show ?thesis by (simp only: parse_elems.simps) simp
  next
    case (Some p)
    obtain v r where p: "p = (v, r)" by fastforce
    have "parse_value (Suc n) s = Some (v, r)" using Suc.IH that Some p by simp
    moreover have "parse_elems (Suc n) cs = parse_elems n cs" if "skip_ws r = c # cs" for c cs
      using Suc.IH skip_ws_Cons_length [OF that] parse_consumes_value [of n s v r] Some p
        \<open>2 * length s + 1 \<le> n\<close> by simp
    ultimately show ?thesis
      using Some p by (simp only: parse_elems.simps) (simp split: list.splits)
  qed
  have M: "parse_members (Suc (Suc n)) s = parse_members (Suc n) s" if "2 * length s \<le> n" for s
  proof -
    have shorter: "parse_value (Suc n) cs = parse_value n cs" "parse_members (Suc n) cs = parse_members n cs"
      if "length cs < length s" for cs
      using Suc.IH that \<open>2 * length s \<le> n\<close> by simp_all
    show ?thesis
    proof (cases "\<exists>cs k t t'. skip_ws s = QUOTE # cs \<and> scan_string cs = Some (k, t) \<and> skip_ws t = CHR '':'' # t'")
      case False
      then show ?thesis
        unfolding parse_members.simps(2) [of "Suc n" s] parse_members.simps(2) [of n s]
        by (auto split: list.splits bind_splits simp del: parse_members.simps parse_value.simps)
    next
      case True
      then obtain cs k t t' where c: "skip_ws s = QUOTE # cs" "scan_string cs = Some (k, t)"
        "skip_ws t = CHR '':'' # t'" by blast
      have t': "length t' < length s"
        using skip_ws_Cons_length [OF c(1)] scan_string_length [OF c(2)] skip_ws_Cons_length [OF c(3)]
        by simp
      have "parse_members (Suc n) ds = parse_members n ds"
        if "parse_value n t' = Some (v, r)" "skip_ws r = d # ds" for v r d ds
        using parse_consumes_value [OF that(1)] skip_ws_Cons_length [OF that(2)] t'
        by (intro shorter) simp
      with c shorter(1) [OF t'] show ?thesis
        unfolding parse_members.simps(2) [of "Suc n" s] parse_members.simps(2) [of n s]
        by (auto split: list.splits bind_splits simp del: parse_members.simps parse_value.simps)
    qed
  qed
  from V E M show ?case by simp
qed simp

lemma parse_value_fuel:
  assumes "2 * length s + 1 \<le> n"
  shows "parse_value n s = parse_value (2 * length s + 1) s"
  using assms by (induction n rule: dec_induct) (use parse_fuel in auto)

end
