(* ===== verification/Etcd_Api.thy ===== *)
theory Etcd_Api
  imports Prelude
begin

text \<open>
  The etcd v3 gRPC API as the proxy sees it. The messages and the client stubs are generated
  code outside the repository, so this theory declares only their shape: a record per message
  with the fields the proxy reads or writes (a field named \<open>..._rest\<close> stands for the remaining
  ones, which the proxy only copies), and a record of functions per client stub, which is a
  parameter of every definition that calls it. No behaviour of etcd or of gRPC is defined here.

  A nil pointer is \<^const>\<open>None\<close> where the proxy tests for it. A repeated field is a list: a
  message decoded from the wire has a nil slice exactly when the field is empty, so \<open>nil\<close> and the
  empty list are the same value.
\<close>

section \<open>Messages\<close>

type_synonym opaque = string  \<comment> \<open>a message the proxy forwards without looking into it\<close>

record ResponseHeader =
  ClusterId :: int
  MemberId :: int
  Revision :: int
  RaftTerm :: int

record KeyValue =
  kv_Key :: bytes
  kv_CreateRevision :: int
  kv_ModRevision :: int
  kv_Version :: int
  kv_Value :: bytes
  kv_Lease :: int

datatype SortTarget =
  RangeRequest_KEY | RangeRequest_VERSION | RangeRequest_CREATE | RangeRequest_MOD
| RangeRequest_VALUE | RangeRequest_unknown int

record RangeRequest =
  rr_Key :: bytes
  rr_RangeEnd :: bytes
  rr_Limit :: int
  rr_Revision :: int
  rr_SortTarget :: SortTarget
  rr_Serializable :: bool
  rr_KeysOnly :: bool
  rr_CountOnly :: bool
  rr_rest :: opaque

record RangeResponse =
  rs_Header :: "ResponseHeader option"
  rs_Kvs :: "KeyValue list"
  rs_More :: bool
  rs_Count :: int

record PutRequest =
  pr_Key :: bytes
  pr_Value :: bytes
  pr_Lease :: int
  pr_PrevKv :: bool
  pr_IgnoreValue :: bool
  pr_IgnoreLease :: bool

record PutResponse =
  ps_Header :: "ResponseHeader option"
  ps_PrevKv :: "KeyValue option"

record DeleteRangeRequest =
  dr_Key :: bytes
  dr_RangeEnd :: bytes
  dr_PrevKv :: bool

record DeleteRangeResponse =
  ds_Header :: "ResponseHeader option"
  ds_Deleted :: int
  ds_PrevKvs :: "KeyValue list"

datatype CompareResult =
  Compare_EQUAL | Compare_GREATER | Compare_LESS | Compare_NOT_EQUAL | Compare_result_unknown int

datatype CompareTarget =
  Compare_VERSION | Compare_CREATE | Compare_MOD | Compare_VALUE | Compare_LEASE
| Compare_target_unknown int

datatype TargetUnion =
  TargetVersion int | TargetCreateRevision int | TargetModRevision int | TargetValue bytes
| TargetLease int | TargetNone

record Compare =
  cmp_Result :: CompareResult
  cmp_Target :: CompareTarget
  cmp_Key :: bytes
  cmp_TargetUnion :: TargetUnion
  cmp_RangeEnd :: bytes

text \<open>
  A transaction holds operations and an operation may hold a transaction. The pointer inside a
  oneof case may be nil, an operation may be nil, and a oneof may be unset.
\<close>

datatype RequestOp =
  RequestRange "RangeRequest option"
| RequestPut "PutRequest option"
| RequestDeleteRange "DeleteRangeRequest option"
| RequestTxn "TxnRequest option"
| RequestUnset
and TxnRequest =
  TxnRequest (txn_Compare: "Compare option list") (txn_Success: "RequestOp option list")
    (txn_Failure: "RequestOp option list")

datatype ResponseOp =
  ResponseRange RangeResponse
| ResponsePut PutResponse
| ResponseDeleteRange DeleteRangeResponse
| ResponseTxn TxnResponse
| ResponseUnset
and TxnResponse =
  TxnResponse (txr_Header: "ResponseHeader option") (txr_Succeeded: bool)
    (txr_Responses: "ResponseOp list")

type_synonym CompactionRequest = opaque
type_synonym CompactionResponse = opaque

record LeaseGrantRequest =
  lgr_TTL :: int
  lgr_ID :: int

record LeaseGrantResponse =
  lgs_Header :: "ResponseHeader option"
  lgs_ID :: int
  lgs_TTL :: int
  lgs_Error :: string

record LeaseRevokeRequest =
  lrr_ID :: int

record LeaseRevokeResponse =
  lrs_Header :: "ResponseHeader option"

record LeaseTimeToLiveRequest =
  ltr_ID :: int
  ltr_Keys :: bool

record LeaseTimeToLiveResponse =
  lts_Header :: "ResponseHeader option"
  lts_ID :: int
  lts_TTL :: int
  lts_GrantedTTL :: int
  lts_Keys :: "bytes list"

type_synonym LeaseLeasesRequest = opaque

record LeaseLeasesResponse =
  lls_Header :: "ResponseHeader option"
  lls_Leases :: "int list"

record LeaseKeepAliveRequest =
  lkr_ID :: int

record LeaseKeepAliveResponse =
  lks_Header :: "ResponseHeader option"
  lks_ID :: int
  lks_TTL :: int

datatype EventType = PUT | DELETE | Event_unknown int

record Event =
  ev_Type :: EventType
  ev_Kv :: "KeyValue option"
  ev_PrevKv :: "KeyValue option"

record WatchCreateRequest =
  wc_Key :: bytes
  wc_RangeEnd :: bytes
  wc_StartRevision :: int
  wc_PrevKv :: bool
  wc_WatchId :: int
  wc_rest :: opaque

datatype WatchRequest =
  WatchCreate WatchCreateRequest | WatchCancel int | WatchProgress | WatchUnset

record WatchResponse =
  wr_Header :: "ResponseHeader option"
  wr_WatchId :: int
  wr_Created :: bool
  wr_Canceled :: bool
  wr_CompactRevision :: int
  wr_Events :: "Event list"
  wr_rest :: opaque

section \<open>Client stubs\<close>

text \<open>
  A unary call takes the context and the request, acts on the world and returns the response or
  an error, with the header and trailer metadata the server sent. The type variables are the
  contexts \<open>'c\<close>, the metadata \<open>'m\<close> and the world \<open>'w\<close>.
\<close>

type_synonym ('c, 'm, 'w, 'q, 'r) rpc = "'c \<Rightarrow> 'q \<Rightarrow> 'w \<Rightarrow> ('r result \<times> 'm \<times> 'm) \<times> 'w"

text \<open>A call without the \<open>grpc.Header\<close> and \<open>grpc.Trailer\<close> options drops the metadata.\<close>

definition rpc_call :: "('c, 'm, 'w, 'q, 'r) rpc \<Rightarrow> 'c \<Rightarrow> 'q \<Rightarrow> ('w, 'r) io" where
  "rpc_call f ctx req = (\<lambda>w. case f ctx req w of ((r, header, trailer), w') \<Rightarrow> (r, w'))"

record ('w, 'm, 'q, 'r) ClientStream =
  cs_SendMsg :: "'q \<Rightarrow> ('w, unit) io"
  cs_RecvMsg :: "('w, 'r) io"
  cs_CloseSend :: "('w, unit) io"
  cs_Header :: "('w, 'm) io"
  cs_Trailer :: "'w \<Rightarrow> 'm"

record ('c, 'm, 'w) KVClient =
  KV_Range :: "('c, 'm, 'w, RangeRequest, RangeResponse) rpc"
  KV_Put :: "('c, 'm, 'w, PutRequest, PutResponse) rpc"
  KV_DeleteRange :: "('c, 'm, 'w, DeleteRangeRequest, DeleteRangeResponse) rpc"
  KV_Txn :: "('c, 'm, 'w, TxnRequest, TxnResponse) rpc"
  KV_Compact :: "('c, 'm, 'w, CompactionRequest, CompactionResponse) rpc"

record ('c, 'm, 'w) LeaseClient =
  Lease_Grant :: "('c, 'm, 'w, LeaseGrantRequest, LeaseGrantResponse) rpc"
  Lease_Revoke :: "('c, 'm, 'w, LeaseRevokeRequest, LeaseRevokeResponse) rpc"
  Lease_TimeToLive :: "('c, 'm, 'w, LeaseTimeToLiveRequest, LeaseTimeToLiveResponse) rpc"
  Lease_Leases :: "('c, 'm, 'w, LeaseLeasesRequest, LeaseLeasesResponse) rpc"
  Lease_KeepAlive ::
    "'c \<Rightarrow> ('w, ('w, 'm, LeaseKeepAliveRequest, LeaseKeepAliveResponse) ClientStream) io"

record ('c, 'm, 'w) WatchClient =
  Watch_Watch :: "'c \<Rightarrow> ('w, ('w, 'm, WatchRequest, WatchResponse) ClientStream) io"

record ('c, 'm, 'w) MaintenanceClient =
  Maint_Alarm :: "('c, 'm, 'w, opaque, opaque) rpc"
  Maint_Status :: "('c, 'm, 'w, opaque, opaque) rpc"
  Maint_Defragment :: "('c, 'm, 'w, opaque, opaque) rpc"
  Maint_Hash :: "('c, 'm, 'w, opaque, opaque) rpc"
  Maint_HashKV :: "('c, 'm, 'w, opaque, opaque) rpc"
  Maint_MoveLeader :: "('c, 'm, 'w, opaque, opaque) rpc"
  Maint_Downgrade :: "('c, 'm, 'w, opaque, opaque) rpc"
  Maint_Snapshot :: "'c \<Rightarrow> opaque \<Rightarrow> ('w, ('w, 'm, opaque, opaque) ClientStream) io"

section \<open>The gRPC library\<close>

text \<open>
  The functions of \<open>google.golang.org/grpc\<close> and its \<open>metadata\<close> package the proxy calls: reading
  and building contexts, joining metadata, and setting the header and trailer of the response.
\<close>

record ('c, 'm, 'w) Grpc =
  FromIncomingContext :: "'c \<Rightarrow> 'm"
  FromOutgoingContext :: "'c \<Rightarrow> 'm"
  NewOutgoingContext :: "'c \<Rightarrow> 'm \<Rightarrow> 'c"
  MD_Join :: "'m \<Rightarrow> 'm \<Rightarrow> 'm"
  MD_len :: "'m \<Rightarrow> nat"
  grpc_SetHeader :: "'c \<Rightarrow> 'm \<Rightarrow> 'w \<Rightarrow> 'w"
  grpc_SetTrailer :: "'c \<Rightarrow> 'm \<Rightarrow> 'w \<Rightarrow> 'w"

text \<open>
  Connections: dialing a target with transport credentials, closing, and the stub constructors.
\<close>

datatype Creds = Insecure | TLSCreds opaque

record ('conn, 'c, 'm, 'w) Stubs =
  grpc_Dial :: "string \<Rightarrow> Creds \<Rightarrow> ('w, 'conn) io"
  conn_Close :: "'conn \<Rightarrow> 'w \<Rightarrow> 'w"
  conn_Target :: "'conn \<Rightarrow> string"
  NewKVClient :: "'conn \<Rightarrow> ('c, 'm, 'w) KVClient"
  NewWatchClient :: "'conn \<Rightarrow> ('c, 'm, 'w) WatchClient"
  NewLeaseClient :: "'conn \<Rightarrow> ('c, 'm, 'w) LeaseClient"
  NewMaintenanceClient :: "'conn \<Rightarrow> ('c, 'm, 'w) MaintenanceClient"

lemma rpc_call_eq:
  "f ctx req w = ((r, h, t), w') \<Longrightarrow> rpc_call f ctx req w = (r, w')"
  by (simp add: rpc_call_def)

end
