(* ===== verification/Backend_Proxy.thy ===== *)
theory Backend_Proxy
  imports Etcd_Api
begin

text \<open>
  \<open>pkg/server/backend_proxy.go\<close>, unary part: every call of the KV, Lease and Maintenance services
  is forwarded to the one backend with the metadata of the incoming call, and the header and
  trailer the backend sent are set on the response, whether the call succeeded or not. The gRPC
  library is the parameter \<open>g\<close>. The streams are in theory \<open>Bidi_Forwarding\<close>.

  \<open>forwarder\<close> is the interface of a forwarding method; every method of the proxy interprets it.
\<close>

section \<open>Definitions\<close>

record ('c, 'm, 'w) BackendProxy =
  bp_kv :: "('c, 'm, 'w) KVClient"
  bp_watch :: "('c, 'm, 'w) WatchClient"
  bp_lease :: "('c, 'm, 'w) LeaseClient"
  bp_maintenance :: "('c, 'm, 'w) MaintenanceClient"

definition NewBackendProxy ::
  "('conn, 'c, 'm, 'w) Stubs \<Rightarrow> 'conn \<Rightarrow> ('c, 'm, 'w) BackendProxy"
where
  "NewBackendProxy stubs conn =
     \<lparr>bp_kv = NewKVClient stubs conn, bp_watch = NewWatchClient stubs conn,
      bp_lease = NewLeaseClient stubs conn, bp_maintenance = NewMaintenanceClient stubs conn\<rparr>"

definition backendContext :: "('c, 'm, 'w) Grpc \<Rightarrow> 'c \<Rightarrow> 'c" where
  "backendContext g ctx =
     (let incoming = FromIncomingContext g ctx;
          outgoing = FromOutgoingContext g ctx
      in NewOutgoingContext g ctx (MD_Join g outgoing incoming))"

definition forwardUnary ::
  "('c, 'm, 'w) Grpc \<Rightarrow> 'c \<Rightarrow> 'q \<Rightarrow> ('c, 'm, 'w, 'q, 'r) rpc \<Rightarrow> ('w, 'r) io"
where
  "forwardUnary g ctx req call = (\<lambda>w.
     case call (backendContext g ctx) req w of
       ((resp, header, trailer), w1) \<Rightarrow>
         let w2 = (if MD_len g header \<noteq> 0 then grpc_SetHeader g ctx header w1 else w1);
             w3 = (if MD_len g trailer \<noteq> 0 then grpc_SetTrailer g ctx trailer w2 else w2)
         in (resp, w3))"

definition BackendProxy_Range ::
  "('c, 'm, 'w) Grpc \<Rightarrow> ('c, 'm, 'w) BackendProxy \<Rightarrow> 'c \<Rightarrow> RangeRequest \<Rightarrow> ('w, RangeResponse) io"
where
  "BackendProxy_Range g p ctx req = forwardUnary g ctx req (KV_Range (bp_kv p))"

definition BackendProxy_Put ::
  "('c, 'm, 'w) Grpc \<Rightarrow> ('c, 'm, 'w) BackendProxy \<Rightarrow> 'c \<Rightarrow> PutRequest \<Rightarrow> ('w, PutResponse) io"
where
  "BackendProxy_Put g p ctx req = forwardUnary g ctx req (KV_Put (bp_kv p))"

definition BackendProxy_DeleteRange ::
  "('c, 'm, 'w) Grpc \<Rightarrow> ('c, 'm, 'w) BackendProxy \<Rightarrow> 'c \<Rightarrow> DeleteRangeRequest \<Rightarrow> ('w, DeleteRangeResponse) io"
where
  "BackendProxy_DeleteRange g p ctx req = forwardUnary g ctx req (KV_DeleteRange (bp_kv p))"

definition BackendProxy_Txn ::
  "('c, 'm, 'w) Grpc \<Rightarrow> ('c, 'm, 'w) BackendProxy \<Rightarrow> 'c \<Rightarrow> TxnRequest \<Rightarrow> ('w, TxnResponse) io"
where
  "BackendProxy_Txn g p ctx req = forwardUnary g ctx req (KV_Txn (bp_kv p))"

definition BackendProxy_Compact ::
  "('c, 'm, 'w) Grpc \<Rightarrow> ('c, 'm, 'w) BackendProxy \<Rightarrow> 'c \<Rightarrow> CompactionRequest \<Rightarrow> ('w, CompactionResponse) io"
where
  "BackendProxy_Compact g p ctx req = forwardUnary g ctx req (KV_Compact (bp_kv p))"

definition BackendProxy_LeaseGrant ::
  "('c, 'm, 'w) Grpc \<Rightarrow> ('c, 'm, 'w) BackendProxy \<Rightarrow> 'c \<Rightarrow> LeaseGrantRequest \<Rightarrow> ('w, LeaseGrantResponse) io"
where
  "BackendProxy_LeaseGrant g p ctx req = forwardUnary g ctx req (Lease_Grant (bp_lease p))"

definition BackendProxy_LeaseRevoke ::
  "('c, 'm, 'w) Grpc \<Rightarrow> ('c, 'm, 'w) BackendProxy \<Rightarrow> 'c \<Rightarrow> LeaseRevokeRequest \<Rightarrow> ('w, LeaseRevokeResponse) io"
where
  "BackendProxy_LeaseRevoke g p ctx req = forwardUnary g ctx req (Lease_Revoke (bp_lease p))"

definition BackendProxy_LeaseTimeToLive ::
  "('c, 'm, 'w) Grpc \<Rightarrow> ('c, 'm, 'w) BackendProxy \<Rightarrow> 'c \<Rightarrow> LeaseTimeToLiveRequest \<Rightarrow> ('w, LeaseTimeToLiveResponse) io"
where
  "BackendProxy_LeaseTimeToLive g p ctx req = forwardUnary g ctx req (Lease_TimeToLive (bp_lease p))"

definition BackendProxy_LeaseLeases ::
  "('c, 'm, 'w) Grpc \<Rightarrow> ('c, 'm, 'w) BackendProxy \<Rightarrow> 'c \<Rightarrow> LeaseLeasesRequest \<Rightarrow> ('w, LeaseLeasesResponse) io"
where
  "BackendProxy_LeaseLeases g p ctx req = forwardUnary g ctx req (Lease_Leases (bp_lease p))"

definition BackendProxy_Alarm ::
  "('c, 'm, 'w) Grpc \<Rightarrow> ('c, 'm, 'w) BackendProxy \<Rightarrow> 'c \<Rightarrow> opaque \<Rightarrow> ('w, opaque) io"
where
  "BackendProxy_Alarm g p ctx req = forwardUnary g ctx req (Maint_Alarm (bp_maintenance p))"

definition BackendProxy_Status ::
  "('c, 'm, 'w) Grpc \<Rightarrow> ('c, 'm, 'w) BackendProxy \<Rightarrow> 'c \<Rightarrow> opaque \<Rightarrow> ('w, opaque) io"
where
  "BackendProxy_Status g p ctx req = forwardUnary g ctx req (Maint_Status (bp_maintenance p))"

definition BackendProxy_Defragment ::
  "('c, 'm, 'w) Grpc \<Rightarrow> ('c, 'm, 'w) BackendProxy \<Rightarrow> 'c \<Rightarrow> opaque \<Rightarrow> ('w, opaque) io"
where
  "BackendProxy_Defragment g p ctx req = forwardUnary g ctx req (Maint_Defragment (bp_maintenance p))"

definition BackendProxy_Hash ::
  "('c, 'm, 'w) Grpc \<Rightarrow> ('c, 'm, 'w) BackendProxy \<Rightarrow> 'c \<Rightarrow> opaque \<Rightarrow> ('w, opaque) io"
where
  "BackendProxy_Hash g p ctx req = forwardUnary g ctx req (Maint_Hash (bp_maintenance p))"

definition BackendProxy_HashKV ::
  "('c, 'm, 'w) Grpc \<Rightarrow> ('c, 'm, 'w) BackendProxy \<Rightarrow> 'c \<Rightarrow> opaque \<Rightarrow> ('w, opaque) io"
where
  "BackendProxy_HashKV g p ctx req = forwardUnary g ctx req (Maint_HashKV (bp_maintenance p))"

definition BackendProxy_MoveLeader ::
  "('c, 'm, 'w) Grpc \<Rightarrow> ('c, 'm, 'w) BackendProxy \<Rightarrow> 'c \<Rightarrow> opaque \<Rightarrow> ('w, opaque) io"
where
  "BackendProxy_MoveLeader g p ctx req = forwardUnary g ctx req (Maint_MoveLeader (bp_maintenance p))"

definition BackendProxy_Downgrade ::
  "('c, 'm, 'w) Grpc \<Rightarrow> ('c, 'm, 'w) BackendProxy \<Rightarrow> 'c \<Rightarrow> opaque \<Rightarrow> ('w, opaque) io"
where
  "BackendProxy_Downgrade g p ctx req = forwardUnary g ctx req (Maint_Downgrade (bp_maintenance p))"

section \<open>Lemmas\<close>

lemma forwardUnary_eq:
  assumes "call (backendContext g ctx) req w = ((resp, h, t), w1)"
  shows "forwardUnary g ctx req call w =
    (resp, (if MD_len g t \<noteq> 0 then grpc_SetTrailer g ctx t else id)
             ((if MD_len g h \<noteq> 0 then grpc_SetHeader g ctx h else id) w1))"
  using assms by (auto simp: forwardUnary_def Let_def)

text \<open>
  What the proxy relies on of the metadata package: a new outgoing context carries the metadata
  it was given, and joining keeps the values of both sides for every key, in order.
\<close>

definition metadata_laws :: "('c, 'm, 'w) Grpc \<Rightarrow> ('m \<Rightarrow> string \<Rightarrow> string list) \<Rightarrow> bool" where
  "metadata_laws g get \<longleftrightarrow>
     (\<forall>c m. FromOutgoingContext g (NewOutgoingContext g c m) = m) \<and>
     (\<forall>a b k. get (MD_Join g a b) k = get a k @ get b k)"

lemma backendContext_metadata:
  assumes "metadata_laws g get"
  shows "get (FromOutgoingContext g (backendContext g ctx)) k =
    get (FromOutgoingContext g ctx) k @ get (FromIncomingContext g ctx) k"
  using assms by (simp add: metadata_laws_def backendContext_def Let_def)

text \<open>
  The effect of setting a header or trailer is confined to the response of the call: \<open>view\<close> is any
  observation of the backends.
\<close>

definition transport_laws :: "('c, 'm, 'w) Grpc \<Rightarrow> ('w \<Rightarrow> 'v) \<Rightarrow> bool" where
  "transport_laws g view \<longleftrightarrow>
     (\<forall>c m w. view (grpc_SetHeader g c m w) = view w) \<and>
     (\<forall>c m w. view (grpc_SetTrailer g c m w) = view w)"

lemma forwardUnary_view:
  assumes "transport_laws g view" and "call (backendContext g ctx) req w = ((r, h, t), w1)"
  obtains w' where "forwardUnary g ctx req call w = (r, w')" "view w' = view w1"
  using assms by (auto simp: transport_laws_def forwardUnary_eq)

section \<open>Forwarding methods\<close>

text \<open>
  A forwarding method of a server \<open>p\<close>: what its caller gets is what the backend call returned, and
  no observation of the backends differs from the one after that call.
\<close>

locale forwarder =
  fixes handler :: "('c, 'm, 'w) Grpc \<Rightarrow> 'p \<Rightarrow> 'c \<Rightarrow> 'q \<Rightarrow> ('w, 'r) io"
    and call :: "'p \<Rightarrow> ('c, 'm, 'w, 'q, 'r) rpc"
  assumes forwards: "handler g p ctx req = forwardUnary g ctx req (call p)"
begin

lemma result_forwarded:
  "fst (handler g p ctx req w) = fst (fst (call p (backendContext g ctx) req w))"
  by (simp add: forwards forwardUnary_def split_beta Let_def)

lemma view_forwarded:
  assumes "transport_laws g view"
  shows "view (snd (handler g p ctx req w)) = view (snd (call p (backendContext g ctx) req w))"
  using assms by (auto simp: transport_laws_def forwards forwardUnary_def split_beta Let_def)

end

interpretation fwd_Range: forwarder BackendProxy_Range "\<lambda>p. KV_Range (bp_kv p)"
  by unfold_locales (simp add: BackendProxy_Range_def)

interpretation fwd_Put: forwarder BackendProxy_Put "\<lambda>p. KV_Put (bp_kv p)"
  by unfold_locales (simp add: BackendProxy_Put_def)

interpretation fwd_DeleteRange: forwarder BackendProxy_DeleteRange "\<lambda>p. KV_DeleteRange (bp_kv p)"
  by unfold_locales (simp add: BackendProxy_DeleteRange_def)

interpretation fwd_Txn: forwarder BackendProxy_Txn "\<lambda>p. KV_Txn (bp_kv p)"
  by unfold_locales (simp add: BackendProxy_Txn_def)

interpretation fwd_Compact: forwarder BackendProxy_Compact "\<lambda>p. KV_Compact (bp_kv p)"
  by unfold_locales (simp add: BackendProxy_Compact_def)

interpretation fwd_LeaseGrant: forwarder BackendProxy_LeaseGrant "\<lambda>p. Lease_Grant (bp_lease p)"
  by unfold_locales (simp add: BackendProxy_LeaseGrant_def)

interpretation fwd_LeaseRevoke: forwarder BackendProxy_LeaseRevoke "\<lambda>p. Lease_Revoke (bp_lease p)"
  by unfold_locales (simp add: BackendProxy_LeaseRevoke_def)

interpretation fwd_LeaseTimeToLive: forwarder BackendProxy_LeaseTimeToLive "\<lambda>p. Lease_TimeToLive (bp_lease p)"
  by unfold_locales (simp add: BackendProxy_LeaseTimeToLive_def)

interpretation fwd_LeaseLeases: forwarder BackendProxy_LeaseLeases "\<lambda>p. Lease_Leases (bp_lease p)"
  by unfold_locales (simp add: BackendProxy_LeaseLeases_def)

interpretation fwd_Alarm: forwarder BackendProxy_Alarm "\<lambda>p. Maint_Alarm (bp_maintenance p)"
  by unfold_locales (simp add: BackendProxy_Alarm_def)

interpretation fwd_Status: forwarder BackendProxy_Status "\<lambda>p. Maint_Status (bp_maintenance p)"
  by unfold_locales (simp add: BackendProxy_Status_def)

interpretation fwd_Defragment: forwarder BackendProxy_Defragment "\<lambda>p. Maint_Defragment (bp_maintenance p)"
  by unfold_locales (simp add: BackendProxy_Defragment_def)

interpretation fwd_Hash: forwarder BackendProxy_Hash "\<lambda>p. Maint_Hash (bp_maintenance p)"
  by unfold_locales (simp add: BackendProxy_Hash_def)

interpretation fwd_HashKV: forwarder BackendProxy_HashKV "\<lambda>p. Maint_HashKV (bp_maintenance p)"
  by unfold_locales (simp add: BackendProxy_HashKV_def)

interpretation fwd_MoveLeader: forwarder BackendProxy_MoveLeader "\<lambda>p. Maint_MoveLeader (bp_maintenance p)"
  by unfold_locales (simp add: BackendProxy_MoveLeader_def)

interpretation fwd_Downgrade: forwarder BackendProxy_Downgrade "\<lambda>p. Maint_Downgrade (bp_maintenance p)"
  by unfold_locales (simp add: BackendProxy_Downgrade_def)

end
