(* ===== verification/Coordinated_Proxy.thy ===== *)
theory Coordinated_Proxy
  imports Key_Ranges Json Backend_Proxy
begin

text \<open>
  \<open>pkg/server/coordinated_proxy.go\<close>: one etcd cluster, the coordinator, holds a metadata key for
  every user key, and its value is a reference to an immutable blob in the data shard that owns the
  user key. The coordinator orders all writes; a write first stages its value under a fresh random
  key in the shard and then publishes the reference.

  The gRPC library is the parameter \<open>g\<close>, the stub constructors are \<open>stubs\<close>, \<open>sha256.Sum256\<close> is
  \<open>sha256\<close> and \<open>crypto/rand.Read\<close> on a slice of a given length is \<open>rand_read\<close>. A function that
  rewrites a message in place returns the rewritten message. The bidirectional stream of \<open>Watch\<close> is
  in theory \<open>Coordinated_Watch\<close>; its two message rewriting methods are here.

  The theory proves the laws of the operations one by one; what they amount to together (the proxy
  behaves as one key-value map) is in theory \<open>Coordinated_Refinement\<close>.
\<close>

section \<open>State\<close>

definition CoordinatedMetadataPrefix :: bytes where
  "CoordinatedMetadataPrefix = ''/__etcd_sharding/keys/''"

definition CoordinatedBlobPrefix :: bytes where
  "CoordinatedBlobPrefix = ''/__etcd_sharding/blobs/''"

definition coordinatedConfigKey :: bytes where
  "coordinatedConfigKey = ''/__etcd_sharding/config''"

record 'conn CoordinatedShard =
  csh_Start :: bytes
  csh_End :: bytes
  csh_Endpoint :: string
  csh_Conn :: "'conn option"

record ('conn, 'c, 'm, 'w) CoordinatedProxy =
  cp_backend :: "('c, 'm, 'w) BackendProxy"
  cp_shards :: "'conn CoordinatedShard list"
  cp_clients :: "('c, 'm, 'w) KVClient list"

section \<open>Construction\<close>

text \<open>The range check of the constructor at position \<open>i\<close> of \<open>shards\<close>, less the one on the connection.\<close>

definition range_misplaced :: "'conn CoordinatedShard list \<Rightarrow> nat \<Rightarrow> 'conn CoordinatedShard \<Rightarrow> bool" where
  "range_misplaced shards i s \<longleftrightarrow>
     i = 0 \<and> csh_Start s \<noteq> [] \<or>
     0 < i \<and> csh_End (shards ! (i - 1)) \<noteq> csh_Start s \<or>
     i < length shards - 1 \<and> (csh_End s = [] \<or> 0 \<le> bytes_compare (csh_Start s) (csh_End s)) \<or>
     i = length shards - 1 \<and> csh_End s \<noteq> []"

record route =
  rt_Start :: bytes
  rt_End :: bytes
  rt_Endpoint :: string

text \<open>
  The loop of the constructor over the shards from position \<open>i\<close> on, with the endpoints seen so far:
  the connection and the route of every shard.
\<close>

fun check_shards ::
  "('conn, 'c, 'm, 'w) Stubs \<Rightarrow> 'conn \<Rightarrow> 'conn CoordinatedShard list \<Rightarrow> nat \<Rightarrow> string list \<Rightarrow>
   'conn CoordinatedShard list \<Rightarrow> ('conn \<times> route) list result"
where
  "check_shards stubs coordinator shards i seen [] = Ok []"
| "check_shards stubs coordinator shards i seen (s # rest) =
     (case csh_Conn s of
        None \<Rightarrow> Err (Errorf ''shards must provide contiguous ordered ranges covering all keys'')
      | Some conn \<Rightarrow>
          if range_misplaced shards i s
          then Err (Errorf ''shards must provide contiguous ordered ranges covering all keys'')
          else
            let endpoint = (if csh_Endpoint s = [] then conn_Target stubs conn else csh_Endpoint s) in
            if endpoint = conn_Target stubs coordinator \<or> conn = coordinator \<or> endpoint \<in> set seen
            then Err (Errorf ''coordinator and shard endpoints must be distinct'')
            else
              res_bind (check_shards stubs coordinator shards (Suc i) (endpoint # seen) rest)
                (\<lambda>acc. Ok ((conn,
                   \<lparr>rt_Start = csh_Start s, rt_End = csh_End s, rt_Endpoint = endpoint\<rparr>) # acc)))"

definition Marshal_route :: "route \<Rightarrow> string" where
  "Marshal_route r =
     json_object [(''Start'', json_bytes (rt_Start r)), (''End'', json_bytes (rt_End r)),
                  (''Endpoint'', json_string (rt_Endpoint r))]"

definition Marshal_routes :: "route list \<Rightarrow> bytes" where
  "Marshal_routes rs = json_array (map Marshal_route rs)"

definition route_fingerprint :: "(bytes \<Rightarrow> bytes) \<Rightarrow> route list \<Rightarrow> bytes" where
  "route_fingerprint sha256 rs = hex_encode (sha256 (Marshal_routes rs))"

definition get_request :: "bytes \<Rightarrow> RangeRequest" where
  "get_request key =
     \<lparr>rr_Key = key, rr_RangeEnd = [], rr_Limit = 0, rr_Revision = 0, rr_SortTarget = RangeRequest_KEY,
      rr_Serializable = False, rr_KeysOnly = False, rr_CountOnly = False, rr_rest = []\<rparr>"

definition put_request :: "bytes \<Rightarrow> bytes \<Rightarrow> PutRequest" where
  "put_request key val =
     \<lparr>pr_Key = key, pr_Value = val, pr_Lease = 0, pr_PrevKv = False, pr_IgnoreValue = False,
      pr_IgnoreLease = False\<rparr>"

definition fingerprint_txn :: "bytes \<Rightarrow> TxnRequest" where
  "fingerprint_txn fingerprint =
     TxnRequest
       [Some \<lparr>cmp_Result = Compare_EQUAL, cmp_Target = Compare_VERSION, cmp_Key = coordinatedConfigKey,
              cmp_TargetUnion = TargetVersion 0, cmp_RangeEnd = []\<rparr>]
       [Some (RequestPut (Some (put_request coordinatedConfigKey fingerprint)))]
       [Some (RequestRange (Some (get_request coordinatedConfigKey)))]"

definition GetResponseRange :: "ResponseOp \<Rightarrow> RangeResponse option" where
  "GetResponseRange op = (case op of ResponseRange r \<Rightarrow> Some r | _ \<Rightarrow> None)"

text \<open>The check of the coordinator's answer to \<^const>\<open>fingerprint_txn\<close>.\<close>

definition check_fingerprint :: "bytes \<Rightarrow> TxnResponse \<Rightarrow> unit result" where
  "check_fingerprint fingerprint response =
     (if txr_Succeeded response then Ok ()
      else
        res_bind (index (txr_Responses response) 0) (\<lambda>op.
          deref (GetResponseRange op) (\<lambda>r.
            if length (rs_Kvs r) \<noteq> 1 \<or> kv_Value (rs_Kvs r ! 0) \<noteq> fingerprint
            then Err (Status FailedPrecondition ''coordinated routing fingerprint mismatch'')
            else Ok ())))"

definition NewCoordinatedProxy ::
  "('conn, 'c, 'm, 'w) Stubs \<Rightarrow> ('c, 'm, 'w) Grpc \<Rightarrow> (bytes \<Rightarrow> bytes) \<Rightarrow> 'c \<Rightarrow> 'conn option \<Rightarrow>
   'conn CoordinatedShard list \<Rightarrow> ('w, ('conn, 'c, 'm, 'w) CoordinatedProxy) io"
where
  "NewCoordinatedProxy stubs g sha256 ctx coordinator shards =
     (case coordinator of
        None \<Rightarrow> io_err (Errorf ''coordinator and shards are required'')
      | Some coord \<Rightarrow>
          if shards = [] then io_err (Errorf ''coordinator and shards are required'')
          else
            let backend = NewBackendProxy stubs coord in
            io_bind (io_lift (check_shards stubs coord shards 0 [] shards)) (\<lambda>acc.
              let fingerprint = route_fingerprint sha256 (map snd acc) in
              io_bind (rpc_call (KV_Txn (bp_kv backend)) (backendContext g ctx)
                         (fingerprint_txn fingerprint)) (\<lambda>response.
                io_bind (io_lift (check_fingerprint fingerprint response)) (\<lambda>_.
                  io_return \<lparr>cp_backend = backend, cp_shards = shards,
                              cp_clients = map (\<lambda>(conn, _). NewKVClient stubs conn) acc\<rparr>))))"

section \<open>Keys and routing\<close>

definition coordinatedInvalid :: "string \<Rightarrow> error" where
  "coordinatedInvalid message = Status InvalidArgument message"

definition coordinatedKeys :: "bytes \<Rightarrow> bytes \<Rightarrow> (bytes \<times> bytes) result" where
  "coordinatedKeys key rangeEnd =
     (if length key = 0 then Err (coordinatedInvalid ''empty key'')
      else
        Ok (CoordinatedMetadataPrefix @ key,
            (if 0 < length rangeEnd
             then (if rangeEnd = [CHR 0x00] then ''/__etcd_sharding/keys0''
                   else CoordinatedMetadataPrefix @ rangeEnd)
             else [])))"

fun shard_loop :: "'conn CoordinatedShard list \<Rightarrow> bytes \<Rightarrow> nat \<Rightarrow> nat result" where
  "shard_loop [] key i = Panic ''validated routing''"
| "shard_loop (s # rest) key i =
     (if csh_End s = [] \<or> bytes_compare key (csh_End s) < 0 then Ok i
      else shard_loop rest key (Suc i))"

definition shard :: "('conn, 'c, 'm, 'w) CoordinatedProxy \<Rightarrow> bytes \<Rightarrow> nat result" where
  "shard p key = shard_loop (cp_shards p) key 0"

definition mutationShard :: "('conn, 'c, 'm, 'w) CoordinatedProxy \<Rightarrow> bytes \<Rightarrow> bytes \<Rightarrow> nat result" where
  "mutationShard p key rangeEnd =
     res_bind (coordinatedKeys key rangeEnd) (\<lambda>_.
       res_bind (shard p key) (\<lambda>i.
         let shardEnd = csh_End (cp_shards p ! i) in
         if 0 < length rangeEnd \<and> 0 < length shardEnd \<and>
            (rangeEnd = [CHR 0x00] \<or> 0 < bytes_compare rangeEnd shardEnd)
         then Err (coordinatedInvalid ''cross-shard mutation unsupported'')
         else Ok i))"

section \<open>Reading\<close>

text \<open>The checks of \<open>decodeKV\<close> on the reference stored in the coordinator.\<close>

definition valid_ref :: "nat \<Rightarrow> bytes \<Rightarrow> coordinatedRef option" where
  "valid_ref clients val =
     (case Unmarshal_ref val of
        None \<Rightarrow> None
      | Some ref \<Rightarrow>
          if ref_Shard ref < 0 \<or> int clients \<le> ref_Shard ref \<or> \<not> prefix CoordinatedBlobPrefix (ref_Key ref)
          then None else Some ref)"

definition decode_kv ::
  "('c, 'm, 'w) Grpc \<Rightarrow> ('conn, 'c, 'm, 'w) CoordinatedProxy \<Rightarrow> 'c \<Rightarrow> bool \<Rightarrow> KeyValue \<Rightarrow> ('w, KeyValue) io"
where
  "decode_kv g p ctx keysOnly kv =
     (if \<not> prefix CoordinatedMetadataPrefix (kv_Key kv)
      then io_err (Status DataLoss ''unexpected coordinator key'')
      else
        let kv1 = kv\<lparr>kv_Key := drop (length CoordinatedMetadataPrefix) (kv_Key kv)\<rparr> in
        if keysOnly then io_return kv1
        else if length (kv_Value kv) = 0
        then io_err (Status DataLoss ''empty immutable blob reference'')
        else case valid_ref (length (cp_clients p)) (kv_Value kv) of
               None \<Rightarrow> io_err (Status DataLoss ''invalid immutable blob reference'')
             | Some ref \<Rightarrow>
                 io_bind (rpc_call (KV_Range (cp_clients p ! nat (ref_Shard ref))) (backendContext g ctx)
                            (get_request (ref_Key ref))) (\<lambda>r.
                   if length (rs_Kvs r) \<noteq> 1
                   then io_err (Status DataLoss ''immutable blob missing'')
                   else io_return (kv1\<lparr>kv_Value := kv_Value (rs_Kvs r ! 0)\<rparr>)))"

definition decodeKV ::
  "('c, 'm, 'w) Grpc \<Rightarrow> ('conn, 'c, 'm, 'w) CoordinatedProxy \<Rightarrow> 'c \<Rightarrow> KeyValue option \<Rightarrow> bool \<Rightarrow>
   ('w, KeyValue option) io"
where
  "decodeKV g p ctx kv keysOnly =
     (case kv of
        None \<Rightarrow> io_return None
      | Some kv \<Rightarrow> io_bind (decode_kv g p ctx keysOnly kv) (\<lambda>kv'. io_return (Some kv')))"

definition rangeRequest :: "RangeRequest option \<Rightarrow> RangeRequest result" where
  "rangeRequest req =
     (case req of
        None \<Rightarrow> Err (coordinatedInvalid ''missing range'')
      | Some r \<Rightarrow>
          if rr_SortTarget r = RangeRequest_VALUE
          then Err (coordinatedInvalid ''value sorting unsupported'')
          else res_bind (coordinatedKeys (rr_Key r) (rr_RangeEnd r)) (\<lambda>(k, e).
            Ok (r\<lparr>rr_Key := k, rr_RangeEnd := e\<rparr>)))"

definition CoordinatedProxy_Range ::
  "('c, 'm, 'w) Grpc \<Rightarrow> ('conn, 'c, 'm, 'w) CoordinatedProxy \<Rightarrow> 'c \<Rightarrow> RangeRequest option \<Rightarrow>
   ('w, RangeResponse) io"
where
  "CoordinatedProxy_Range g p ctx req =
     io_bind (io_lift (rangeRequest req)) (\<lambda>r.
       io_bind (forwardUnary g ctx r (KV_Range (bp_kv (cp_backend p)))) (\<lambda>out.
         io_bind (io_lift (deref req (\<lambda>q. Ok (rr_KeysOnly q)))) (\<lambda>keysOnly.
           io_bind (io_map (decode_kv g p ctx keysOnly) (rs_Kvs out)) (\<lambda>kvs.
             io_return (out\<lparr>rs_Kvs := kvs\<rparr>)))))"

section \<open>Writing\<close>

definition validateCoordinatedPut :: "PutRequest option \<Rightarrow> unit result" where
  "validateCoordinatedPut req =
     (case req of
        None \<Rightarrow> Err (coordinatedInvalid ''missing put'')
      | Some r \<Rightarrow>
          res_bind (coordinatedKeys (pr_Key r) []) (\<lambda>_.
            if pr_IgnoreValue r \<and> 0 < length (pr_Value r)
            then Err (coordinatedInvalid ''value provided with ignore_value'')
            else if pr_IgnoreLease r \<and> pr_Lease r \<noteq> 0
            then Err (coordinatedInvalid ''lease provided with ignore_lease'')
            else Ok ()))"

definition stagePut ::
  "('c, 'm, 'w) Grpc \<Rightarrow> (nat \<Rightarrow> ('w, bytes) io) \<Rightarrow> ('conn, 'c, 'm, 'w) CoordinatedProxy \<Rightarrow> 'c \<Rightarrow>
   PutRequest \<Rightarrow> ('w, PutRequest) io"
where
  "stagePut g rand_read p ctx req =
     io_bind (io_lift (coordinatedKeys (pr_Key req) [])) (\<lambda>(k, _).
       let r = req\<lparr>pr_Key := k\<rparr> in
       if pr_IgnoreValue r then io_return r
       else
         io_bind (rand_read 32) (\<lambda>token.
           io_bind (io_lift (shard p (pr_Key req))) (\<lambda>i.
             let blob = CoordinatedBlobPrefix @ hex_encode token in
             io_bind (io_lift (index (cp_clients p) (int i))) (\<lambda>client.
               io_bind (rpc_call (KV_Put client) (backendContext g ctx)
                          (put_request blob (pr_Value req))) (\<lambda>_.
                 io_return (r\<lparr>pr_Value := Marshal_ref \<lparr>ref_Shard = int i, ref_Key = blob\<rparr>\<rparr>))))))"

definition CoordinatedProxy_Put ::
  "('c, 'm, 'w) Grpc \<Rightarrow> (nat \<Rightarrow> ('w, bytes) io) \<Rightarrow> ('conn, 'c, 'm, 'w) CoordinatedProxy \<Rightarrow> 'c \<Rightarrow>
   PutRequest option \<Rightarrow> ('w, PutResponse) io"
where
  "CoordinatedProxy_Put g rand_read p ctx req =
     io_bind (io_lift (validateCoordinatedPut req)) (\<lambda>_.
       io_bind (io_lift (deref req Ok)) (\<lambda>q.
         io_bind (stagePut g rand_read p ctx q) (\<lambda>r.
           io_bind (forwardUnary g ctx r (KV_Put (bp_kv (cp_backend p)))) (\<lambda>out.
             io_bind (decodeKV g p ctx (ps_PrevKv out) False) (\<lambda>prev.
               io_return (out\<lparr>ps_PrevKv := prev\<rparr>))))))"

definition coordinatedDelete :: "DeleteRangeRequest option \<Rightarrow> DeleteRangeRequest result" where
  "coordinatedDelete req =
     (case req of
        None \<Rightarrow> Err (coordinatedInvalid ''missing delete'')
      | Some r \<Rightarrow>
          res_bind (coordinatedKeys (dr_Key r) (dr_RangeEnd r)) (\<lambda>(k, e).
            Ok (r\<lparr>dr_Key := k, dr_RangeEnd := e\<rparr>)))"

definition CoordinatedProxy_DeleteRange ::
  "('c, 'm, 'w) Grpc \<Rightarrow> ('conn, 'c, 'm, 'w) CoordinatedProxy \<Rightarrow> 'c \<Rightarrow> DeleteRangeRequest option \<Rightarrow>
   ('w, DeleteRangeResponse) io"
where
  "CoordinatedProxy_DeleteRange g p ctx req =
     (case req of
        None \<Rightarrow> io_err (coordinatedInvalid ''missing delete'')
      | Some q \<Rightarrow>
          io_bind (io_lift (mutationShard p (dr_Key q) (dr_RangeEnd q))) (\<lambda>_.
            io_bind (io_lift (coordinatedDelete req)) (\<lambda>r.
              io_bind (forwardUnary g ctx r (KV_DeleteRange (bp_kv (cp_backend p)))) (\<lambda>out.
                io_bind (io_map (decode_kv g p ctx False) (ds_PrevKvs out)) (\<lambda>prevs.
                  io_return (out\<lparr>ds_PrevKvs := prevs\<rparr>))))))"

section \<open>Transactions\<close>

definition rewriteCompare :: "Compare option \<Rightarrow> Compare option result" where
  "rewriteCompare c =
     (case c of
        None \<Rightarrow> Err (coordinatedInvalid ''missing compare'')
      | Some c \<Rightarrow>
          if cmp_Target c = Compare_VALUE
          then Err (coordinatedInvalid ''value comparisons unsupported'')
          else res_bind (coordinatedKeys (cmp_Key c) (cmp_RangeEnd c)) (\<lambda>(k, e).
            Ok (Some (c\<lparr>cmp_Key := k, cmp_RangeEnd := e\<rparr>))))"

fun rewriteCompares :: "Compare option list \<Rightarrow> Compare option list result" where
  "rewriteCompares [] = Ok []"
| "rewriteCompares (c # cs) =
     res_bind (rewriteCompare c) (\<lambda>c'. res_bind (rewriteCompares cs) (\<lambda>cs'. Ok (c' # cs')))"

text \<open>The shard an operation mutates, \<open>-1\<close> for a read.\<close>

definition validateOp :: "('conn, 'c, 'm, 'w) CoordinatedProxy \<Rightarrow> RequestOp option \<Rightarrow> int result" where
  "validateOp p op =
     (case op of
        None \<Rightarrow> Err (coordinatedInvalid ''missing operation'')
      | Some (RequestRange v) \<Rightarrow> res_bind (rangeRequest v) (\<lambda>_. Ok (-1))
      | Some (RequestPut v) \<Rightarrow>
          res_bind (validateCoordinatedPut v) (\<lambda>_.
            deref v (\<lambda>q. res_bind (mutationShard p (pr_Key q) []) (\<lambda>i. Ok (int i))))
      | Some (RequestDeleteRange v) \<Rightarrow>
          (case v of
             None \<Rightarrow> Err (coordinatedInvalid ''missing delete'')
           | Some q \<Rightarrow> res_bind (mutationShard p (dr_Key q) (dr_RangeEnd q)) (\<lambda>i. Ok (int i)))
      | _ \<Rightarrow> Err (coordinatedInvalid ''nested or unknown transaction operation unsupported''))"

fun validateOps ::
  "('conn, 'c, 'm, 'w) CoordinatedProxy \<Rightarrow> int \<Rightarrow> RequestOp option list \<Rightarrow> int result"
where
  "validateOps p mutation [] = Ok mutation"
| "validateOps p mutation (op # ops) =
     res_bind (validateOp p op) (\<lambda>idx.
       if 0 \<le> idx
       then (if 0 \<le> mutation \<and> mutation \<noteq> idx
             then Err (coordinatedInvalid ''cross-shard mutating transaction unsupported'')
             else validateOps p idx ops)
       else validateOps p mutation ops)"

definition stageOp ::
  "('c, 'm, 'w) Grpc \<Rightarrow> (nat \<Rightarrow> ('w, bytes) io) \<Rightarrow> ('conn, 'c, 'm, 'w) CoordinatedProxy \<Rightarrow> 'c \<Rightarrow>
   RequestOp option \<Rightarrow> ('w, RequestOp option) io"
where
  "stageOp g rand_read p ctx op =
     (case op of
        None \<Rightarrow> io_lift (Panic ''nil pointer dereference'')
      | Some (RequestRange v) \<Rightarrow>
          io_bind (io_lift (rangeRequest v)) (\<lambda>r. io_return (Some (RequestRange (Some r))))
      | Some (RequestPut v) \<Rightarrow>
          io_bind (io_lift (deref v Ok)) (\<lambda>q.
            io_bind (stagePut g rand_read p ctx q) (\<lambda>r. io_return (Some (RequestPut (Some r)))))
      | Some (RequestDeleteRange v) \<Rightarrow>
          io_bind (io_lift (coordinatedDelete v)) (\<lambda>r. io_return (Some (RequestDeleteRange (Some r))))
      | Some other \<Rightarrow> io_return (Some other))"

text \<open>\<open>branch[i].GetRequestRange().KeysOnly\<close>\<close>

definition branch_keysOnly :: "RequestOp option list \<Rightarrow> nat \<Rightarrow> bool result" where
  "branch_keysOnly branch i =
     res_bind (index branch (int i)) (\<lambda>op.
       case op of
         Some (RequestRange (Some r)) \<Rightarrow> Ok (rr_KeysOnly r)
       | _ \<Rightarrow> Panic ''nil pointer dereference'')"

definition decodeResponse ::
  "('c, 'm, 'w) Grpc \<Rightarrow> ('conn, 'c, 'm, 'w) CoordinatedProxy \<Rightarrow> 'c \<Rightarrow> RequestOp option list \<Rightarrow> nat \<Rightarrow>
   ResponseOp \<Rightarrow> ('w, ResponseOp) io"
where
  "decodeResponse g p ctx branch i op =
     (case op of
        ResponseRange v \<Rightarrow>
          io_bind (io_map (\<lambda>kv. io_bind (io_lift (branch_keysOnly branch i))
                                   (\<lambda>keysOnly. decode_kv g p ctx keysOnly kv)) (rs_Kvs v)) (\<lambda>kvs.
            io_return (ResponseRange (v\<lparr>rs_Kvs := kvs\<rparr>)))
      | ResponsePut v \<Rightarrow>
          io_bind (decodeKV g p ctx (ps_PrevKv v) False) (\<lambda>prev.
            io_return (ResponsePut (v\<lparr>ps_PrevKv := prev\<rparr>)))
      | ResponseDeleteRange v \<Rightarrow>
          io_bind (io_map (decode_kv g p ctx False) (ds_PrevKvs v)) (\<lambda>prevs.
            io_return (ResponseDeleteRange (v\<lparr>ds_PrevKvs := prevs\<rparr>)))
      | other \<Rightarrow> io_return other)"

fun decodeResponses ::
  "('c, 'm, 'w) Grpc \<Rightarrow> ('conn, 'c, 'm, 'w) CoordinatedProxy \<Rightarrow> 'c \<Rightarrow> RequestOp option list \<Rightarrow> nat \<Rightarrow>
   ResponseOp list \<Rightarrow> ('w, ResponseOp list) io"
where
  "decodeResponses g p ctx branch i [] = io_return []"
| "decodeResponses g p ctx branch i (op # ops) =
     io_bind (decodeResponse g p ctx branch i op) (\<lambda>op'.
       io_bind (decodeResponses g p ctx branch (Suc i) ops) (\<lambda>ops'. io_return (op' # ops')))"

definition CoordinatedProxy_Txn ::
  "('c, 'm, 'w) Grpc \<Rightarrow> (nat \<Rightarrow> ('w, bytes) io) \<Rightarrow> ('conn, 'c, 'm, 'w) CoordinatedProxy \<Rightarrow> 'c \<Rightarrow>
   TxnRequest option \<Rightarrow> ('w, TxnResponse) io"
where
  "CoordinatedProxy_Txn g rand_read p ctx req =
     (case req of
        None \<Rightarrow> io_err (coordinatedInvalid ''missing txn'')
      | Some q \<Rightarrow>
          io_bind (io_lift (rewriteCompares (txn_Compare q))) (\<lambda>compare.
            io_bind (io_lift (validateOps p (-1) (txn_Success q))) (\<lambda>mutation.
              io_bind (io_lift (validateOps p mutation (txn_Failure q))) (\<lambda>_.
                io_bind (io_map (stageOp g rand_read p ctx) (txn_Success q)) (\<lambda>success.
                  io_bind (io_map (stageOp g rand_read p ctx) (txn_Failure q)) (\<lambda>failure.
                    io_bind (forwardUnary g ctx (TxnRequest compare success failure)
                               (KV_Txn (bp_kv (cp_backend p)))) (\<lambda>out.
                      let branch = (if txr_Succeeded out then txn_Success q else txn_Failure q) in
                      io_bind (decodeResponses g p ctx branch 0 (txr_Responses out)) (\<lambda>responses.
                        io_return (TxnResponse (txr_Header out) (txr_Succeeded out) responses)))))))))"

section \<open>Leases, compaction and status\<close>

definition CoordinatedProxy_Compact ::
  "('c, 'm, 'w) Grpc \<Rightarrow> ('conn, 'c, 'm, 'w) CoordinatedProxy \<Rightarrow> 'c \<Rightarrow> CompactionRequest \<Rightarrow>
   ('w, CompactionResponse) io"
where
  "CoordinatedProxy_Compact g p ctx r = BackendProxy_Compact g (cp_backend p) ctx r"

definition CoordinatedProxy_LeaseGrant ::
  "('c, 'm, 'w) Grpc \<Rightarrow> ('conn, 'c, 'm, 'w) CoordinatedProxy \<Rightarrow> 'c \<Rightarrow> LeaseGrantRequest \<Rightarrow>
   ('w, LeaseGrantResponse) io"
where
  "CoordinatedProxy_LeaseGrant g p ctx r = BackendProxy_LeaseGrant g (cp_backend p) ctx r"

definition CoordinatedProxy_LeaseRevoke ::
  "('c, 'm, 'w) Grpc \<Rightarrow> ('conn, 'c, 'm, 'w) CoordinatedProxy \<Rightarrow> 'c \<Rightarrow> LeaseRevokeRequest \<Rightarrow>
   ('w, LeaseRevokeResponse) io"
where
  "CoordinatedProxy_LeaseRevoke g p ctx r = BackendProxy_LeaseRevoke g (cp_backend p) ctx r"

definition CoordinatedProxy_LeaseLeases ::
  "('c, 'm, 'w) Grpc \<Rightarrow> ('conn, 'c, 'm, 'w) CoordinatedProxy \<Rightarrow> 'c \<Rightarrow> LeaseLeasesRequest \<Rightarrow>
   ('w, LeaseLeasesResponse) io"
where
  "CoordinatedProxy_LeaseLeases g p ctx r = BackendProxy_LeaseLeases g (cp_backend p) ctx r"

fun strip_keys :: "bytes list \<Rightarrow> bytes list result" where
  "strip_keys [] = Ok []"
| "strip_keys (k # ks) =
     (if \<not> prefix CoordinatedMetadataPrefix k then Err (Status DataLoss ''unexpected lease key'')
      else res_bind (strip_keys ks) (\<lambda>us. Ok (drop (length CoordinatedMetadataPrefix) k # us)))"

definition CoordinatedProxy_LeaseTimeToLive ::
  "('c, 'm, 'w) Grpc \<Rightarrow> ('conn, 'c, 'm, 'w) CoordinatedProxy \<Rightarrow> 'c \<Rightarrow> LeaseTimeToLiveRequest \<Rightarrow>
   ('w, LeaseTimeToLiveResponse) io"
where
  "CoordinatedProxy_LeaseTimeToLive g p ctx r =
     io_bind (BackendProxy_LeaseTimeToLive g (cp_backend p) ctx r) (\<lambda>out.
       io_bind (io_lift (strip_keys (lts_Keys out))) (\<lambda>keys.
         io_return (out\<lparr>lts_Keys := keys\<rparr>)))"

definition CoordinatedProxy_Status ::
  "('c, 'm, 'w) Grpc \<Rightarrow> ('conn, 'c, 'm, 'w) CoordinatedProxy \<Rightarrow> 'c \<Rightarrow> opaque \<Rightarrow> ('w, opaque) io"
where
  "CoordinatedProxy_Status g p ctx r = BackendProxy_Status g (cp_backend p) ctx r"

section \<open>The watch stream\<close>

definition watch_SendMsg ::
  "('w, 'm, WatchRequest, WatchResponse) ClientStream \<Rightarrow> WatchRequest \<Rightarrow> ('w, unit) io"
where
  "watch_SendMsg back r =
     (case r of
        WatchCreate c \<Rightarrow>
          io_bind (io_lift (coordinatedKeys (wc_Key c) (wc_RangeEnd c))) (\<lambda>(k, e).
            cs_SendMsg back (WatchCreate (c\<lparr>wc_Key := k, wc_RangeEnd := e\<rparr>)))
      | _ \<Rightarrow> cs_SendMsg back r)"

definition decodeEvent ::
  "('c, 'm, 'w) Grpc \<Rightarrow> ('conn, 'c, 'm, 'w) CoordinatedProxy \<Rightarrow> 'c \<Rightarrow> Event \<Rightarrow> ('w, Event) io"
where
  "decodeEvent g p ctx event =
     io_bind (decodeKV g p ctx (ev_Kv event) (ev_Type event = DELETE)) (\<lambda>kv.
       io_bind (decodeKV g p ctx (ev_PrevKv event) False) (\<lambda>prev.
         io_return (event\<lparr>ev_Kv := kv, ev_PrevKv := prev\<rparr>)))"

definition watch_RecvMsg ::
  "('c, 'm, 'w) Grpc \<Rightarrow> ('conn, 'c, 'm, 'w) CoordinatedProxy \<Rightarrow> 'c \<Rightarrow>
   ('w, 'm, WatchRequest, WatchResponse) ClientStream \<Rightarrow> ('w, WatchResponse) io"
where
  "watch_RecvMsg g p ctx back =
     io_bind (cs_RecvMsg back) (\<lambda>message.
       io_bind (io_map (decodeEvent g p ctx) (wr_Events message)) (\<lambda>events.
         io_return (message\<lparr>wr_Events := events\<rparr>)))"

definition coordinatedWatchStream ::
  "('c, 'm, 'w) Grpc \<Rightarrow> ('conn, 'c, 'm, 'w) CoordinatedProxy \<Rightarrow> 'c \<Rightarrow>
   ('w, 'm, WatchRequest, WatchResponse) ClientStream \<Rightarrow>
   ('w, 'm, WatchRequest, WatchResponse) ClientStream"
where
  "coordinatedWatchStream g p ctx back =
     back\<lparr>cs_SendMsg := watch_SendMsg back, cs_RecvMsg := watch_RecvMsg g p ctx back\<rparr>"

section \<open>Routing\<close>

text \<open>An empty end is the unbounded one here.\<close>

definition route_segment :: "'conn CoordinatedShard \<Rightarrow> segment" where
  "route_segment s = (csh_Start s, if csh_End s = [] then None else Some (csh_End s))"

lemma route_segment_sel [simp]:
  "fst (route_segment s) = csh_Start s"
  "snd (route_segment s) = (if csh_End s = [] then None else Some (csh_End s))"
  "seg_owns (route_segment s) k \<longleftrightarrow> csh_Start s \<le> k \<and> (csh_End s = [] \<or> k < csh_End s)"
  by (simp_all add: route_segment_def seg_owns_def)

definition valid_routing :: "('conn, 'c, 'm, 'w) CoordinatedProxy \<Rightarrow> bool" where
  "valid_routing p \<longleftrightarrow>
     tiles [] (map route_segment (cp_shards p)) \<and> length (cp_clients p) = length (cp_shards p)"

lemma shard_loop_owner:
  assumes "tiles b (map route_segment ss)" and "b \<le> k"
  shows "\<exists>i < length ss. shard_loop ss k n = Ok (n + i) \<and> seg_owns (route_segment (ss ! i)) k"
  using assms
proof (induction ss arbitrary: b n)
  case (Cons s ss)
  show ?case
  proof (cases "csh_End s = [] \<or> k < csh_End s")
    case True
    have "csh_Start s = b"
      using Cons.prems(1) by (cases ss) auto
    with True Cons.prems(2) show ?thesis
      by (auto intro!: exI [of _ 0])
  next
    case False
    with Cons.prems have "tiles (csh_End s) (map route_segment ss)"
      by (cases ss) auto
    with Cons.IH [of "csh_End s" "Suc n"] False obtain i where
      "i < length ss" "shard_loop ss k (Suc n) = Ok (Suc n + i)" "seg_owns (route_segment (ss ! i)) k"
      by (auto simp: not_less)
    with False show ?thesis by (auto intro!: exI [of _ "Suc i"])
  qed
qed simp

interpretation coord: key_router valid_routing "\<lambda>p. map route_segment (cp_shards p)" shard
proof unfold_locales
  fix p :: "('a, 'b, 'c, 'd) CoordinatedProxy" and k
  assume p: "valid_routing p"
  then show "tiles [] (map route_segment (cp_shards p))" by (simp add: valid_routing_def)
  from p have "tiles [] (map route_segment (cp_shards p))" by (simp add: valid_routing_def)
  from shard_loop_owner [OF this, of k 0]
  show "\<exists>i < length (map route_segment (cp_shards p)).
      shard p k = Ok i \<and> seg_owns (map route_segment (cp_shards p) ! i) k"
    by (auto simp: shard_def)
qed

lemma shard_Ok_iff:
  assumes "valid_routing p"
  shows "shard p k = Ok i \<longleftrightarrow>
    i < length (cp_shards p) \<and> csh_Start (cp_shards p ! i) \<le> k \<and>
    (csh_End (cp_shards p ! i) = [] \<or> k < csh_End (cp_shards p ! i))"
  using coord.route_Ok_iff [OF assms, of k i]
  by auto

lemma shard_Ok:
  assumes "valid_routing p"
  obtains i where "shard p k = Ok i" "i < length (cp_shards p)" "i < length (cp_clients p)"
  using coord.route_owner [OF assms, of k] assms by (auto simp: valid_routing_def)

lemma coordinatedKeys_Ok [simp]:
  "coordinatedKeys key rangeEnd = Ok (k, e) \<longleftrightarrow>
     key \<noteq> [] \<and> k = CoordinatedMetadataPrefix @ key \<and>
     e = (if rangeEnd = [] then []
          else if rangeEnd = noEnd then ''/__etcd_sharding/keys0''
          else CoordinatedMetadataPrefix @ rangeEnd)"
  by (auto simp: coordinatedKeys_def noEnd_def)

lemma coordinatedKeys_nonempty:
  "key \<noteq> [] \<Longrightarrow> \<exists>e. coordinatedKeys key rangeEnd = Ok (CoordinatedMetadataPrefix @ key, e)"
  by simp

lemma coordinatedKeys_empty:
  "coordinatedKeys [] rangeEnd = Err (coordinatedInvalid ''empty key'')"
  by (simp add: coordinatedKeys_def)

lemma metadata_prefix_split: "CoordinatedMetadataPrefix = ''/__etcd_sharding/keys'' @ [CHR ''/'']"
  by (simp add: CoordinatedMetadataPrefix_def)

lemma char_after_slash: "CHR ''/'' < (c :: char) \<Longrightarrow> CHR ''0'' \<le> c"
  by (simp add: less_char_def less_eq_char_def)

lemma metadata_end_iff:
  "CoordinatedMetadataPrefix @ key \<le> m \<and> m < ''/__etcd_sharding/keys0'' \<longleftrightarrow>
     (\<exists>u. m = CoordinatedMetadataPrefix @ u \<and> key \<le> u)"
proof
  assume m: "CoordinatedMetadataPrefix @ key \<le> m \<and> m < ''/__etcd_sharding/keys0''"
  have "prefix (''/__etcd_sharding/keys'' @ [CHR ''/'']) m"
    by (rule prefix_of_below_successor [where a = key and d = "CHR ''0''"])
      (use m char_after_slash in \<open>auto simp: CoordinatedMetadataPrefix_def\<close>)
  then obtain u where u: "m = CoordinatedMetadataPrefix @ u"
    unfolding metadata_prefix_split by (rule prefixE)
  with m show "\<exists>u. m = CoordinatedMetadataPrefix @ u \<and> key \<le> u" by auto
qed (auto simp: CoordinatedMetadataPrefix_def)

lemma coordinatedKeys_in_range:
  assumes "coordinatedKeys key rangeEnd = Ok (k, e)"
  shows "in_range m k e \<longleftrightarrow> (\<exists>u. m = CoordinatedMetadataPrefix @ u \<and> in_range u key rangeEnd)"
proof -
  consider "rangeEnd = []" | "rangeEnd = noEnd" | "rangeEnd \<noteq> []" "rangeEnd \<noteq> noEnd" by blast
  then show ?thesis
  proof cases
    case 1
    then show ?thesis using assms by auto
  next
    case 2
    then have "rangeEnd \<noteq> []" "''/__etcd_sharding/keys0'' \<noteq> noEnd" by (simp_all add: noEnd_def)
    with 2 assms metadata_end_iff [of key m] show ?thesis by (simp add: in_range_def)
  next
    case 3
    let ?P = CoordinatedMetadataPrefix
    have "?P @ rangeEnd \<noteq> noEnd" by (simp add: noEnd_def CoordinatedMetadataPrefix_def)
    moreover have "?P @ key \<le> m \<and> m < ?P @ rangeEnd \<longleftrightarrow>
        (\<exists>u. m = ?P @ u \<and> key \<le> u \<and> u < rangeEnd)"
      using prefix_of_between [of ?P key m rangeEnd] by (auto elim!: prefixE)
    ultimately show ?thesis using 3 assms by (simp add: in_range_def)
  qed
qed

lemma mutationShard_exact:
  assumes p: "valid_routing p" and key: "key \<noteq> []"
  shows "mutationShard p key rangeEnd = Ok i \<longleftrightarrow>
    shard p key = Ok i \<and> (\<forall>u. in_range u key rangeEnd \<longrightarrow> shard p u = Ok i)"
proof -
  obtain j where j: "shard p key = Ok j" using shard_Ok [OF p, of key] by metis
  let ?E = "csh_End (cp_shards p ! j)"
  obtain k e where "coordinatedKeys key rangeEnd = Ok (k, e)" using key by auto
  then have ms: "mutationShard p key rangeEnd =
      (if rangeEnd \<noteq> [] \<and> ?E \<noteq> [] \<and> (rangeEnd = noEnd \<or> ?E < rangeEnd)
       then Err (coordinatedInvalid ''cross-shard mutation unsupported'') else Ok j)"
    by (simp add: mutationShard_def j noEnd_def Let_def del: coordinatedKeys_Ok)
  note own = shard_Ok_iff [OF p]
  show ?thesis
  proof (cases "rangeEnd \<noteq> [] \<and> ?E \<noteq> [] \<and> (rangeEnd = noEnd \<or> ?E < rangeEnd)")
    case True
    then have "in_range ?E key rangeEnd" using j own [of key j] by (auto simp: in_range_def)
    moreover have "shard p ?E \<noteq> Ok j" using True own [of ?E j] by auto
    ultimately show ?thesis using True ms j by auto
  next
    case False
    then have "shard p u = Ok j" if "in_range u key rangeEnd" for u
      using that j own [of key j] own [of u j]
      by (auto simp: in_range_def not_less split: if_splits intro: order_trans less_le_trans)
    with False ms j show ?thesis by auto
  qed
qed

lemma mutationShard_cases:
  assumes "valid_routing p"
  obtains i where "mutationShard p key rangeEnd = Ok i" "i < length (cp_shards p)" "key \<noteq> []"
  | msg where "mutationShard p key rangeEnd = Err (Status InvalidArgument msg)"
proof (cases "key = []")
  case True
  then show thesis using that(2) by (simp add: mutationShard_def coordinatedKeys_empty coordinatedInvalid_def)
next
  case False
  obtain i where i: "shard p key = Ok i" "i < length (cp_shards p)"
    by (rule shard_Ok [OF assms, of key])
  obtain k e where "coordinatedKeys key rangeEnd = Ok (k, e)" using False by auto
  with i have "mutationShard p key rangeEnd =
      Err (coordinatedInvalid ''cross-shard mutation unsupported'') \<or> mutationShard p key rangeEnd = Ok i"
    by (simp add: mutationShard_def Let_def del: coordinatedKeys_Ok)
  with that False i show thesis by (auto simp: coordinatedInvalid_def)
qed

section \<open>Construction\<close>

lemma check_shards_Ok:
  assumes "check_shards stubs coord shards i seen rest = Ok acc" and "rest = drop i shards" "i < length shards"
  shows "tiles (csh_Start (hd rest)) (map route_segment rest) \<and> length acc = length rest \<and>
    map Some (map fst acc) = map csh_Conn rest \<and>
    coord \<notin> set (map fst acc) \<and> distinct (map (rt_Endpoint \<circ> snd) acc) \<and>
    set (map (rt_Endpoint \<circ> snd) acc) \<inter> insert (conn_Target stubs coord) (set seen) = {}"
  using assms
proof (induction rest arbitrary: i seen acc)
  case (Cons s rest)
  from Cons.prems(1) obtain conn where conn: "csh_Conn s = Some conn" by (auto split: option.splits)
  let ?ep = "if csh_Endpoint s = [] then conn_Target stubs conn else csh_Endpoint s"
  from Cons.prems(1) conn obtain acc' where
    ok: "\<not> range_misplaced shards i s" "?ep \<noteq> conn_Target stubs coord" "conn \<noteq> coord" "?ep \<notin> set seen"
    and rec: "check_shards stubs coord shards (Suc i) (?ep # seen) rest = Ok acc'"
    and acc: "acc = (conn, \<lparr>rt_Start = csh_Start s, rt_End = csh_End s, rt_Endpoint = ?ep\<rparr>) # acc'"
    by (auto simp: res_bind_eq_Ok Let_def split: if_splits)
  have s: "s = shards ! i" using Cons.prems(2,3) by (simp add: Cons_nth_drop_Suc [symmetric])
  have rest: "rest = drop (Suc i) shards" using Cons.prems(2) by (metis drop_Suc list.sel(3) tl_drop)
  show ?case
  proof (cases "rest = []")
    case True
    with rest Cons.prems(3) have "i = length shards - 1" by simp
    with ok(1) True rec ok(2-4) acc conn show ?thesis by (simp add: range_misplaced_def)
  next
    case False
    then have i: "Suc i < length shards" "i < length shards - 1" using rest by simp_all
    then have "hd rest = shards ! Suc i" using rest by (simp add: hd_drop_conv_nth)
    obtain t ts where ts: "rest = t # ts" using False by (cases rest) auto
    with \<open>hd rest = shards ! Suc i\<close> have t: "t = shards ! Suc i" by simp
    from rec ts obtain "\<not> range_misplaced shards (Suc i) t"
      by (auto simp: Let_def split: option.splits if_splits)
    then have "csh_Start t = csh_End s" by (simp add: range_misplaced_def s)
    moreover have "csh_End s \<noteq> []" "csh_Start s < csh_End s"
      using ok(1) i by (auto simp: range_misplaced_def not_le)
    ultimately show ?thesis
      using Cons.IH [OF rec rest i(1)] ok(2-4) acc conn ts by auto
  qed
qed simp

lemma NewCoordinatedProxy_Ok:
  assumes "NewCoordinatedProxy stubs g sha256 ctx coordinator shards w = (Ok p, w')"
  obtains coord acc response where
    "coordinator = Some coord" "check_shards stubs coord shards 0 [] shards = Ok acc" "shards \<noteq> []"
    "rpc_call (KV_Txn (NewKVClient stubs coord)) (backendContext g ctx)
       (fingerprint_txn (route_fingerprint sha256 (map snd acc))) w = (Ok response, w')"
    "check_fingerprint (route_fingerprint sha256 (map snd acc)) response = Ok ()"
    "p = \<lparr>cp_backend = NewBackendProxy stubs coord, cp_shards = shards,
          cp_clients = map (\<lambda>(conn, _). NewKVClient stubs conn) acc\<rparr>"
  using assms
  by (auto simp: NewCoordinatedProxy_def Let_def io_bind_Ok_iff NewBackendProxy_def
      split: option.splits if_splits)

lemma check_shards_start:
  assumes "check_shards stubs coord shards 0 [] shards = Ok acc" and "shards \<noteq> []"
  shows "csh_Start (hd shards) = []"
  using assms by (cases shards) (auto simp: range_misplaced_def Let_def split: option.splits if_splits)

lemma NewCoordinatedProxy_valid:
  assumes "NewCoordinatedProxy stubs g sha256 ctx coordinator shards w = (Ok p, w')"
  shows "valid_routing p"
proof -
  from assms obtain coord acc where
    acc: "check_shards stubs coord shards 0 [] shards = Ok acc" "shards \<noteq> []"
    and p: "cp_shards p = shards" "length (cp_clients p) = length acc"
    by (rule NewCoordinatedProxy_Ok) auto
  from check_shards_Ok [OF acc(1)] check_shards_start [OF acc] acc(2) p show ?thesis
    by (simp add: valid_routing_def)
qed

section \<open>Requests that are turned down\<close>

text \<open>A rejected request gets an \<open>InvalidArgument\<close> status.\<close>

definition rejected :: "'a result \<Rightarrow> bool" where
  "rejected r \<longleftrightarrow> (\<exists>msg. r = Err (Status InvalidArgument msg))"

definition accepted :: "'a result \<Rightarrow> bool" where
  "accepted r \<longleftrightarrow> (\<exists>a. r = Ok a)"

lemma accepted_Ok [simp]: "accepted (Ok a)"
  by (simp add: accepted_def)

lemma rejected_invalid [simp]: "rejected (Err (coordinatedInvalid msg))"
  by (simp add: rejected_def coordinatedInvalid_def)

lemma rejected_not_Ok: "rejected r \<Longrightarrow> r \<noteq> Ok a"
  by (auto simp: rejected_def)

text \<open>Decisions: every request is either accepted or rejected, never a crash or another error.\<close>

definition decided :: "'a result \<Rightarrow> bool" where
  "decided r \<longleftrightarrow> accepted r \<or> rejected r"

lemma decided_simps [simp]: "decided (Ok a)" "decided (Err (coordinatedInvalid msg))"
  by (simp_all add: decided_def)

lemma decided_bind [intro]: "decided r \<Longrightarrow> (\<And>a. r = Ok a \<Longrightarrow> decided (f a)) \<Longrightarrow> decided (res_bind r f)"
  by (cases r) (auto simp: decided_def accepted_def rejected_def)

lemma decided_coordinatedKeys [simp]: "decided (coordinatedKeys key rangeEnd)"
  by (simp add: coordinatedKeys_def)

lemma decided_rangeRequest [simp]: "decided (rangeRequest req)"
  by (auto simp: rangeRequest_def split: option.splits)

lemma decided_validateCoordinatedPut [simp]: "decided (validateCoordinatedPut req)"
  by (auto simp: validateCoordinatedPut_def split: option.splits)

lemma decided_coordinatedDelete [simp]: "decided (coordinatedDelete req)"
  by (auto simp: coordinatedDelete_def split: option.splits)

lemma decided_mutationShard: "valid_routing p \<Longrightarrow> decided (mutationShard p key rangeEnd)"
  by (erule mutationShard_cases [of p key rangeEnd]) (auto simp: decided_def accepted_def rejected_def)

lemma decided_rewriteCompares [simp]: "decided (rewriteCompares cs)"
proof (induction cs)
  case (Cons c cs)
  have "decided (rewriteCompare c)" by (auto simp: rewriteCompare_def split: option.splits)
  with Cons show ?case by (auto intro!: decided_bind)
qed simp

lemma validateCoordinatedPut_Ok:
  "validateCoordinatedPut req = Ok () \<longleftrightarrow>
     (\<exists>q. req = Some q \<and> pr_Key q \<noteq> [] \<and> (pr_IgnoreValue q \<longrightarrow> pr_Value q = []) \<and>
       (pr_IgnoreLease q \<longrightarrow> pr_Lease q = 0))"
  by (auto simp: validateCoordinatedPut_def res_bind_eq_Ok split: option.splits if_splits)

lemma decided_validateOp: "valid_routing p \<Longrightarrow> decided (validateOp p op)"
  by (auto simp: validateOp_def validateCoordinatedPut_Ok split: option.splits RequestOp.splits
      intro!: decided_bind decided_mutationShard)

lemma decided_validateOps:
  assumes "valid_routing p"
  shows "decided (validateOps p m ops)"
  using decided_validateOp [OF assms]
  by (induction ops arbitrary: m) (auto intro!: decided_bind)

lemma io_lift_rejected: "rejected r \<Longrightarrow> \<exists>msg. io_bind (io_lift r) f w = (Err (Status InvalidArgument msg), w)"
  by (auto simp: rejected_def io_err_def)

section \<open>Transactions stay within one shard\<close>

definition op_mutates :: "RequestOp option \<Rightarrow> bytes \<Rightarrow> bool" where
  "op_mutates op u =
     (case op of
        Some (RequestPut (Some q)) \<Rightarrow> u = pr_Key q
      | Some (RequestDeleteRange (Some q)) \<Rightarrow> in_range u (dr_Key q) (dr_RangeEnd q)
      | _ \<Rightarrow> False)"

lemma validateOp_Ok:
  assumes p: "valid_routing p" and ok: "validateOp p op = Ok idx" and u: "op_mutates op u"
  shows "0 \<le> idx \<and> shard p u = Ok (nat idx)"
proof (cases "\<exists>q. op = Some (RequestPut (Some q))")
  case True
  with ok u have "pr_Key q \<noteq> [] \<and> (\<exists>i. mutationShard p (pr_Key q) [] = Ok i \<and> idx = int i)"
    if "op = Some (RequestPut (Some q))" for q
    using that by (auto simp: validateOp_def res_bind_eq_Ok validateCoordinatedPut_Ok)
  with True u mutationShard_exact [OF p] show ?thesis by (force simp: op_mutates_def)
next
  case False
  with u obtain q where q: "op = Some (RequestDeleteRange (Some q))" "in_range u (dr_Key q) (dr_RangeEnd q)"
    by (auto simp: op_mutates_def split: option.splits RequestOp.splits)
  with ok obtain i where i: "mutationShard p (dr_Key q) (dr_RangeEnd q) = Ok i" "idx = int i"
    by (auto simp: validateOp_def res_bind_eq_Ok)
  then have "dr_Key q \<noteq> []" by (auto simp: mutationShard_def coordinatedKeys_empty)
  with mutationShard_exact [OF p this] q i show ?thesis by auto
qed

lemma validateOps_Ok:
  assumes p: "valid_routing p" and "validateOps p m ops = Ok m'"
  shows "(0 \<le> m \<longrightarrow> m' = m) \<and>
    (\<forall>op \<in> set ops. \<forall>u. op_mutates op u \<longrightarrow> 0 \<le> m' \<and> shard p u = Ok (nat m'))"
  using assms(2)
proof (induction ops arbitrary: m)
  case (Cons op ops)
  then obtain idx where idx: "validateOp p op = Ok idx" by (auto simp: res_bind_eq_Ok)
  show ?case
  proof (cases "0 \<le> idx")
    case True
    with Cons.prems idx have m: "0 \<le> m \<longrightarrow> m = idx" and "validateOps p idx ops = Ok m'"
      by (auto split: if_splits)
    with Cons.IH [OF this(2)] True validateOp_Ok [OF p idx] show ?thesis by auto
  next
    case False
    with Cons.prems idx have "validateOps p m ops = Ok m'" by simp
    with Cons.IH [OF this] False validateOp_Ok [OF p idx] show ?thesis by auto
  qed
qed simp

text \<open>What the validation phase of a transaction accepts.\<close>

definition txn_valid :: "('conn, 'c, 'm, 'w) CoordinatedProxy \<Rightarrow> TxnRequest \<Rightarrow> bool" where
  "txn_valid p q \<longleftrightarrow>
     accepted (rewriteCompares (txn_Compare q)) \<and>
     accepted (res_bind (validateOps p (-1) (txn_Success q)) (\<lambda>m. validateOps p m (txn_Failure q)))"

lemma txn_valid_one_shard:
  assumes p: "valid_routing p" and "txn_valid p q"
  shows "\<exists>i. \<forall>op \<in> set (txn_Success q) \<union> set (txn_Failure q). \<forall>u. op_mutates op u \<longrightarrow> shard p u = Ok i"
proof -
  from assms(2) obtain m m' where
    m: "validateOps p (-1) (txn_Success q) = Ok m" "validateOps p m (txn_Failure q) = Ok m'"
    by (auto simp: txn_valid_def accepted_def res_bind_eq_Ok)
  from validateOps_Ok [OF p m(1)] validateOps_Ok [OF p m(2)]
  have "shard p u = Ok (nat m')"
    if "op \<in> set (txn_Success q) \<union> set (txn_Failure q)" "op_mutates op u" for op u
    using that by auto
  then show ?thesis by blast
qed

lemma Txn_invalid_rejected:
  assumes "valid_routing p" and "\<not> txn_valid p q"
  shows "\<exists>msg. CoordinatedProxy_Txn g rand_read p ctx (Some q) w = (Err (Status InvalidArgument msg), w)"
proof (cases "accepted (rewriteCompares (txn_Compare q))")
  case False
  then have "rejected (rewriteCompares (txn_Compare q))"
    using decided_rewriteCompares by (auto simp: decided_def)
  then show ?thesis by (simp add: CoordinatedProxy_Txn_def io_lift_rejected)
next
  case True
  then obtain cs where cs: "rewriteCompares (txn_Compare q) = Ok cs" by (auto simp: accepted_def)
  show ?thesis
  proof (cases "validateOps p (-1) (txn_Success q)")
    case (Ok m)
    with assms(2) True have "\<not> accepted (validateOps p m (txn_Failure q))" by (simp add: txn_valid_def)
    then have "rejected (validateOps p m (txn_Failure q))"
      using decided_validateOps [OF assms(1)] by (auto simp: decided_def)
    with cs Ok show ?thesis by (simp add: CoordinatedProxy_Txn_def io_lift_rejected)
  qed (use decided_validateOps [OF assms(1), of "-1" "txn_Success q"] cs in
      \<open>auto simp: CoordinatedProxy_Txn_def decided_def accepted_def rejected_def io_err_def\<close>)
qed

section \<open>Decoding fails closed\<close>

text \<open>
  What a successful decoding amounts to: the key lost its prefix, the revisions and the lease are
  those of the coordinator, and the value is the one blob the reference names.
\<close>

definition decoded :: "bool \<Rightarrow> KeyValue \<Rightarrow> KeyValue \<Rightarrow> bool" where
  "decoded keysOnly kv kv' \<longleftrightarrow>
     kv_Key kv = CoordinatedMetadataPrefix @ kv_Key kv' \<and>
     kv_CreateRevision kv' = kv_CreateRevision kv \<and> kv_ModRevision kv' = kv_ModRevision kv \<and>
     kv_Version kv' = kv_Version kv \<and> kv_Lease kv' = kv_Lease kv \<and>
     (keysOnly \<longrightarrow> kv_Value kv' = kv_Value kv)"

definition blob_read ::
  "('c, 'm, 'w) Grpc \<Rightarrow> ('conn, 'c, 'm, 'w) CoordinatedProxy \<Rightarrow> 'c \<Rightarrow> bytes \<Rightarrow> 'w \<Rightarrow> bytes \<Rightarrow> 'w \<Rightarrow> bool"
where
  "blob_read g p ctx refval w val w' \<longleftrightarrow>
     (\<exists>ref r b. valid_ref (length (cp_clients p)) refval = Some ref \<and>
       rpc_call (KV_Range (cp_clients p ! nat (ref_Shard ref))) (backendContext g ctx)
         (get_request (ref_Key ref)) w = (Ok r, w') \<and>
       rs_Kvs r = [b] \<and> val = kv_Value b)"

lemma decode_kv_Ok:
  assumes "decode_kv g p ctx keysOnly kv w = (Ok kv', w')"
  shows "decoded keysOnly kv kv' \<and>
    (if keysOnly then w' = w else blob_read g p ctx (kv_Value kv) w (kv_Value kv') w')"
proof -
  from assms have pre: "prefix CoordinatedMetadataPrefix (kv_Key kv)"
    by (auto simp: decode_kv_def split: if_splits)
  then obtain u where u: "kv_Key kv = CoordinatedMetadataPrefix @ u" by (auto simp: prefix_def)
  show ?thesis
  proof (cases keysOnly)
    case True
    with assms u show ?thesis by (auto simp: decode_kv_def decoded_def Let_def)
  next
    case False
    with assms u obtain ref r where
      ref: "valid_ref (length (cp_clients p)) (kv_Value kv) = Some ref"
      and r: "rpc_call (KV_Range (cp_clients p ! nat (ref_Shard ref))) (backendContext g ctx)
        (get_request (ref_Key ref)) w = (Ok r, w')" "length (rs_Kvs r) = 1"
      and kv': "kv' = kv\<lparr>kv_Key := u, kv_Value := kv_Value (rs_Kvs r ! 0)\<rparr>"
      by (auto simp: decode_kv_def Let_def io_bind_Ok_iff split: if_splits option.splits)
    from r(2) obtain b where "rs_Kvs r = [b]" by (auto simp: length_Suc_conv)
    with ref r kv' u False show ?thesis by (auto simp: decoded_def blob_read_def)
  qed
qed

text \<open>The only errors decoding adds are \<open>DataLoss\<close>; the others are those of the shard.\<close>

lemma decode_kv_Err:
  assumes "decode_kv g p ctx keysOnly kv w = (Err e, w')"
  shows "(\<exists>msg. e = Status DataLoss msg) \<or>
    (\<exists>i < length (cp_clients p). \<exists>k w0.
       rpc_call (KV_Range (cp_clients p ! i)) (backendContext g ctx) (get_request k) w0 = (Err e, w'))"
proof (cases "\<exists>msg. e = Status DataLoss msg")
  case False
  with assms obtain ref where
    ref: "valid_ref (length (cp_clients p)) (kv_Value kv) = Some ref"
    and "rpc_call (KV_Range (cp_clients p ! nat (ref_Shard ref))) (backendContext g ctx)
        (get_request (ref_Key ref)) w = (Err e, w')"
    by (auto simp: decode_kv_def Let_def io_bind_def split: if_splits option.splits prod.splits result.splits)
  moreover from ref have "nat (ref_Shard ref) < length (cp_clients p)"
    by (auto simp: valid_ref_def split: option.splits if_splits)
  ultimately show ?thesis by blast
qed simp

lemma decode_kvs_Ok:
  assumes "io_map (decode_kv g p ctx keysOnly) kvs w = (Ok kvs', w')"
  shows "list_all2 (decoded keysOnly) kvs kvs'"
  using assms by (rule io_map_Ok_pointwise) (simp add: decode_kv_Ok)

lemma Range_Ok:
  assumes "CoordinatedProxy_Range g p ctx req w = (Ok out, w')"
  obtains q k e raw w1 where
    "req = Some q" "rr_SortTarget q \<noteq> RangeRequest_VALUE" "coordinatedKeys (rr_Key q) (rr_RangeEnd q) = Ok (k, e)"
    "forwardUnary g ctx (q\<lparr>rr_Key := k, rr_RangeEnd := e\<rparr>) (KV_Range (bp_kv (cp_backend p))) w = (Ok raw, w1)"
    "io_map (decode_kv g p ctx (rr_KeysOnly q)) (rs_Kvs raw) w1 = (Ok (rs_Kvs out), w')"
    "out = raw\<lparr>rs_Kvs := rs_Kvs out\<rparr>"
proof -
  from assms obtain r where r: "rangeRequest req = Ok r" by (auto simp: CoordinatedProxy_Range_def io_bind_Ok_iff)
  then obtain q k e where q: "req = Some q" "rr_SortTarget q \<noteq> RangeRequest_VALUE"
    "coordinatedKeys (rr_Key q) (rr_RangeEnd q) = Ok (k, e)" "r = q\<lparr>rr_Key := k, rr_RangeEnd := e\<rparr>"
    by (auto simp: rangeRequest_def res_bind_eq_Ok simp del: coordinatedKeys_Ok split: option.splits if_splits)
  with assms r that show thesis
    by (auto simp: CoordinatedProxy_Range_def io_bind_Ok_iff simp del: coordinatedKeys_Ok)
qed

section \<open>Staging a value\<close>

lemma stagePut_cases:
  assumes p: "valid_routing p" and key: "pr_Key q \<noteq> []" and i: "shard p (pr_Key q) = Ok i"
  shows "stagePut g rand_read p ctx q =
    (if pr_IgnoreValue q then io_return (q\<lparr>pr_Key := CoordinatedMetadataPrefix @ pr_Key q\<rparr>)
     else io_bind (rand_read 32) (\<lambda>token.
       io_bind (rpc_call (KV_Put (cp_clients p ! i)) (backendContext g ctx)
           (put_request (CoordinatedBlobPrefix @ hex_encode token) (pr_Value q))) (\<lambda>_.
         io_return (q\<lparr>pr_Key := CoordinatedMetadataPrefix @ pr_Key q,
           pr_Value := Marshal_ref \<lparr>ref_Shard = int i, ref_Key = CoordinatedBlobPrefix @ hex_encode token\<rparr>\<rparr>))))"
proof -
  have "coordinatedKeys (pr_Key q) [] = Ok (CoordinatedMetadataPrefix @ pr_Key q, [])" using key by simp
  moreover have "index (cp_clients p) (int i) = Ok (cp_clients p ! i)"
    using i p shard_Ok_iff [OF p] by (intro index_nth) (simp add: valid_routing_def)
  ultimately show ?thesis using i by (simp add: stagePut_def Let_def del: coordinatedKeys_Ok)
qed

lemma blob_prefix_plain: "json_plain CoordinatedBlobPrefix"
  by (simp add: json_plain_def CoordinatedBlobPrefix_def json_safe_def QUOTE_def BSLASH_def)

text \<open>The reference a staged write publishes is one that decoding accepts, and names the staged blob.\<close>

lemma valid_ref_Marshal:
  assumes "i < n" and "int n < 2 ^ 63"
  shows "valid_ref n (Marshal_ref \<lparr>ref_Shard = int i, ref_Key = CoordinatedBlobPrefix @ hex_encode token\<rparr>) =
    Some \<lparr>ref_Shard = int i, ref_Key = CoordinatedBlobPrefix @ hex_encode token\<rparr>"
proof -
  have "json_plain (CoordinatedBlobPrefix @ hex_encode token)"
    using blob_prefix_plain hex_encode_plain [of token] by (simp add: json_plain_def)
  moreover have "is_int64 (int i)" using assms by (simp add: is_int64_def)
  ultimately show ?thesis
    using assms(1) by (simp add: valid_ref_def Unmarshal_Marshal_ref)
qed

lemma Put_eq:
  assumes "validateCoordinatedPut (Some q) = Ok ()"
  shows "CoordinatedProxy_Put g rand_read p ctx (Some q) =
    io_bind (stagePut g rand_read p ctx q) (\<lambda>r.
      io_bind (forwardUnary g ctx r (KV_Put (bp_kv (cp_backend p)))) (\<lambda>out.
        io_bind (decodeKV g p ctx (ps_PrevKv out) False) (\<lambda>prev. io_return (out\<lparr>ps_PrevKv := prev\<rparr>))))"
  using assms by (simp add: CoordinatedProxy_Put_def)

lemma DeleteRange_eq:
  assumes "mutationShard p (dr_Key q) (dr_RangeEnd q) = Ok i"
    and "coordinatedKeys (dr_Key q) (dr_RangeEnd q) = Ok (k, e)"
  shows "CoordinatedProxy_DeleteRange g p ctx (Some q) =
    io_bind (forwardUnary g ctx (q\<lparr>dr_Key := k, dr_RangeEnd := e\<rparr>) (KV_DeleteRange (bp_kv (cp_backend p))))
      (\<lambda>out. io_bind (io_map (decode_kv g p ctx False) (ds_PrevKvs out)) (\<lambda>prevs.
        io_return (out\<lparr>ds_PrevKvs := prevs\<rparr>)))"
  using assms by (simp add: CoordinatedProxy_DeleteRange_def coordinatedDelete_def del: coordinatedKeys_Ok)

section \<open>Lease keys\<close>

lemma strip_keys_Ok_iff:
  "strip_keys ks = Ok us \<longleftrightarrow> ks = map ((@) CoordinatedMetadataPrefix) us"
proof (induction ks arbitrary: us)
  case (Cons k ks)
  show ?case
  proof (cases us)
    case Nil
    then show ?thesis by (simp add: res_bind_eq_Ok)
  next
    case u: (Cons u us')
    have "k = CoordinatedMetadataPrefix @ u \<longleftrightarrow>
        prefix CoordinatedMetadataPrefix k \<and> drop (length CoordinatedMetadataPrefix) k = u"
      by (auto simp: prefix_def)
    with u Cons.IH [of us'] show ?thesis by (auto simp: res_bind_eq_Ok)
  qed
qed auto

lemma strip_keys_Err: "strip_keys ks = Err e \<Longrightarrow> e = Status DataLoss ''unexpected lease key''"
  by (induction ks) (auto simp: res_bind_def split: if_splits result.splits)

lemma strip_keys_no_panic: "strip_keys ks \<noteq> Panic s"
  by (induction ks) (auto simp: res_bind_def split: result.splits)

end
