(* ===== verification/Coordinated_Refinement.thy ===== *)
theory Coordinated_Refinement
  imports Coordinated_Proxy
begin

text \<open>
  The coordinated proxy refines one key-value map. \<open>meta\<close> and \<open>blobs\<close> are views of the world: the
  current keys of the coordinator, and those of every data shard. The abstraction \<open>abs_of\<close> maps a
  user key to the blob its reference names.

  What etcd and \<open>crypto/rand\<close> promise is stated as laws (\<open>shard_laws\<close>, \<open>coordinator_laws\<close>,
  \<open>rand_laws\<close>): a call that succeeds has the documented effect, a call that fails has it or none, and
  a random token is not one that names a blob already. Under them every handler, whatever it
  returns, keeps all references resolvable and changes the map at most by the effect of its request
  (\<open>Put_outcome\<close>, \<open>DeleteRange_outcome\<close>, \<open>Txn_outcome\<close>), reads return that map (\<open>Range_answers\<close>), and
  a read fails only when a cluster does (\<open>Range_accepted\<close>). The locale \<open>simulation\<close> lifts the
  handlers to histories of requests.
\<close>

section \<open>Effects of requests on a map\<close>

type_synonym store = "bytes \<Rightarrow> bytes option"

definition put_effect :: "PutRequest \<Rightarrow> store \<Rightarrow> store" where
  "put_effect q m = (if pr_IgnoreValue q then m else m(pr_Key q \<mapsto> pr_Value q))"

definition delete_effect :: "DeleteRangeRequest \<Rightarrow> store \<Rightarrow> store" where
  "delete_effect q m = (\<lambda>k. if in_range k (dr_Key q) (dr_RangeEnd q) then None else m k)"

definition op_effect :: "RequestOp option \<Rightarrow> store \<Rightarrow> store" where
  "op_effect op m =
     (case op of
        Some (RequestPut (Some q)) \<Rightarrow> put_effect q m
      | Some (RequestDeleteRange (Some q)) \<Rightarrow> delete_effect q m
      | _ \<Rightarrow> m)"

definition ops_effect :: "RequestOp option list \<Rightarrow> store \<Rightarrow> store" where
  "ops_effect ops = fold op_effect ops"

text \<open>What an answer to a range request says about a map.\<close>

definition range_answer :: "RangeRequest \<Rightarrow> store \<Rightarrow> KeyValue list \<Rightarrow> bool" where
  "range_answer q m kvs \<longleftrightarrow>
     distinct (map kv_Key kvs) \<and>
     (\<forall>kv \<in> set kvs. in_range (kv_Key kv) (rr_Key q) (rr_RangeEnd q) \<and>
        (\<exists>v. m (kv_Key kv) = Some v \<and> kv_Value kv = (if rr_KeysOnly q then [] else v))) \<and>
     (rr_Limit q = 0 \<and> \<not> rr_CountOnly q \<and> rr_rest q = [] \<longrightarrow>
        (\<forall>k. in_range k (rr_Key q) (rr_RangeEnd q) \<and> m k \<noteq> None \<longrightarrow> k \<in> kv_Key ` set kvs))"

section \<open>Laws of the clusters and of the random source\<close>

definition kv_pairs :: "KeyValue list \<Rightarrow> (bytes \<times> bytes) list" where
  "kv_pairs kvs = map (\<lambda>kv. (kv_Key kv, kv_Value kv)) kvs"

text \<open>A data shard: a put stores the value, or fails and may have stored it; a get reads.\<close>

definition shard_laws ::
  "('conn, 'c, 'm, 'w) CoordinatedProxy \<Rightarrow> ('w \<Rightarrow> store) \<Rightarrow> ('w \<Rightarrow> nat \<Rightarrow> store) \<Rightarrow> bool"
where
  "shard_laws p meta blobs \<longleftrightarrow>
     (\<forall>i ctx k v w r h t w'. i < length (cp_clients p) \<longrightarrow>
        KV_Put (cp_clients p ! i) ctx (put_request k v) w = ((r, h, t), w') \<longrightarrow>
        meta w' = meta w \<and>
        (blobs w' = (blobs w)(i := (blobs w i)(k \<mapsto> v)) \<or> blobs w' = blobs w \<and> \<not> accepted r)) \<and>
     (\<forall>i ctx k w r h t w'. i < length (cp_clients p) \<longrightarrow>
        KV_Range (cp_clients p ! i) ctx (get_request k) w = ((r, h, t), w') \<longrightarrow>
        meta w' = meta w \<and> blobs w' = blobs w \<and>
        (\<forall>out. r = Ok out \<longrightarrow>
           kv_pairs (rs_Kvs out) = (case blobs w i k of None \<Rightarrow> [] | Some v \<Rightarrow> [(k, v)])))"

definition flat_op :: "RequestOp option \<Rightarrow> bool" where
  "flat_op op \<longleftrightarrow>
     (case op of Some (RequestRange _) \<Rightarrow> True | Some (RequestPut _) \<Rightarrow> True
      | Some (RequestDeleteRange _) \<Rightarrow> True | _ \<Rightarrow> False)"

text \<open>
  A read that etcd answers from the current state: it names no old revision and is not serializable (a
  serializable read may be stale).
\<close>

definition linearizable :: "RangeRequest \<Rightarrow> bool" where
  "linearizable q \<longleftrightarrow> rr_Revision q = 0 \<and> \<not> rr_Serializable q"

lemma linearizable_simps [simp]:
  "linearizable (get_request k)" "linearizable (q\<lparr>rr_Key := k, rr_RangeEnd := e\<rparr>) \<longleftrightarrow> linearizable q"
  by (simp_all add: linearizable_def get_request_def)

text \<open>
  The coordinator: every call is atomic, a failed mutation happened entirely or not at all, a linearizable
  read answers for the current keys.
\<close>

definition coordinator_laws ::
  "('c, 'm, 'w) KVClient \<Rightarrow> ('w \<Rightarrow> store) \<Rightarrow> ('w \<Rightarrow> nat \<Rightarrow> store) \<Rightarrow> bool"
where
  "coordinator_laws c meta blobs \<longleftrightarrow>
     (\<forall>ctx q w r h t w'. KV_Put c ctx q w = ((r, h, t), w') \<longrightarrow>
        blobs w' = blobs w \<and>
        (meta w' = put_effect q (meta w) \<or> meta w' = meta w \<and> \<not> accepted r)) \<and>
     (\<forall>ctx q w r h t w'. KV_Range c ctx q w = ((r, h, t), w') \<longrightarrow>
        meta w' = meta w \<and> blobs w' = blobs w \<and>
        (\<forall>out. r = Ok out \<longrightarrow> linearizable q \<longrightarrow> range_answer q (meta w) (rs_Kvs out))) \<and>
     (\<forall>ctx q w r h t w'. KV_DeleteRange c ctx q w = ((r, h, t), w') \<longrightarrow>
        blobs w' = blobs w \<and>
        (meta w' = delete_effect q (meta w) \<or> meta w' = meta w \<and> \<not> accepted r)) \<and>
     (\<forall>ctx q w r h t w'. KV_Txn c ctx q w = ((r, h, t), w') \<longrightarrow>
        list_all flat_op (txn_Success q) \<longrightarrow> list_all flat_op (txn_Failure q) \<longrightarrow>
        blobs w' = blobs w \<and>
        (case r of
           Ok out \<Rightarrow>
             meta w' = ops_effect (if txr_Succeeded out then txn_Success q else txn_Failure q) (meta w)
         | _ \<Rightarrow> meta w' \<in> {meta w, ops_effect (txn_Success q) (meta w), ops_effect (txn_Failure q) (meta w)}))"

definition rand_laws :: "(nat \<Rightarrow> ('w, bytes) io) \<Rightarrow> ('w \<Rightarrow> store) \<Rightarrow> ('w \<Rightarrow> nat \<Rightarrow> store) \<Rightarrow> bool" where
  "rand_laws rand_read meta blobs \<longleftrightarrow>
     (\<forall>n w r w'. rand_read n w = (r, w') \<longrightarrow>
        meta w' = meta w \<and> blobs w' = blobs w \<and>
        (\<forall>token i. r = Ok token \<longrightarrow> blobs w i (CoordinatedBlobPrefix @ hex_encode token) = None))"

record ('conn, 'c, 'm, 'w) deployment =
  dp_grpc :: "('c, 'm, 'w) Grpc"
  dp_rand :: "nat \<Rightarrow> ('w, bytes) io"
  dp_proxy :: "('conn, 'c, 'm, 'w) CoordinatedProxy"
  dp_meta :: "'w \<Rightarrow> store"
  dp_blobs :: "'w \<Rightarrow> nat \<Rightarrow> store"

definition environment :: "('conn, 'c, 'm, 'w) deployment \<Rightarrow> bool" where
  "environment d \<longleftrightarrow>
     valid_routing (dp_proxy d) \<and> int (length (cp_clients (dp_proxy d))) < 2 ^ 63 \<and>
     transport_laws (dp_grpc d) (\<lambda>w. (dp_meta d w, dp_blobs d w)) \<and>
     shard_laws (dp_proxy d) (dp_meta d) (dp_blobs d) \<and>
     coordinator_laws (bp_kv (cp_backend (dp_proxy d))) (dp_meta d) (dp_blobs d) \<and>
     rand_laws (dp_rand d) (dp_meta d) (dp_blobs d)"

section \<open>The abstraction\<close>

text \<open>The value a reference stands for, and the user's map, with \<open>n\<close> shards.\<close>

definition blob_of :: "nat \<Rightarrow> (nat \<Rightarrow> store) \<Rightarrow> bytes \<Rightarrow> bytes option" where
  "blob_of n B val =
     (case valid_ref n val of None \<Rightarrow> None | Some ref \<Rightarrow> B (nat (ref_Shard ref)) (ref_Key ref))"

definition abs_of :: "nat \<Rightarrow> (nat \<Rightarrow> store) \<Rightarrow> store \<Rightarrow> store" where
  "abs_of n B M u = Option.bind (M (CoordinatedMetadataPrefix @ u)) (blob_of n B)"

definition resolves :: "nat \<Rightarrow> (nat \<Rightarrow> store) \<Rightarrow> store \<Rightarrow> bool" where
  "resolves n B M \<longleftrightarrow>
     (\<forall>u val. M (CoordinatedMetadataPrefix @ u) = Some val \<longrightarrow> val \<noteq> [] \<and> blob_of n B val \<noteq> None)"

definition abs_view :: "('conn, 'c, 'm, 'w) deployment \<Rightarrow> 'w \<Rightarrow> store" where
  "abs_view d w = abs_of (length (cp_clients (dp_proxy d))) (dp_blobs d w) (dp_meta d w)"

definition refs_resolve :: "('conn, 'c, 'm, 'w) deployment \<Rightarrow> 'w \<Rightarrow> bool" where
  "refs_resolve d w \<longleftrightarrow> resolves (length (cp_clients (dp_proxy d))) (dp_blobs d w) (dp_meta d w)"

text \<open>Blobs are immutable: stores only grow.\<close>

definition grows :: "(nat \<Rightarrow> store) \<Rightarrow> (nat \<Rightarrow> store) \<Rightarrow> bool" where
  "grows B B' \<longleftrightarrow> (\<forall>i. B i \<subseteq>\<^sub>m B' i)"

lemma grows_refl [simp]: "grows B B"
  by (simp add: grows_def)

lemma grows_trans: "grows A B \<Longrightarrow> grows B C \<Longrightarrow> grows A C"
  by (auto simp: grows_def intro: map_le_trans)

lemma grows_update: "B i k = None \<Longrightarrow> grows B (B(i := (B i)(k \<mapsto> v)))"
  by (auto simp: grows_def map_le_def)

lemma blob_of_grows: "grows B B' \<Longrightarrow> blob_of n B val = Some x \<Longrightarrow> blob_of n B' val = Some x"
  by (auto simp: blob_of_def grows_def map_le_def dom_def split: option.splits)

lemma resolves_grows: "grows B B' \<Longrightarrow> resolves n B M \<Longrightarrow> resolves n B' M"
  unfolding resolves_def using blob_of_grows by (metis not_None_eq)

lemma abs_of_grows: "grows B B' \<Longrightarrow> resolves n B M \<Longrightarrow> abs_of n B' M = abs_of n B M"
  by (rule ext) (use blob_of_grows [of B B' n] in \<open>force simp: abs_of_def resolves_def bind_eq_Some_conv
    split: bind_splits\<close>)

section \<open>Rewritten requests have the same effect\<close>

text \<open>
  What the coordinator is asked in place of the user's request: the range of the metadata keys of the user's range,
  and a reference in place of a value; every other field is the user's.
\<close>

definition prefixed_range :: "bytes \<Rightarrow> bytes \<Rightarrow> bytes \<Rightarrow> bytes \<Rightarrow> bool" where
  "prefixed_range k e k' e' \<longleftrightarrow>
     (\<forall>x. in_range x k' e' \<longleftrightarrow> (\<exists>u. x = CoordinatedMetadataPrefix @ u \<and> in_range u k e))"

lemma coordinatedKeys_prefixed: "coordinatedKeys key rangeEnd = Ok (k, e) \<Longrightarrow> prefixed_range key rangeEnd k e"
  by (simp add: prefixed_range_def coordinatedKeys_in_range del: coordinatedKeys_Ok)

definition staged_range :: "RangeRequest \<Rightarrow> RangeRequest \<Rightarrow> bool" where
  "staged_range q q' \<longleftrightarrow>
     q' = q\<lparr>rr_Key := rr_Key q', rr_RangeEnd := rr_RangeEnd q'\<rparr> \<and>
     prefixed_range (rr_Key q) (rr_RangeEnd q) (rr_Key q') (rr_RangeEnd q')"

definition staged_put :: "nat \<Rightarrow> (nat \<Rightarrow> store) \<Rightarrow> PutRequest \<Rightarrow> PutRequest \<Rightarrow> bool" where
  "staged_put n B q q' \<longleftrightarrow>
     q' = q\<lparr>pr_Key := CoordinatedMetadataPrefix @ pr_Key q, pr_Value := pr_Value q'\<rparr> \<and>
     (if pr_IgnoreValue q then pr_Value q' = pr_Value q
      else pr_Value q' \<noteq> [] \<and> blob_of n B (pr_Value q') = Some (pr_Value q))"

definition staged_delete :: "DeleteRangeRequest \<Rightarrow> DeleteRangeRequest \<Rightarrow> bool" where
  "staged_delete q q' \<longleftrightarrow>
     dr_PrevKv q' = dr_PrevKv q \<and> prefixed_range (dr_Key q) (dr_RangeEnd q) (dr_Key q') (dr_RangeEnd q')"

definition staged_compare :: "Compare option \<Rightarrow> Compare option \<Rightarrow> bool" where
  "staged_compare c c' \<longleftrightarrow>
     (\<exists>x k e. c = Some x \<and> c' = Some (x\<lparr>cmp_Key := k, cmp_RangeEnd := e\<rparr>) \<and> cmp_Target x \<noteq> Compare_VALUE \<and>
        prefixed_range (cmp_Key x) (cmp_RangeEnd x) k e)"

definition staged_op :: "nat \<Rightarrow> (nat \<Rightarrow> store) \<Rightarrow> RequestOp option \<Rightarrow> RequestOp option \<Rightarrow> bool" where
  "staged_op n B op op' \<longleftrightarrow>
     (\<exists>q q'. op = Some (RequestPut (Some q)) \<and> op' = Some (RequestPut (Some q')) \<and> staged_put n B q q') \<or>
     (\<exists>q q'. op = Some (RequestDeleteRange (Some q)) \<and> op' = Some (RequestDeleteRange (Some q')) \<and>
        staged_delete q q') \<or>
     (\<exists>q q'. op = Some (RequestRange (Some q)) \<and> op' = Some (RequestRange (Some q')) \<and> staged_range q q')"

lemma staged_putD:
  assumes "staged_put n B q q'"
  shows "pr_Key q' = CoordinatedMetadataPrefix @ pr_Key q" "pr_IgnoreValue q' = pr_IgnoreValue q"
    "\<not> pr_IgnoreValue q \<Longrightarrow> pr_Value q' \<noteq> [] \<and> blob_of n B (pr_Value q') = Some (pr_Value q)"
proof -
  from assms have q': "q' = q\<lparr>pr_Key := CoordinatedMetadataPrefix @ pr_Key q, pr_Value := pr_Value q'\<rparr>"
    by (simp add: staged_put_def)
  show "pr_Key q' = CoordinatedMetadataPrefix @ pr_Key q" by (subst q') simp
  show "pr_IgnoreValue q' = pr_IgnoreValue q" by (subst q') simp
qed (use assms in \<open>simp add: staged_put_def\<close>)

lemma rangeRequest_staged: "rangeRequest v = Ok q' \<Longrightarrow> \<exists>q. v = Some q \<and> staged_range q q'"
  by (auto simp: rangeRequest_def res_bind_eq_Ok staged_range_def coordinatedKeys_prefixed simp del: coordinatedKeys_Ok
      split: if_splits option.splits)

lemma coordinatedDelete_staged: "coordinatedDelete v = Ok q' \<Longrightarrow> \<exists>q. v = Some q \<and> staged_delete q q'"
  by (auto simp: coordinatedDelete_def res_bind_eq_Ok staged_delete_def coordinatedKeys_prefixed simp del: coordinatedKeys_Ok
      split: option.splits)

lemma rewriteCompares_staged: "rewriteCompares cs = Ok cs' \<Longrightarrow> list_all2 staged_compare cs cs'"
proof (induction cs arbitrary: cs')
  case (Cons c cs)
  then obtain c' cs'' where "rewriteCompare c = Ok c'" "rewriteCompares cs = Ok cs''" "cs' = c' # cs''"
    by (auto simp: res_bind_eq_Ok)
  moreover from this(1) have "staged_compare c c'"
    unfolding staged_compare_def
    by (fastforce simp: rewriteCompare_def res_bind_eq_Ok simp del: coordinatedKeys_Ok intro: coordinatedKeys_prefixed
        split: option.splits if_splits)
  ultimately show ?case using Cons.IH by simp
qed simp

lemma put_effect_abs:
  assumes "staged_put n B q q'"
  shows "abs_of n B (put_effect q' M) = put_effect q (abs_of n B M)"
  using staged_putD [OF assms] by (auto simp: abs_of_def put_effect_def fun_eq_iff)

lemma put_effect_resolves:
  "staged_put n B q q' \<Longrightarrow> resolves n B M \<Longrightarrow> resolves n B (put_effect q' M)"
  using staged_putD [of n B q q'] by (auto simp: resolves_def put_effect_def)

lemma delete_effect_abs:
  assumes "staged_delete q q'"
  shows "abs_of n B (delete_effect q' M) = delete_effect q (abs_of n B M)"
  using assms by (auto simp: staged_delete_def prefixed_range_def abs_of_def delete_effect_def fun_eq_iff)

lemma delete_effect_resolves: "resolves n B M \<Longrightarrow> resolves n B (delete_effect q M)"
  by (auto simp: resolves_def delete_effect_def split: if_splits)

lemma op_effect_abs:
  assumes "staged_op n B op op'" "resolves n B M"
  shows "abs_of n B (op_effect op' M) = op_effect op (abs_of n B M) \<and> resolves n B (op_effect op' M)"
  using assms
  by (auto simp: staged_op_def op_effect_def put_effect_abs put_effect_resolves delete_effect_abs
      delete_effect_resolves split: option.splits)

lemma ops_effect_abs:
  assumes "list_all2 (staged_op n B) ops ops'" "resolves n B M"
  shows "abs_of n B (ops_effect ops' M) = ops_effect ops (abs_of n B M) \<and> resolves n B (ops_effect ops' M)"
  using assms unfolding ops_effect_def
  by (induction ops ops' arbitrary: M rule: list_all2_induct) (auto simp: op_effect_abs)

lemma staged_put_grows: "grows B B' \<Longrightarrow> staged_put n B q q' \<Longrightarrow> staged_put n B' q q'"
  by (auto simp: staged_put_def dest: blob_of_grows split: if_splits)

lemma staged_op_grows: "grows B B' \<Longrightarrow> staged_op n B op op' \<Longrightarrow> staged_op n B' op op'"
  by (auto simp: staged_op_def dest: staged_put_grows)

section \<open>Calls and views\<close>

lemma forwardUnary_cases:
  assumes "transport_laws g view" and "forwardUnary g ctx req call w = (r, w')"
  obtains h t w1 where "call (backendContext g ctx) req w = ((r, h, t), w1)" "view w' = view w1"
proof -
  obtain r0 h t w1 where c: "call (backendContext g ctx) req w = ((r0, h, t), w1)"
    by (metis prod.exhaust)
  obtain w2 where "forwardUnary g ctx req call w = (r0, w2)" "view w2 = view w1"
    by (rule forwardUnary_view [where call = call and ctx = ctx and req = req and w = w, OF assms(1) c])
  with c assms(2) that show thesis by simp
qed

lemma rpc_call_cases:
  assumes "rpc_call f ctx req w = (r, w')"
  obtains h t where "f ctx req w = ((r, h, t), w')"
  using assms by (auto simp: rpc_call_def split: prod.splits)

lemma environmentD:
  assumes "environment d"
  shows "valid_routing (dp_proxy d)" "int (length (cp_clients (dp_proxy d))) < 2 ^ 63"
    "transport_laws (dp_grpc d) (\<lambda>w. (dp_meta d w, dp_blobs d w))"
    "shard_laws (dp_proxy d) (dp_meta d) (dp_blobs d)"
    "coordinator_laws (bp_kv (cp_backend (dp_proxy d))) (dp_meta d) (dp_blobs d)"
    "rand_laws (dp_rand d) (dp_meta d) (dp_blobs d)"
  using assms by (simp_all add: environment_def)

lemma shard_get:
  assumes d: "environment d" and i: "i < length (cp_clients (dp_proxy d))"
    and call: "rpc_call (KV_Range (cp_clients (dp_proxy d) ! i)) ctx (get_request k) w = (r, w')"
  shows "dp_meta d w' = dp_meta d w" "dp_blobs d w' = dp_blobs d w"
    "r = Ok out \<Longrightarrow> kv_pairs (rs_Kvs out) = (case dp_blobs d w i k of None \<Rightarrow> [] | Some v \<Rightarrow> [(k, v)])"
proof -
  obtain h t where "KV_Range (cp_clients (dp_proxy d) ! i) ctx (get_request k) w = ((r, h, t), w')"
    by (rule rpc_call_cases [OF call])
  with environmentD(4) [OF d] i
  show "dp_meta d w' = dp_meta d w" "dp_blobs d w' = dp_blobs d w"
    "r = Ok out \<Longrightarrow> kv_pairs (rs_Kvs out) = (case dp_blobs d w i k of None \<Rightarrow> [] | Some v \<Rightarrow> [(k, v)])"
    unfolding shard_laws_def by blast+
qed

lemma valid_ref_bounds:
  "valid_ref n val = Some ref \<Longrightarrow> 0 \<le> ref_Shard ref \<and> nat (ref_Shard ref) < n"
  by (auto simp: valid_ref_def split: option.splits if_splits)

text \<open>Decoding reads, and what it reads is the blob.\<close>

definition same_views :: "('conn, 'c, 'm, 'w) deployment \<Rightarrow> 'w \<Rightarrow> 'w \<Rightarrow> bool" where
  "same_views d w w' \<longleftrightarrow> dp_meta d w' = dp_meta d w \<and> dp_blobs d w' = dp_blobs d w"

lemma decode_kv_preserves:
  assumes d: "environment d"
  shows "preserves (same_views d w0) (decode_kv (dp_grpc d) (dp_proxy d) ctx keysOnly kv)"
proof -
  have "preserves (same_views d w0) (rpc_call (KV_Range (cp_clients (dp_proxy d) ! nat (ref_Shard ref))) c (get_request k))"
    if "valid_ref (length (cp_clients (dp_proxy d))) v = Some ref" for ref c k v
    unfolding preserves_def same_views_def
    using shard_get(1,2) [OF d conjunct2 [OF valid_ref_bounds [OF that]], of c k] by (metis prod.collapse)
  then show ?thesis
    unfolding decode_kv_def Let_def
    by (auto intro!: preserves_intros split: option.splits)
qed

lemma decodeKV_preserves:
  assumes "environment d"
  shows "preserves (same_views d w0) (decodeKV (dp_grpc d) (dp_proxy d) ctx kv keysOnly)"
  using decode_kv_preserves [OF assms]
  by (auto simp: decodeKV_def intro!: preserves_intros split: option.splits)

lemma decode_kv_value:
  assumes d: "environment d"
    and ok: "decode_kv (dp_grpc d) (dp_proxy d) ctx False kv w = (Ok kv', w')"
  shows "blob_of (length (cp_clients (dp_proxy d))) (dp_blobs d w) (kv_Value kv) = Some (kv_Value kv')"
proof -
  from decode_kv_Ok [OF ok] obtain ref r b where
    ref: "valid_ref (length (cp_clients (dp_proxy d))) (kv_Value kv) = Some ref"
    and r: "rpc_call (KV_Range (cp_clients (dp_proxy d) ! nat (ref_Shard ref))) (backendContext (dp_grpc d) ctx)
         (get_request (ref_Key ref)) w = (Ok r, w')" "rs_Kvs r = [b]" "kv_Value kv' = kv_Value b"
    by (auto simp: blob_read_def)
  from shard_get(3) [OF d conjunct2 [OF valid_ref_bounds [OF ref]] r(1) refl] r(2,3) ref show ?thesis
    by (auto simp: blob_of_def kv_pairs_def split: option.splits)
qed

lemma decode_kv_succeeds:
  assumes d: "environment d"
    and key: "prefix CoordinatedMetadataPrefix (kv_Key kv)"
    and blob: "kv_Value kv \<noteq> []" "blob_of (length (cp_clients (dp_proxy d))) (dp_blobs d w) (kv_Value kv) = Some v"
    and up: "\<And>i k w. i < length (cp_clients (dp_proxy d)) \<Longrightarrow>
      accepted (fst (rpc_call (KV_Range (cp_clients (dp_proxy d) ! i)) (backendContext (dp_grpc d) ctx) (get_request k) w))"
  shows "accepted (fst (decode_kv (dp_grpc d) (dp_proxy d) ctx keysOnly kv w))"
proof (cases keysOnly)
  case False
  from blob(2) obtain ref where
    ref: "valid_ref (length (cp_clients (dp_proxy d))) (kv_Value kv) = Some ref"
      "dp_blobs d w (nat (ref_Shard ref)) (ref_Key ref) = Some v"
    by (auto simp: blob_of_def split: option.splits)
  note i = conjunct2 [OF valid_ref_bounds [OF ref(1)]]
  obtain out w' where r: "rpc_call (KV_Range (cp_clients (dp_proxy d) ! nat (ref_Shard ref)))
      (backendContext (dp_grpc d) ctx) (get_request (ref_Key ref)) w = (Ok out, w')"
    using up [OF i, of "ref_Key ref" w] by (auto simp: accepted_def) (metis prod.collapse)
  have "length (rs_Kvs out) = 1"
    using shard_get(3) [OF d i r refl] ref(2) by (auto simp: kv_pairs_def dest: arg_cong [of _ _ length])
  with key blob(1) ref(1) r False show ?thesis
    by (simp add: decode_kv_def io_bind_step io_return_def)
qed (use key in \<open>simp add: decode_kv_def io_return_def\<close>)

section \<open>Staging\<close>

lemma stagePut_effect:
  assumes d: "environment d" and key: "pr_Key q \<noteq> []"
    and st: "stagePut (dp_grpc d) (dp_rand d) (dp_proxy d) ctx q w = (r, w')"
  shows "dp_meta d w' = dp_meta d w" "grows (dp_blobs d w) (dp_blobs d w')"
    "r = Ok q' \<Longrightarrow> staged_put (length (cp_clients (dp_proxy d))) (dp_blobs d w') q q'"
proof -
  let ?p = "dp_proxy d" and ?n = "length (cp_clients (dp_proxy d))"
  note V = environmentD(1) [OF d] and R = environmentD(6) [OF d]
  obtain i where i: "shard ?p (pr_Key q) = Ok i" "i < ?n" by (rule shard_Ok [OF V, of "pr_Key q"])
  have "dp_meta d w' = dp_meta d w \<and> grows (dp_blobs d w) (dp_blobs d w') \<and>
    (\<forall>q'. r = Ok q' \<longrightarrow> staged_put ?n (dp_blobs d w') q q')"
  proof (cases "pr_IgnoreValue q")
    case True
    with st show ?thesis by (auto simp: stagePut_cases [OF V key i(1)] staged_put_def)
  next
    case False
    obtain rt w1 where rt: "dp_rand d 32 w = (rt, w1)" by fastforce
    with R have w1: "dp_meta d w1 = dp_meta d w" "dp_blobs d w1 = dp_blobs d w"
      and fresh: "\<And>token j. rt = Ok token \<Longrightarrow> dp_blobs d w j (CoordinatedBlobPrefix @ hex_encode token) = None"
      unfolding rand_laws_def by blast+
    show ?thesis
    proof (cases rt)
      case (Ok token)
      let ?blob = "CoordinatedBlobPrefix @ hex_encode token"
      obtain rp w2 where call: "rpc_call (KV_Put (cp_clients ?p ! i)) (backendContext (dp_grpc d) ctx)
          (put_request ?blob (pr_Value q)) w1 = (rp, w2)" by fastforce
      obtain h t where "KV_Put (cp_clients ?p ! i) (backendContext (dp_grpc d) ctx)
          (put_request ?blob (pr_Value q)) w1 = ((rp, h, t), w2)"
        by (rule rpc_call_cases [OF call])
      with environmentD(4) [OF d] i(2) w1 have w2: "dp_meta d w2 = dp_meta d w"
        "dp_blobs d w2 = (dp_blobs d w)(i := (dp_blobs d w i)(?blob \<mapsto> pr_Value q)) \<or>
         dp_blobs d w2 = dp_blobs d w \<and> \<not> accepted rp"
        unfolding shard_laws_def by metis+
      have "r = (case rp of Ok _ \<Rightarrow> Ok (q\<lparr>pr_Key := CoordinatedMetadataPrefix @ pr_Key q,
               pr_Value := Marshal_ref \<lparr>ref_Shard = int i, ref_Key = ?blob\<rparr>\<rparr>)
             | Err e \<Rightarrow> Err e | Panic s \<Rightarrow> Panic s)" "w' = w2"
        using st False rt Ok call
        by (auto simp: stagePut_cases [OF V key i(1)] io_bind_def io_return_def split: result.splits)
      moreover have "blob_of ?n (dp_blobs d w2) (Marshal_ref \<lparr>ref_Shard = int i, ref_Key = ?blob\<rparr>) = Some (pr_Value q)"
        if "accepted rp"
        using that w2(2) valid_ref_Marshal [OF i(2) environmentD(2) [OF d]] by (simp add: blob_of_def)
      ultimately show ?thesis
        using w2 grows_update [of "dp_blobs d w" i ?blob "pr_Value q"] fresh [OF Ok] Marshal_ref_nonempty False
        by (auto simp: staged_put_def split: result.splits)
    qed (use st False rt w1 in \<open>auto simp: stagePut_cases [OF V key i(1)] io_bind_step\<close>)
  qed
  then show "dp_meta d w' = dp_meta d w" "grows (dp_blobs d w) (dp_blobs d w')"
    "r = Ok q' \<Longrightarrow> staged_put ?n (dp_blobs d w') q q'" by blast+
qed

section \<open>Handlers\<close>

text \<open>The outcome of a mutation: its effect, or, when the call failed, possibly none.\<close>

definition outcome :: "('conn, 'c, 'm, 'w) deployment \<Rightarrow> (store \<Rightarrow> store) \<Rightarrow> 'w \<Rightarrow> 'a result \<Rightarrow> 'w \<Rightarrow> bool" where
  "outcome d eff w r w' \<longleftrightarrow>
     refs_resolve d w' \<and>
     (abs_view d w' = eff (abs_view d w) \<or> abs_view d w' = abs_view d w \<and> \<not> accepted r)"

lemma outcome_same_views:
  "outcome d eff w r w1 \<Longrightarrow> same_views d w1 w' \<Longrightarrow> (accepted r' \<Longrightarrow> accepted r) \<Longrightarrow> outcome d eff w r' w'"
  by (auto simp: outcome_def same_views_def refs_resolve_def abs_view_def)

lemma unchanged_outcome:
  "refs_resolve d w \<Longrightarrow> \<not> accepted r \<Longrightarrow> outcome d eff w r w"
  by (simp add: outcome_def)

lemma accepted_simps [simp]: "\<not> accepted (Err e)" "\<not> accepted (Panic s)"
  by (simp_all add: accepted_def)

lemma staged_outcome:
  assumes "refs_resolve d w" and "dp_meta d w' = dp_meta d w" "grows (dp_blobs d w) (dp_blobs d w')"
  shows "refs_resolve d w' \<and> abs_view d w' = abs_view d w"
  using assms by (simp add: refs_resolve_def abs_view_def resolves_grows abs_of_grows)

text \<open>A continuation that only reads keeps the outcome of the call before it.\<close>

lemma bind_outcome:
  assumes m: "m w = (r1, w1)" and out: "outcome d eff w r1 w1"
    and f: "\<And>a. preserves (same_views d w1) (f a)"
    and b: "io_bind m f w = (r, w')"
  shows "outcome d eff w r w'"
proof (cases r1)
  case (Ok a)
  then have "f a w1 = (r, w')" using m b by (simp add: io_bind_step)
  moreover have "same_views d w1 w1" by (simp add: same_views_def)
  ultimately have "same_views d w1 w'" using f preservesD by metis
  with out Ok show ?thesis by (auto intro: outcome_same_views)
qed (use m b out in \<open>auto simp: io_bind_step outcome_def\<close>)

lemma coordinator_Put:
  assumes d: "environment d" and w: "refs_resolve d w"
    and q: "staged_put (length (cp_clients (dp_proxy d))) (dp_blobs d w) q q'"
    and f: "forwardUnary (dp_grpc d) ctx q' (KV_Put (bp_kv (cp_backend (dp_proxy d)))) w = (r, w')"
  shows "outcome d (put_effect q) w r w'"
proof -
  obtain h t w1 where "KV_Put (bp_kv (cp_backend (dp_proxy d))) (backendContext (dp_grpc d) ctx) q' w = ((r, h, t), w1)"
    and v: "(dp_meta d w', dp_blobs d w') = (dp_meta d w1, dp_blobs d w1)"
    by (rule forwardUnary_cases [OF environmentD(3) [OF d] f])
  then have "dp_blobs d w1 = dp_blobs d w"
    "dp_meta d w1 = put_effect q' (dp_meta d w) \<or> dp_meta d w1 = dp_meta d w \<and> \<not> accepted r"
    using environmentD(5) [OF d] unfolding coordinator_laws_def by metis+
  with v w q show ?thesis
    by (auto simp: outcome_def refs_resolve_def abs_view_def put_effect_abs put_effect_resolves)
qed

lemma coordinator_DeleteRange:
  assumes d: "environment d" and w: "refs_resolve d w" and q: "staged_delete q q'"
    and f: "forwardUnary (dp_grpc d) ctx q' (KV_DeleteRange (bp_kv (cp_backend (dp_proxy d)))) w = (r, w')"
  shows "outcome d (delete_effect q) w r w'"
proof -
  obtain h t w1 where
    "KV_DeleteRange (bp_kv (cp_backend (dp_proxy d))) (backendContext (dp_grpc d) ctx) q' w = ((r, h, t), w1)"
    and v: "(dp_meta d w', dp_blobs d w') = (dp_meta d w1, dp_blobs d w1)"
    by (rule forwardUnary_cases [OF environmentD(3) [OF d] f])
  then have "dp_blobs d w1 = dp_blobs d w"
    "dp_meta d w1 = delete_effect q' (dp_meta d w) \<or> dp_meta d w1 = dp_meta d w \<and> \<not> accepted r"
    using environmentD(5) [OF d] unfolding coordinator_laws_def by metis+
  with v w q show ?thesis
    by (auto simp: outcome_def refs_resolve_def abs_view_def delete_effect_abs delete_effect_resolves)
qed

lemma lift_rejected_outcome:
  assumes "refs_resolve d w" and "\<not> accepted x" and "io_bind (io_lift x) f w = (r, w')"
  shows "outcome d eff w r w' \<and> w' = w \<and> \<not> accepted r"
  using assms by (cases x) (auto simp: io_bind_def io_lift_def unchanged_outcome)

lemma Put_outcome:
  assumes d: "environment d" and w: "refs_resolve d w"
    and put: "CoordinatedProxy_Put (dp_grpc d) (dp_rand d) (dp_proxy d) ctx (Some q) w = (r, w')"
  shows "outcome d (put_effect q) w r w'"
proof (cases "validateCoordinatedPut (Some q) = Ok ()")
  case False
  then have "\<not> accepted (validateCoordinatedPut (Some q))" by (auto simp: accepted_def)
  from lift_rejected_outcome [OF w this put [unfolded CoordinatedProxy_Put_def]] show ?thesis ..
next
  case True
  then have key: "pr_Key q \<noteq> []" by (auto simp: validateCoordinatedPut_Ok)
  obtain r1 w1 where st: "stagePut (dp_grpc d) (dp_rand d) (dp_proxy d) ctx q w = (r1, w1)" by fastforce
  note eff = stagePut_effect [OF d key st]
  from staged_outcome [OF w eff(1,2)] have w1: "refs_resolve d w1" "abs_view d w1 = abs_view d w" by auto
  show ?thesis
  proof (cases r1)
    case (Ok q')
    let ?call = "forwardUnary (dp_grpc d) ctx q' (KV_Put (bp_kv (cp_backend (dp_proxy d))))"
    obtain r2 w2 where c: "?call w1 = (r2, w2)" by fastforce
    from put Ok st have "io_bind ?call (\<lambda>out. io_bind (decodeKV (dp_grpc d) (dp_proxy d) ctx (ps_PrevKv out) False)
        (\<lambda>prev. io_return (out\<lparr>ps_PrevKv := prev\<rparr>))) w1 = (r, w')"
      by (simp add: Put_eq [OF True] io_bind_step)
    from bind_outcome [OF c coordinator_Put [OF d w1(1) eff(3) [OF Ok] c] _ this]
    have "outcome d (put_effect q) w1 r w'"
      by (auto intro!: preserves_intros decodeKV_preserves [OF d])
    with w1 show ?thesis by (simp add: outcome_def)
  qed (use put st w1 in \<open>auto simp: Put_eq [OF True] io_bind_step outcome_def\<close>)
qed

lemma DeleteRange_outcome:
  assumes d: "environment d" and w: "refs_resolve d w"
    and del: "CoordinatedProxy_DeleteRange (dp_grpc d) (dp_proxy d) ctx (Some q) w = (r, w')"
  shows "outcome d (delete_effect q) w r w'"
proof (rule mutationShard_cases [OF environmentD(1) [OF d], of "dr_Key q" "dr_RangeEnd q"])
  fix msg assume "mutationShard (dp_proxy d) (dr_Key q) (dr_RangeEnd q) = Err (Status InvalidArgument msg)"
  then have "\<not> accepted (mutationShard (dp_proxy d) (dr_Key q) (dr_RangeEnd q))" by simp
  from lift_rejected_outcome [OF w this del [unfolded CoordinatedProxy_DeleteRange_def, simplified]]
  show ?thesis ..
next
  fix i assume i: "mutationShard (dp_proxy d) (dr_Key q) (dr_RangeEnd q) = Ok i" "dr_Key q \<noteq> []"
  then obtain k e where ke: "coordinatedKeys (dr_Key q) (dr_RangeEnd q) = Ok (k, e)" by auto
  let ?q = "q\<lparr>dr_Key := k, dr_RangeEnd := e\<rparr>"
  let ?call = "forwardUnary (dp_grpc d) ctx ?q (KV_DeleteRange (bp_kv (cp_backend (dp_proxy d))))"
  obtain r1 w1 where c: "?call w = (r1, w1)" by fastforce
  have "staged_delete q ?q" using ke by (simp add: staged_delete_def coordinatedKeys_prefixed del: coordinatedKeys_Ok)
  from bind_outcome [OF c coordinator_DeleteRange [OF d w this c] _ del [unfolded DeleteRange_eq [OF i(1) ke]]]
  show ?thesis by (auto intro!: preserves_intros decode_kv_preserves [OF d])
qed

lemma stageOp_effect:
  assumes d: "environment d" and v: "accepted (validateOp (dp_proxy d) op)"
    and st: "stageOp (dp_grpc d) (dp_rand d) (dp_proxy d) ctx op w = (r, w')"
  shows "dp_meta d w' = dp_meta d w" "grows (dp_blobs d w) (dp_blobs d w')"
    "r = Ok op' \<Longrightarrow> staged_op (length (cp_clients (dp_proxy d))) (dp_blobs d w') op op'"
proof -
  let ?n = "length (cp_clients (dp_proxy d))"
  have "dp_meta d w' = dp_meta d w \<and> grows (dp_blobs d w) (dp_blobs d w') \<and>
      (\<forall>op'. r = Ok op' \<longrightarrow> staged_op ?n (dp_blobs d w') op op')"
  proof (cases "\<exists>q. op = Some (RequestPut (Some q))")
    case True
    then obtain q where q: "op = Some (RequestPut (Some q))" by blast
    with v have key: "pr_Key q \<noteq> []"
      by (auto simp: validateOp_def accepted_def res_bind_eq_Ok validateCoordinatedPut_Ok)
    obtain r1 w1 where p: "stagePut (dp_grpc d) (dp_rand d) (dp_proxy d) ctx q w = (r1, w1)" by fastforce
    note eff = stagePut_effect [OF d key p]
    from st q p have "w' = w1" "\<And>op'. r = Ok op' \<Longrightarrow> \<exists>q'. r1 = Ok q' \<and> op' = Some (RequestPut (Some q'))"
      by (cases r1; auto simp: stageOp_def io_bind_step)+
    with eff q show ?thesis by (auto simp: staged_op_def)
  next
    case False
    with v st have "w' = w \<and> (\<forall>op'. r = Ok op' \<longrightarrow> staged_op ?n (dp_blobs d w') op op')"
      by (auto simp: validateOp_def accepted_def res_bind_eq_Ok validateCoordinatedPut_Ok stageOp_def
          staged_op_def io_bind_def io_lift_def io_return_def dest: rangeRequest_staged coordinatedDelete_staged
          simp del: coordinatedKeys_Ok split: option.splits RequestOp.splits result.splits)
    then show ?thesis by auto
  qed
  then show "dp_meta d w' = dp_meta d w" "grows (dp_blobs d w) (dp_blobs d w')"
    "r = Ok op' \<Longrightarrow> staged_op ?n (dp_blobs d w') op op'" by blast+
qed

lemma stageOps_effect:
  assumes d: "environment d" and "\<And>op. op \<in> set ops \<Longrightarrow> accepted (validateOp (dp_proxy d) op)"
    and "io_map (stageOp (dp_grpc d) (dp_rand d) (dp_proxy d) ctx) ops w = (r, w')"
  shows "dp_meta d w' = dp_meta d w \<and> grows (dp_blobs d w) (dp_blobs d w') \<and>
    (\<forall>ops'. r = Ok ops' \<longrightarrow> list_all2 (staged_op (length (cp_clients (dp_proxy d))) (dp_blobs d w')) ops ops')"
  using assms(2,3)
proof (induction ops arbitrary: w r w')
  case (Cons op ops)
  obtain r1 w1 where st: "stageOp (dp_grpc d) (dp_rand d) (dp_proxy d) ctx op w = (r1, w1)" by fastforce
  have v: "accepted (validateOp (dp_proxy d) op)" using Cons.prems(1) by simp
  note eff = stageOp_effect [OF d v st]
  show ?case
  proof (cases r1)
    case (Ok op')
    obtain r2 w2 where rest: "io_map (stageOp (dp_grpc d) (dp_rand d) (dp_proxy d) ctx) ops w1 = (r2, w2)"
      by fastforce
    note ih = Cons.IH [OF _ rest]
    from Cons.prems(2) st Ok rest have "w' = w2"
      "\<And>ops'. r = Ok ops' \<Longrightarrow> \<exists>os. r2 = Ok os \<and> ops' = op' # os"
      by (auto simp: io_bind_def io_return_def split: result.splits)
    with ih Cons.prems(1) eff Ok show ?thesis
      by (auto intro: grows_trans staged_op_grows)
  qed (use Cons.prems(2) st eff in \<open>auto simp: io_bind_step\<close>)
qed auto

lemma validateOps_accepted:
  "validateOps p m ops = Ok m' \<Longrightarrow> op \<in> set ops \<Longrightarrow> accepted (validateOp p op)"
  by (induction ops arbitrary: m) (auto simp: res_bind_eq_Ok split: if_splits)

lemma staged_flat: "list_all2 (staged_op n B) ops ops' \<Longrightarrow> list_all flat_op ops'"
  by (induction rule: list_all2_induct) (auto simp: staged_op_def flat_op_def)

text \<open>A transaction applies one of its branches, entirely, or (when it fails) possibly nothing.\<close>

definition txn_outcome ::
  "('conn, 'c, 'm, 'w) deployment \<Rightarrow> TxnRequest \<Rightarrow> 'w \<Rightarrow> TxnResponse result \<Rightarrow> 'w \<Rightarrow> bool"
where
  "txn_outcome d q w r w' \<longleftrightarrow>
     refs_resolve d w' \<and>
     (case r of
        Ok out \<Rightarrow>
          abs_view d w' = ops_effect (if txr_Succeeded out then txn_Success q else txn_Failure q) (abs_view d w)
      | _ \<Rightarrow> abs_view d w' \<in> {abs_view d w, ops_effect (txn_Success q) (abs_view d w),
                              ops_effect (txn_Failure q) (abs_view d w)})"

lemma coordinator_Txn:
  assumes d: "environment d" and w: "refs_resolve d w"
    and s: "list_all2 (staged_op (length (cp_clients (dp_proxy d))) (dp_blobs d w)) (txn_Success q) success"
    and f: "list_all2 (staged_op (length (cp_clients (dp_proxy d))) (dp_blobs d w)) (txn_Failure q) failure"
    and c: "forwardUnary (dp_grpc d) ctx (TxnRequest compare success failure)
      (KV_Txn (bp_kv (cp_backend (dp_proxy d)))) w = (r, w')"
  shows "txn_outcome d q w r w'"
proof -
  let ?q = "TxnRequest compare success failure"
  obtain h t w1 where k: "KV_Txn (bp_kv (cp_backend (dp_proxy d))) (backendContext (dp_grpc d) ctx) ?q w = ((r, h, t), w1)"
    and v: "(dp_meta d w', dp_blobs d w') = (dp_meta d w1, dp_blobs d w1)"
    by (rule forwardUnary_cases [OF environmentD(3) [OF d] c])
  from environmentD(5) [OF d] have law:
    "KV_Txn (bp_kv (cp_backend (dp_proxy d))) (backendContext (dp_grpc d) ctx) ?q w = ((r, h, t), w1) \<longrightarrow>
     list_all flat_op (txn_Success ?q) \<longrightarrow> list_all flat_op (txn_Failure ?q) \<longrightarrow>
     dp_blobs d w1 = dp_blobs d w \<and>
     (case r of
        Ok out \<Rightarrow> dp_meta d w1 = ops_effect (if txr_Succeeded out then txn_Success ?q else txn_Failure ?q) (dp_meta d w)
      | _ \<Rightarrow> dp_meta d w1 \<in> {dp_meta d w, ops_effect (txn_Success ?q) (dp_meta d w), ops_effect (txn_Failure ?q) (dp_meta d w)})"
    unfolding coordinator_laws_def by blast
  note eff = ops_effect_abs [OF s w [unfolded refs_resolve_def]] ops_effect_abs [OF f w [unfolded refs_resolve_def]]
  show ?thesis
  proof (cases r)
    case (Ok out)
    with law k staged_flat [OF s] staged_flat [OF f] v eff show ?thesis
      by (cases "txr_Succeeded out") (auto simp: txn_outcome_def refs_resolve_def abs_view_def)
  qed (use law k staged_flat [OF s] staged_flat [OF f] v eff w in
      \<open>auto simp: txn_outcome_def refs_resolve_def abs_view_def\<close>)
qed

lemma decodeResponses_preserves:
  assumes "environment d"
  shows "preserves (same_views d w0) (decodeResponses (dp_grpc d) (dp_proxy d) ctx branch i ops)"
proof (induction ops arbitrary: i)
  case (Cons op ops)
  have "preserves (same_views d w0) (decodeResponse (dp_grpc d) (dp_proxy d) ctx branch i op)" for i
    unfolding decodeResponse_def
    by (auto split: ResponseOp.splits intro!: preserves_intros decode_kv_preserves [OF assms]
        decodeKV_preserves [OF assms])
  with Cons show ?case by (auto intro!: preserves_intros)
qed (auto intro: preserves_intros)

lemma txn_unchanged: "refs_resolve d w' \<Longrightarrow> abs_view d w' = abs_view d w \<Longrightarrow> \<not> accepted r \<Longrightarrow> txn_outcome d q w r w'"
  by (cases r) (auto simp: txn_outcome_def)

lemma Txn_outcome:
  assumes d: "environment d" and w: "refs_resolve d w"
    and txn: "CoordinatedProxy_Txn (dp_grpc d) (dp_rand d) (dp_proxy d) ctx (Some q) w = (r, w')"
  shows "txn_outcome d q w r w'"
proof (cases "txn_valid (dp_proxy d) q")
  case False
  from Txn_invalid_rejected [OF environmentD(1) [OF d] False] txn w show ?thesis
    by (metis txn_unchanged accepted_simps(1) prod.inject)
next
  case True
  then obtain cs m m' where
    v: "rewriteCompares (txn_Compare q) = Ok cs" "validateOps (dp_proxy d) (-1) (txn_Success q) = Ok m"
      "validateOps (dp_proxy d) m (txn_Failure q) = Ok m'"
    by (auto simp: txn_valid_def accepted_def res_bind_eq_Ok)
  let ?stage = "io_map (stageOp (dp_grpc d) (dp_rand d) (dp_proxy d) ctx)"
  obtain r1 w1 where s: "?stage (txn_Success q) w = (r1, w1)" by fastforce
  note es = stageOps_effect [OF d validateOps_accepted [OF v(2)] s]
  have w1: "refs_resolve d w1 \<and> abs_view d w1 = abs_view d w" using es staged_outcome [OF w] by blast
  show ?thesis
  proof (cases r1)
    case (Ok success)
    obtain r2 w2 where f: "?stage (txn_Failure q) w1 = (r2, w2)" by fastforce
    note ef = stageOps_effect [OF d validateOps_accepted [OF v(3)] f]
    have w2: "refs_resolve d w2 \<and> abs_view d w2 = abs_view d w" using ef w1 staged_outcome [of d w1 w2] by simp
    show ?thesis
    proof (cases r2)
      case ok2: (Ok failure)
      let ?call = "forwardUnary (dp_grpc d) ctx (TxnRequest cs success failure) (KV_Txn (bp_kv (cp_backend (dp_proxy d))))"
      obtain r3 w3 where c: "?call w2 = (r3, w3)" by fastforce
      have "list_all2 (staged_op (length (cp_clients (dp_proxy d))) (dp_blobs d w2)) (txn_Success q) success"
        using es ef Ok by (auto elim!: list_all2_mono intro: staged_op_grows)
      from coordinator_Txn [OF d conjunct1 [OF w2] this _ c] ef ok2 w2
      have out: "txn_outcome d q w r3 w3" by (cases r3) (simp_all add: txn_outcome_def)
      show ?thesis
      proof (cases r3)
        case ok3: (Ok out)
        let ?dec = "decodeResponses (dp_grpc d) (dp_proxy d) ctx
            (if txr_Succeeded out then txn_Success q else txn_Failure q) 0 (txr_Responses out)"
        obtain r4 w4 where dec: "?dec w3 = (r4, w4)" by fastforce
        have "same_views d w3 w4"
          using preservesD [OF decodeResponses_preserves [OF d] _ dec] by (simp add: same_views_def)
        moreover have "w' = w4 \<and> (\<not> accepted r \<or> (\<exists>os. r = Ok (TxnResponse (txr_Header out) (txr_Succeeded out) os)))"
          using txn v s Ok f ok2 c ok3 dec
          by (cases r4) (auto simp: CoordinatedProxy_Txn_def io_bind_step Let_def)
        ultimately show ?thesis using out ok3
          by (cases r) (auto simp: txn_outcome_def same_views_def refs_resolve_def abs_view_def)
      qed (use txn v s Ok f ok2 c out in \<open>auto simp: CoordinatedProxy_Txn_def io_bind_step\<close>)
    qed (use txn v s Ok f w2 in \<open>auto simp: CoordinatedProxy_Txn_def io_bind_step intro!: txn_unchanged\<close>)
  qed (use txn v s w1 in \<open>auto simp: CoordinatedProxy_Txn_def io_bind_step intro!: txn_unchanged\<close>)
qed

section \<open>Reads\<close>

lemma Range_preserves:
  assumes d: "environment d"
  shows "preserves (same_views d w0) (CoordinatedProxy_Range (dp_grpc d) (dp_proxy d) ctx req)"
proof -
  have "preserves (same_views d w0) (forwardUnary (dp_grpc d) ctx r (KV_Range (bp_kv (cp_backend (dp_proxy d)))))" for r
    unfolding preserves_def
  proof (intro allI impI)
    fix w assume w: "same_views d w0 w"
    obtain x w' where f: "forwardUnary (dp_grpc d) ctx r (KV_Range (bp_kv (cp_backend (dp_proxy d)))) w = (x, w')"
      by fastforce
    obtain h t w1 where
      "KV_Range (bp_kv (cp_backend (dp_proxy d))) (backendContext (dp_grpc d) ctx) r w = ((x, h, t), w1)"
      "(dp_meta d w', dp_blobs d w') = (dp_meta d w1, dp_blobs d w1)"
      by (rule forwardUnary_cases [OF environmentD(3) [OF d] f])
    with environmentD(5) [OF d] have "dp_meta d w' = dp_meta d w \<and> dp_blobs d w' = dp_blobs d w"
      unfolding coordinator_laws_def by (metis prod.inject)
    with f w show "same_views d w0 (snd (forwardUnary (dp_grpc d) ctx r (KV_Range (bp_kv (cp_backend (dp_proxy d)))) w))"
      by (simp add: same_views_def)
  qed
  then show ?thesis
    unfolding CoordinatedProxy_Range_def by (auto intro!: preserves_intros decode_kv_preserves [OF d])
qed

lemma coordinator_Range:
  assumes d: "environment d"
    and f: "forwardUnary (dp_grpc d) ctx q (KV_Range (bp_kv (cp_backend (dp_proxy d)))) w = (Ok out, w')"
  shows "same_views d w w'" "linearizable q \<Longrightarrow> range_answer q (dp_meta d w) (rs_Kvs out)"
proof -
  obtain h t w1 where k:
    "KV_Range (bp_kv (cp_backend (dp_proxy d))) (backendContext (dp_grpc d) ctx) q w = ((Ok out, h, t), w1)"
    "(dp_meta d w', dp_blobs d w') = (dp_meta d w1, dp_blobs d w1)"
    by (rule forwardUnary_cases [OF environmentD(3) [OF d] f])
  with environmentD(5) [OF d] show "same_views d w w'"
    unfolding coordinator_laws_def same_views_def by (metis prod.inject)
  from environmentD(5) [OF d] k(1) show "range_answer q (dp_meta d w) (rs_Kvs out)" if "linearizable q"
    using that unfolding coordinator_laws_def by metis
qed

text \<open>Every pair of the answer comes from a pair of the coordinator and the blob it refers to.\<close>

definition resolved :: "nat \<Rightarrow> (nat \<Rightarrow> store) \<Rightarrow> bool \<Rightarrow> KeyValue \<Rightarrow> KeyValue \<Rightarrow> bool" where
  "resolved n B keysOnly kv kv' \<longleftrightarrow>
     decoded keysOnly kv kv' \<and> (\<not> keysOnly \<longrightarrow> blob_of n B (kv_Value kv) = Some (kv_Value kv'))"

definition reads ::
  "('conn, 'c, 'm, 'w) deployment \<Rightarrow> 'w \<Rightarrow> bool \<Rightarrow> KeyValue \<Rightarrow> KeyValue \<Rightarrow> bool"
where
  "reads d w = resolved (length (cp_clients (dp_proxy d))) (dp_blobs d w)"

lemma resolved_grows: "grows B B' \<Longrightarrow> resolved n B keysOnly kv kv' \<Longrightarrow> resolved n B' keysOnly kv kv'"
  by (auto simp: resolved_def dest: blob_of_grows)

lemma decode_kvs_reads:
  assumes d: "environment d"
    and "io_map (decode_kv (dp_grpc d) (dp_proxy d) ctx keysOnly) kvs w = (Ok kvs', w')"
    and "same_views d w0 w"
  shows "list_all2 (reads d w0 keysOnly) kvs kvs'"
  using assms(2,3)
proof (induction kvs arbitrary: kvs' w)
  case (Cons kv kvs)
  then obtain x w1 xs where x: "decode_kv (dp_grpc d) (dp_proxy d) ctx keysOnly kv w = (Ok x, w1)"
    and xs: "io_map (decode_kv (dp_grpc d) (dp_proxy d) ctx keysOnly) kvs w1 = (Ok xs, w')" "kvs' = x # xs"
    by (auto simp: io_bind_Ok_iff)
  have "same_views d w0 w1" using preservesD [OF decode_kv_preserves [OF d] Cons.prems(2) x] .
  from Cons.IH [OF xs(1) this] have "list_all2 (reads d w0 keysOnly) kvs xs" .
  moreover have "reads d w0 keysOnly kv x"
    using decode_kv_Ok [OF x] decode_kv_value [OF d, of ctx kv w x w1] x Cons.prems(2)
    by (auto simp: reads_def resolved_def same_views_def)
  ultimately show ?case using xs(2) by simp
qed auto

lemma range_answer_abs:
  assumes keys: "coordinatedKeys (rr_Key q) (rr_RangeEnd q) = Ok (k, e)"
    and ans: "range_answer (q\<lparr>rr_Key := k, rr_RangeEnd := e\<rparr>) (dp_meta d w) kvs"
    and reads: "list_all2 (reads d w (rr_KeysOnly q)) kvs kvs'" and w: "refs_resolve d w"
  shows "range_answer q (abs_view d w) kvs'"
proof -
  let ?P = CoordinatedMetadataPrefix and ?n = "length (cp_clients (dp_proxy d))"
  note in_iff = coordinatedKeys_in_range [OF keys]
  have mapkey: "map kv_Key kvs = map ((@) ?P) (map kv_Key kvs')"
    using reads by (induction rule: list_all2_induct) (auto simp: reads_def resolved_def decoded_def)
  have pair: "in_range (kv_Key kv') (rr_Key q) (rr_RangeEnd q) \<and>
      (\<exists>v. abs_view d w (kv_Key kv') = Some v \<and> kv_Value kv' = (if rr_KeysOnly q then [] else v))"
    if "kv' \<in> set kvs'" for kv'
  proof -
    from that reads obtain kv where kv: "kv \<in> set kvs" "reads d w (rr_KeysOnly q) kv kv'"
      by (metis in_set_conv_nth list_all2_conv_all_nth)
    then have key: "kv_Key kv = ?P @ kv_Key kv'" by (simp add: reads_def resolved_def decoded_def)
    from ans kv(1) key in_iff obtain v where
      "in_range (kv_Key kv') (rr_Key q) (rr_RangeEnd q)" and v: "dp_meta d w (?P @ kv_Key kv') = Some v"
      "kv_Value kv = (if rr_KeysOnly q then [] else v)"
      by (auto simp: range_answer_def)
    moreover obtain b where b: "blob_of ?n (dp_blobs d w) v = Some b"
      using w v(1) by (auto simp: refs_resolve_def resolves_def)
    ultimately show ?thesis
      using kv(2) by (auto simp: abs_view_def abs_of_def reads_def resolved_def decoded_def)
  qed
  have "kv_Key ` set kvs' \<supseteq> {u. in_range u (rr_Key q) (rr_RangeEnd q) \<and> abs_view d w u \<noteq> None}"
    if "rr_Limit q = 0 \<and> \<not> rr_CountOnly q \<and> rr_rest q = []"
  proof
    fix u assume u: "u \<in> {u. in_range u (rr_Key q) (rr_RangeEnd q) \<and> abs_view d w u \<noteq> None}"
    then have "in_range (?P @ u) k e" "dp_meta d w (?P @ u) \<noteq> None"
      using in_iff by (auto simp: abs_view_def abs_of_def bind_eq_None_conv)
    with ans that have "?P @ u \<in> set (map kv_Key kvs)" by (auto simp: range_answer_def)
    then show "u \<in> kv_Key ` set kvs'" unfolding mapkey by auto
  qed
  moreover have "distinct (map kv_Key kvs')"
    using ans unfolding range_answer_def mapkey by (auto simp: distinct_map intro: inj_on_imageI2)
  ultimately show ?thesis using pair by (auto simp: range_answer_def)
qed

lemma Range_answers:
  assumes d: "environment d" and w: "refs_resolve d w"
    and ok: "CoordinatedProxy_Range (dp_grpc d) (dp_proxy d) ctx (Some q) w = (Ok out, w')"
    and now: "linearizable q"
  shows "range_answer q (abs_view d w) (rs_Kvs out)"
proof -
  obtain q' k e raw w1 where "Some q = Some q'"
    and keys: "coordinatedKeys (rr_Key q') (rr_RangeEnd q') = Ok (k, e)"
    and f: "forwardUnary (dp_grpc d) ctx (q'\<lparr>rr_Key := k, rr_RangeEnd := e\<rparr>)
      (KV_Range (bp_kv (cp_backend (dp_proxy d)))) w = (Ok raw, w1)"
    and dec: "io_map (decode_kv (dp_grpc d) (dp_proxy d) ctx (rr_KeysOnly q')) (rs_Kvs raw) w1 = (Ok (rs_Kvs out), w')"
    by (rule Range_Ok [OF ok]) blast
  then have q': "q' = q" by simp
  from coordinator_Range [OF d f] now q'
  have sv: "same_views d w w1" and ans: "range_answer (q\<lparr>rr_Key := k, rr_RangeEnd := e\<rparr>) (dp_meta d w) (rs_Kvs raw)"
    by simp_all
  from range_answer_abs [OF keys [unfolded q'] ans decode_kvs_reads [OF d dec [unfolded q'] sv] w]
  show ?thesis .
qed

section \<open>Availability\<close>

text \<open>When the shards answer every read, decoding what the coordinator holds cannot fail.\<close>

definition shards_up :: "('conn, 'c, 'm, 'w) deployment \<Rightarrow> 'c \<Rightarrow> bool" where
  "shards_up d ctx \<longleftrightarrow>
     (\<forall>i < length (cp_clients (dp_proxy d)). \<forall>k w.
        accepted (fst (rpc_call (KV_Range (cp_clients (dp_proxy d) ! i))
                         (backendContext (dp_grpc d) ctx) (get_request k) w)))"

lemma decode_kvs_succeed:
  assumes d: "environment d" and up: "shards_up d ctx"
    and "same_views d w0 w"
    and "\<And>kv. kv \<in> set kvs \<Longrightarrow> prefix CoordinatedMetadataPrefix (kv_Key kv) \<and>
      (keysOnly \<or> kv_Value kv \<noteq> [] \<and>
        blob_of (length (cp_clients (dp_proxy d))) (dp_blobs d w0) (kv_Value kv) \<noteq> None)"
  shows "accepted (fst (io_map (decode_kv (dp_grpc d) (dp_proxy d) ctx keysOnly) kvs w))"
  using assms(3,4)
proof (induction kvs arbitrary: w)
  case (Cons kv kvs)
  have "accepted (fst (decode_kv (dp_grpc d) (dp_proxy d) ctx keysOnly kv w))"
  proof (cases keysOnly)
    case True
    then show ?thesis using Cons.prems(2) [of kv] by (simp add: decode_kv_def io_return_def)
  next
    case False
    then obtain v where "blob_of (length (cp_clients (dp_proxy d))) (dp_blobs d w) (kv_Value kv) = Some v"
      using Cons.prems by (auto simp: same_views_def)
    with False Cons.prems(2) [of kv] show ?thesis
      by (intro decode_kv_succeeds [OF d]) (use up in \<open>auto simp: shards_up_def\<close>)
  qed
  then obtain x w1 where x: "decode_kv (dp_grpc d) (dp_proxy d) ctx keysOnly kv w = (Ok x, w1)"
    by (auto simp: accepted_def) (metis prod.collapse)
  have "same_views d w0 w1" using preservesD [OF decode_kv_preserves [OF d] Cons.prems(1) x] .
  from Cons.IH [OF this] Cons.prems(2)
  have "accepted (fst (io_map (decode_kv (dp_grpc d) (dp_proxy d) ctx keysOnly) kvs w1))" by simp
  then obtain xs w2 where "io_map (decode_kv (dp_grpc d) (dp_proxy d) ctx keysOnly) kvs w1 = (Ok xs, w2)"
    by (auto simp: accepted_def) (metis prod.collapse)
  with x show ?case by (simp add: io_bind_step io_return_def)
qed (simp add: io_return_def)

lemma Range_accepted:
  assumes d: "environment d" and w: "refs_resolve d w" and up: "shards_up d ctx"
    and q: "rangeRequest (Some q) = Ok q'" and now: "linearizable q"
    and coord: "accepted (fst (rpc_call (KV_Range (bp_kv (cp_backend (dp_proxy d))))
      (backendContext (dp_grpc d) ctx) q' w))"
  shows "accepted (fst (CoordinatedProxy_Range (dp_grpc d) (dp_proxy d) ctx (Some q) w))"
proof -
  let ?call = "forwardUnary (dp_grpc d) ctx q' (KV_Range (bp_kv (cp_backend (dp_proxy d))))"
  obtain out w1 where f: "?call w = (Ok out, w1)"
    using coord by (auto simp: forwardUnary_def rpc_call_def accepted_def Let_def split: prod.splits)
  from q obtain k e where keys: "coordinatedKeys (rr_Key q) (rr_RangeEnd q) = Ok (k, e)"
    and q': "q' = q\<lparr>rr_Key := k, rr_RangeEnd := e\<rparr>"
    by (auto simp: rangeRequest_def res_bind_eq_Ok simp del: coordinatedKeys_Ok split: if_splits)
  have sv: "same_views d w w1" and ans: "range_answer q' (dp_meta d w) (rs_Kvs out)"
    using coordinator_Range [OF d f] now q' by simp_all
  have "prefix CoordinatedMetadataPrefix (kv_Key kv) \<and>
      (rr_KeysOnly q \<or> kv_Value kv \<noteq> [] \<and>
        blob_of (length (cp_clients (dp_proxy d))) (dp_blobs d w) (kv_Value kv) \<noteq> None)"
    if "kv \<in> set (rs_Kvs out)" for kv
  proof -
    from that ans q' have "in_range (kv_Key kv) k e" and v: "\<exists>v. dp_meta d w (kv_Key kv) = Some v \<and>
        kv_Value kv = (if rr_KeysOnly q then [] else v)"
      by (auto simp: range_answer_def)
    then obtain u where "kv_Key kv = CoordinatedMetadataPrefix @ u"
      using coordinatedKeys_in_range [OF keys] by auto
    with v w show ?thesis by (fastforce simp: refs_resolve_def resolves_def)
  qed
  from decode_kvs_succeed [OF d up sv this]
  obtain kvs w2 where "io_map (decode_kv (dp_grpc d) (dp_proxy d) ctx (rr_KeysOnly q)) (rs_Kvs out) w1 = (Ok kvs, w2)"
    by (auto simp: accepted_def) (metis prod.collapse)
  with f q show ?thesis by (simp add: CoordinatedProxy_Range_def io_bind_step io_return_def)
qed

section \<open>Histories\<close>

text \<open>
  A request to the key-value service, its handler, and the maps it may leave: for a rejected or
  failed mutation the old one is possible, and a reader never changes it.
\<close>

datatype KVRequest =
  ReqRange RangeRequest | ReqPut PutRequest | ReqDelete DeleteRangeRequest | ReqTxn TxnRequest

definition serve :: "('conn, 'c, 'm, 'w) deployment \<times> 'c \<Rightarrow> KVRequest \<Rightarrow> 'w \<Rightarrow> 'w" where
  "serve dc req w =
     (case dc of (d, ctx) \<Rightarrow>
        (case req of
           ReqRange q \<Rightarrow> snd (CoordinatedProxy_Range (dp_grpc d) (dp_proxy d) ctx (Some q) w)
         | ReqPut q \<Rightarrow> snd (CoordinatedProxy_Put (dp_grpc d) (dp_rand d) (dp_proxy d) ctx (Some q) w)
         | ReqDelete q \<Rightarrow> snd (CoordinatedProxy_DeleteRange (dp_grpc d) (dp_proxy d) ctx (Some q) w)
         | ReqTxn q \<Rightarrow> snd (CoordinatedProxy_Txn (dp_grpc d) (dp_rand d) (dp_proxy d) ctx (Some q) w)))"

definition request_effects :: "KVRequest \<Rightarrow> store \<Rightarrow> store set" where
  "request_effects req m =
     (case req of
        ReqRange q \<Rightarrow> {m}
      | ReqPut q \<Rightarrow> {m, put_effect q m}
      | ReqDelete q \<Rightarrow> {m, delete_effect q m}
      | ReqTxn q \<Rightarrow> {m, ops_effect (txn_Success q) m, ops_effect (txn_Failure q) m})"

fun histories :: "('op \<Rightarrow> 'a \<Rightarrow> 'a set) \<Rightarrow> 'op list \<Rightarrow> 'a \<Rightarrow> 'a set" where
  "histories effects [] a = {a}"
| "histories effects (op # ops) a = (\<Union>b \<in> effects op a. histories effects ops b)"

text \<open>
  A system whose every step keeps an invariant and stays within what the abstract operation allows
  does so along every history.
\<close>

locale simulation =
  fixes invar :: "'cfg \<Rightarrow> 'w \<Rightarrow> bool"
    and view :: "'cfg \<Rightarrow> 'w \<Rightarrow> 'a"
    and step :: "'cfg \<Rightarrow> 'op \<Rightarrow> 'w \<Rightarrow> 'w"
    and effects :: "'op \<Rightarrow> 'a \<Rightarrow> 'a set"
  assumes step_invar: "invar c w \<Longrightarrow> invar c (step c op w)"
    and step_effect: "invar c w \<Longrightarrow> view c (step c op w) \<in> effects op (view c w)"
begin

lemma run_invar: "invar c w \<Longrightarrow> invar c (fold (step c) ops w)"
  by (induction ops arbitrary: w) (auto simp: step_invar)

lemma run_simulates: "invar c w \<Longrightarrow> view c (fold (step c) ops w) \<in> histories effects ops (view c w)"
proof (induction ops arbitrary: w)
  case (Cons op ops)
  from Cons.IH [OF step_invar [OF Cons.prems]] step_effect [OF Cons.prems] show ?case by auto
qed simp

end

lemma serve_outcome:
  assumes d: "environment d" and w: "refs_resolve d w"
  shows "refs_resolve d (serve (d, ctx) req w) \<and>
    abs_view d (serve (d, ctx) req w) \<in> request_effects req (abs_view d w)"
proof (cases req)
  case (ReqRange q)
  have "same_views d w (serve (d, ctx) req w)"
    using Range_preserves [OF d, of w ctx "Some q"] ReqRange
    by (simp add: serve_def preserves_def same_views_def)
  then show ?thesis using w ReqRange
    by (simp add: same_views_def refs_resolve_def abs_view_def request_effects_def)
next
  case (ReqPut q)
  then show ?thesis
    using Put_outcome [OF d w, of ctx q] by (auto simp: serve_def outcome_def request_effects_def) (metis prod.collapse)+
next
  case (ReqDelete q)
  then show ?thesis
    using DeleteRange_outcome [OF d w, of ctx q]
    by (auto simp: serve_def outcome_def request_effects_def) (metis prod.collapse)+
next
  case (ReqTxn q)
  obtain r w' where "CoordinatedProxy_Txn (dp_grpc d) (dp_rand d) (dp_proxy d) ctx (Some q) w = (r, w')"
    by fastforce
  with ReqTxn Txn_outcome [OF d w this] show ?thesis
    by (cases r) (auto simp: serve_def txn_outcome_def request_effects_def)
qed

interpretation coordinated: simulation
  "\<lambda>(d, ctx) w. environment d \<and> refs_resolve d w" "\<lambda>(d, ctx) w. abs_view d w" serve request_effects
  by unfold_locales (auto simp: serve_outcome split: prod.splits)

end
