(* ===== verification/Memory_Cluster.thy ===== *)
theory Memory_Cluster
  imports Coordinated_Refinement "HOL-Library.AList"
begin

text \<open>
  A deployment that satisfies every law \<open>Coordinated_Refinement\<close> and \<open>Backend_Proxy\<close> ask for: a
  coordinator and two shards held in association lists, a gRPC library without metadata, and a
  random source that counts. It shows that the laws are consistent and gives the theorems concrete
  inputs. It models no code of the proxy.
\<close>

section \<open>Clusters\<close>

type_synonym mem_store = "(bytes \<times> bytes) list"

record mem =
  mem_meta :: mem_store
  mem_blobs :: "mem_store list"
  mem_drawn :: nat

definition mem_kv :: "bool \<Rightarrow> bytes \<times> bytes \<Rightarrow> KeyValue" where
  "mem_kv keysOnly = (\<lambda>(k, v).
     \<lparr>kv_Key = k, kv_CreateRevision = 1, kv_ModRevision = 1, kv_Version = 1,
      kv_Value = (if keysOnly then [] else v), kv_Lease = 0\<rparr>)"

definition mem_range :: "RangeRequest \<Rightarrow> mem_store \<Rightarrow> KeyValue list" where
  "mem_range q s =
     (let kvs = filter (\<lambda>(k, v). in_range k (rr_Key q) (rr_RangeEnd q)) (AList.clearjunk s);
          kvs = (if rr_Limit q = 0 then kvs else take (nat (rr_Limit q)) kvs)
      in if rr_CountOnly q then [] else map (mem_kv (rr_KeysOnly q)) kvs)"

definition mem_range_response :: "RangeRequest \<Rightarrow> mem_store \<Rightarrow> RangeResponse" where
  "mem_range_response q s =
     \<lparr>rs_Header = None, rs_Kvs = mem_range q s, rs_More = False, rs_Count = int (length (mem_range q s))\<rparr>"

definition mem_put :: "PutRequest \<Rightarrow> mem_store \<Rightarrow> mem_store" where
  "mem_put q s = (if pr_IgnoreValue q then s else (pr_Key q, pr_Value q) # s)"

definition mem_delete :: "DeleteRangeRequest \<Rightarrow> mem_store \<Rightarrow> mem_store" where
  "mem_delete q s = filter (\<lambda>(k, v). \<not> in_range k (dr_Key q) (dr_RangeEnd q)) s"

definition mem_delete_response :: "DeleteRangeRequest \<Rightarrow> mem_store \<Rightarrow> DeleteRangeResponse" where
  "mem_delete_response q s =
     (let kvs = filter (\<lambda>(k, v). in_range k (dr_Key q) (dr_RangeEnd q)) (AList.clearjunk s)
      in \<lparr>ds_Header = None, ds_Deleted = int (length kvs),
          ds_PrevKvs = (if dr_PrevKv q then map (mem_kv False) kvs else [])\<rparr>)"

definition mem_op :: "RequestOp option \<Rightarrow> mem_store \<Rightarrow> ResponseOp \<times> mem_store" where
  "mem_op op s =
     (case op of
        Some (RequestRange (Some q)) \<Rightarrow> (ResponseRange (mem_range_response q s), s)
      | Some (RequestPut (Some q)) \<Rightarrow>
          (ResponsePut \<lparr>ps_Header = None, ps_PrevKv = None\<rparr>, mem_put q s)
      | Some (RequestDeleteRange (Some q)) \<Rightarrow> (ResponseDeleteRange (mem_delete_response q s), mem_delete q s)
      | _ \<Rightarrow> (ResponseUnset, s))"

fun mem_ops :: "RequestOp option list \<Rightarrow> mem_store \<Rightarrow> ResponseOp list \<times> mem_store" where
  "mem_ops [] s = ([], s)"
| "mem_ops (op # ops) s =
     (let (r, s1) = mem_op op s; (rs, s2) = mem_ops ops s1 in (r # rs, s2))"

text \<open>Of the comparisons, the ones with version 0 (does the key exist?) are interpreted.\<close>

definition mem_compare :: "mem_store \<Rightarrow> Compare option \<Rightarrow> bool" where
  "mem_compare s c =
     (case c of
        Some c \<Rightarrow> cmp_Target c = Compare_VERSION \<and> cmp_TargetUnion c = TargetVersion 0 \<longrightarrow>
          (case cmp_Result c of
             Compare_EQUAL \<Rightarrow> map_of s (cmp_Key c) = None
           | _ \<Rightarrow> map_of s (cmp_Key c) \<noteq> None)
      | None \<Rightarrow> True)"

definition mem_down :: "'r result" where
  "mem_down = Err (Status Unavailable ''down'')"

text \<open>A client of the store \<open>get\<close>, which can be written where \<open>up\<close> holds.\<close>

definition mem_client ::
  "('w \<Rightarrow> bool) \<Rightarrow> ('w \<Rightarrow> mem_store) \<Rightarrow> (mem_store \<Rightarrow> 'w \<Rightarrow> 'w) \<Rightarrow> (unit, unit, 'w) KVClient"
where
  "mem_client up get upd =
     \<lparr>KV_Range = (\<lambda>_ q w. ((Ok (mem_range_response q (get w)), (), ()), w)),
       KV_Put = (\<lambda>_ q w.
         if up w then ((Ok \<lparr>ps_Header = None, ps_PrevKv = None\<rparr>, (), ()), upd (mem_put q (get w)) w)
         else ((mem_down, (), ()), w)),
       KV_DeleteRange = (\<lambda>_ q w.
         if up w then ((Ok (mem_delete_response q (get w)), (), ()), upd (mem_delete q (get w)) w)
         else ((mem_down, (), ()), w)),
       KV_Txn = (\<lambda>_ q w.
         if up w then
           (let ok = list_all (mem_compare (get w)) (txn_Compare q);
                (rs, s) = mem_ops (if ok then txn_Success q else txn_Failure q) (get w)
            in ((Ok (TxnResponse None ok rs), (), ()), upd s w))
         else ((mem_down, (), ()), w)),
       KV_Compact = (\<lambda>_ _ w. ((mem_down, (), ()), w))\<rparr>"

definition mem_coordinator :: "(unit, unit, mem) KVClient" where
  "mem_coordinator = mem_client (\<lambda>_. True) mem_meta (\<lambda>s w. w\<lparr>mem_meta := s\<rparr>)"

definition mem_shard :: "nat \<Rightarrow> (unit, unit, mem) KVClient" where
  "mem_shard i =
     mem_client (\<lambda>w. i < length (mem_blobs w)) (\<lambda>w. if i < length (mem_blobs w) then mem_blobs w ! i else [])
       (\<lambda>s w. w\<lparr>mem_blobs := (mem_blobs w)[i := s]\<rparr>)"

definition mem_grpc :: "(unit, unit, mem) Grpc" where
  "mem_grpc =
     \<lparr>FromIncomingContext = (\<lambda>_. ()), FromOutgoingContext = (\<lambda>_. ()), NewOutgoingContext = (\<lambda>c _. c),
      MD_Join = (\<lambda>_ _. ()), MD_len = (\<lambda>_. 0), grpc_SetHeader = (\<lambda>_ _ w. w),
      grpc_SetTrailer = (\<lambda>_ _ w. w)\<rparr>"

text \<open>The next token: its last byte counts the draws; an error when all are drawn or the token is taken.\<close>

definition mem_token :: "nat \<Rightarrow> mem \<Rightarrow> bytes" where
  "mem_token n w = replicate (n - 1) (CHR 0x00) @ [char_of (mem_drawn w)]"

definition mem_rand :: "nat \<Rightarrow> (mem, bytes) io" where
  "mem_rand n w =
     (if 256 \<le> mem_drawn w \<or> CoordinatedBlobPrefix @ hex_encode (mem_token n w) \<in> set (map fst (concat (mem_blobs w)))
      then (Err (Errorf ''no entropy''), w) else (Ok (mem_token n w), w\<lparr>mem_drawn := Suc (mem_drawn w)\<rparr>))"

definition no_lease :: "(unit, unit, mem) LeaseClient" where
  "no_lease =
     \<lparr>Lease_Grant = (\<lambda>_ _ w. ((mem_down, (), ()), w)), Lease_Revoke = (\<lambda>_ _ w. ((mem_down, (), ()), w)),
       Lease_TimeToLive = (\<lambda>_ _ w. ((mem_down, (), ()), w)), Lease_Leases = (\<lambda>_ _ w. ((mem_down, (), ()), w)),
       Lease_KeepAlive = (\<lambda>_. io_err (Status Unavailable ''down''))\<rparr>"

definition no_maintenance :: "(unit, unit, mem) MaintenanceClient" where
  "no_maintenance =
     (let down = (\<lambda>_ _ w. ((Err (Status Unavailable ''down''), (), ()), w)) in
      \<lparr>Maint_Alarm = down, Maint_Status = down, Maint_Defragment = down, Maint_Hash = down,
       Maint_HashKV = down, Maint_MoveLeader = down, Maint_Downgrade = down,
       Maint_Snapshot = (\<lambda>_ _. io_err (Status Unavailable ''down''))\<rparr>)"

text \<open>Connections are numbered: 0 is the coordinator, \<open>i + 1\<close> is shard \<open>i\<close>.\<close>

definition mem_stubs :: "(nat, unit, unit, mem) Stubs" where
  "mem_stubs =
     \<lparr>grpc_Dial = (\<lambda>_ _. io_err (Status Unavailable ''down'')), conn_Close = (\<lambda>_ w. w),
      conn_Target = (\<lambda>c. itoa c),
      NewKVClient = (\<lambda>c. if c = 0 then mem_coordinator else mem_shard (c - 1)),
      NewWatchClient = (\<lambda>_. \<lparr>Watch_Watch = (\<lambda>_. io_err (Status Unavailable ''down''))\<rparr>),
      NewLeaseClient = (\<lambda>_. no_lease), NewMaintenanceClient = (\<lambda>_. no_maintenance)\<rparr>"

definition mem_shards :: "nat CoordinatedShard list" where
  "mem_shards =
     [\<lparr>csh_Start = [], csh_End = ''m'', csh_Endpoint = ''left'', csh_Conn = Some 1\<rparr>,
      \<lparr>csh_Start = ''m'', csh_End = [], csh_Endpoint = ''right'', csh_Conn = Some 2\<rparr>]"

definition mem_proxy :: "(nat, unit, unit, mem) CoordinatedProxy" where
  "mem_proxy =
     \<lparr>cp_backend = NewBackendProxy mem_stubs 0, cp_shards = mem_shards,
      cp_clients = [mem_shard 0, mem_shard 1]\<rparr>"

definition mem_deployment :: "(nat, unit, unit, mem) deployment" where
  "mem_deployment =
     \<lparr>dp_grpc = mem_grpc, dp_rand = mem_rand, dp_proxy = mem_proxy, dp_meta = (\<lambda>w. map_of (mem_meta w)),
      dp_blobs = (\<lambda>w i. if i < length (mem_blobs w) then map_of (mem_blobs w ! i) else Map.empty)\<rparr>"

definition mem_empty :: mem where
  "mem_empty = \<lparr>mem_meta = [], mem_blobs = [[], []], mem_drawn = 0\<rparr>"

section \<open>The laws hold\<close>

lemma map_of_mem_put: "map_of (mem_put q s) = put_effect q (map_of s)"
  by (simp add: mem_put_def put_effect_def)

lemma map_of_mem_delete: "map_of (mem_delete q s) = delete_effect q (map_of s)"
proof
  fix k
  show "map_of (mem_delete q s) k = delete_effect q (map_of s) k"
    by (induction s) (auto simp: mem_delete_def delete_effect_def)
qed

lemma mem_op_effect: "flat_op op \<Longrightarrow> map_of (snd (mem_op op s)) = op_effect op (map_of s)"
  by (auto simp: mem_op_def op_effect_def map_of_mem_put map_of_mem_delete flat_op_def
      split: option.splits RequestOp.splits)

lemma mem_ops_effect:
  "list_all flat_op ops \<Longrightarrow> map_of (snd (mem_ops ops s)) = ops_effect ops (map_of s)"
  by (induction ops arbitrary: s) (auto simp: ops_effect_def mem_op_effect split_beta Let_def)

lemma distinct_filter_fst:
  "distinct (map fst s) \<Longrightarrow> distinct (map fst (filter P s))"
  by (simp add: distinct_map inj_on_def)

lemma mem_range_answer: "range_answer q (map_of s) (mem_range q s)"
proof -
  let ?kvs = "filter (\<lambda>(k, v). in_range k (rr_Key q) (rr_RangeEnd q)) (AList.clearjunk s)"
  let ?sel = "if rr_Limit q = 0 then ?kvs else take (nat (rr_Limit q)) ?kvs"
  have d: "distinct (map fst ?sel)"
    using distinct_filter_fst [OF distinct_clearjunk, of _ s] by (simp add: take_map [symmetric])
  have fst_kv: "map kv_Key (map (mem_kv b) xs) = map fst xs" for b xs
    by (simp add: mem_kv_def split_beta)
  have sub: "set ?sel \<subseteq> set ?kvs" by (auto dest: in_set_takeD)
  have in_kvs: "in_range k (rr_Key q) (rr_RangeEnd q) \<and> map_of s k = Some v" if "(k, v) \<in> set ?kvs" for k v
    using that map_of_is_SomeI [OF distinct_clearjunk, of k v s] by (auto simp: map_of_clearjunk)
  have all: "k \<in> fst ` set ?kvs" if "in_range k (rr_Key q) (rr_RangeEnd q)" "map_of s k = Some v" for k v
  proof -
    have "(k, v) \<in> set (AList.clearjunk s)"
      using that(2) by (intro map_of_SomeD) (simp add: map_of_clearjunk)
    with that(1) show ?thesis by (force simp: image_iff)
  qed
  have r: "mem_range q s = (if rr_CountOnly q then [] else map (mem_kv (rr_KeysOnly q)) ?sel)"
    by (simp add: mem_range_def Let_def)
  have "distinct (map kv_Key (mem_range q s))" using d by (simp add: r fst_kv del: map_map)
  moreover have "in_range (kv_Key kv) (rr_Key q) (rr_RangeEnd q) \<and>
      (\<exists>v. map_of s (kv_Key kv) = Some v \<and> kv_Value kv = (if rr_KeysOnly q then [] else v))"
    if "kv \<in> set (mem_range q s)" for kv
  proof -
    from that obtain k v where "(k, v) \<in> set ?sel" "kv = mem_kv (rr_KeysOnly q) (k, v)"
      by (auto simp: r split: if_splits)
    with sub in_kvs [of k v] show ?thesis by (auto simp: mem_kv_def)
  qed
  moreover have "k \<in> kv_Key ` set (mem_range q s)"
    if "rr_Limit q = 0 \<and> \<not> rr_CountOnly q" "in_range k (rr_Key q) (rr_RangeEnd q)" "map_of s k \<noteq> None" for k
  proof -
    from that(3) obtain v where "map_of s k = Some v" by blast
    from all [OF that(2) this] that(1) show ?thesis
      by (auto simp: r mem_kv_def split_beta image_iff)
  qed
  ultimately show ?thesis unfolding range_answer_def by blast
qed

lemma filter_key_distinct:
  "distinct (map fst s) \<Longrightarrow>
     filter (\<lambda>(x, v). x = k) s = (case map_of s k of None \<Rightarrow> [] | Some v \<Rightarrow> [(k, v)])"
  by (induction s) (force simp: filter_empty_conv map_of_eq_None_iff split: option.splits)+

lemma mem_get: "mem_range (get_request k) s = (case map_of s k of None \<Rightarrow> [] | Some v \<Rightarrow> [mem_kv False (k, v)])"
  using filter_key_distinct [OF distinct_clearjunk, of k s]
  by (auto simp: mem_range_def get_request_def map_of_clearjunk split: option.splits)

text \<open>The laws of a client, for any store it may hold.\<close>

lemma mem_coordinator_laws:
  "coordinator_laws mem_coordinator (\<lambda>w. map_of (mem_meta w))
     (\<lambda>w i. if i < length (mem_blobs w) then map_of (mem_blobs w ! i) else Map.empty)"
  unfolding coordinator_laws_def mem_coordinator_def mem_client_def
  by (auto simp: map_of_mem_put map_of_mem_delete mem_ops_effect mem_range_response_def
      mem_range_answer Let_def split_beta)

lemma mem_blobs_put:
  "i < length (mem_blobs w) \<Longrightarrow>
     (\<lambda>j. if j < length (mem_blobs w)
           then map_of (mem_blobs (w\<lparr>mem_blobs := (mem_blobs w)[i := mem_put (put_request k v) (mem_blobs w ! i)]\<rparr>) ! j)
           else Map.empty) =
     (\<lambda>j. if j < length (mem_blobs w) then map_of (mem_blobs w ! j) else Map.empty)
       (i := (map_of (mem_blobs w ! i))(k \<mapsto> v))"
  by (auto simp: fun_eq_iff nth_list_update map_of_mem_put put_effect_def put_request_def)

lemma mem_shard_laws:
  "shard_laws mem_proxy (\<lambda>w. map_of (mem_meta w))
     (\<lambda>w i. if i < length (mem_blobs w) then map_of (mem_blobs w ! i) else Map.empty)"
proof -
  have client: "cp_clients mem_proxy ! i = mem_shard i" if "i < length (cp_clients mem_proxy)" for i
    using that by (auto simp: mem_proxy_def less_Suc_eq numeral_2_eq_2)
  show ?thesis
    unfolding shard_laws_def
    by (auto simp: client mem_shard_def mem_client_def mem_blobs_put mem_range_response_def mem_get
        kv_pairs_def mem_kv_def mem_down_def split: if_splits option.splits)
qed

lemma mem_rand_laws:
  "rand_laws mem_rand (\<lambda>w. map_of (mem_meta w))
     (\<lambda>w i. if i < length (mem_blobs w) then map_of (mem_blobs w ! i) else Map.empty)"
proof -
  have "map_of (mem_blobs w ! i) k = None"
    if "k \<notin> set (map fst (concat (mem_blobs w)))" "i < length (mem_blobs w)" for w i k
    using that by (force simp: map_of_eq_None_iff image_iff)
  then show ?thesis by (auto simp: rand_laws_def mem_rand_def simp del: set_map split: if_splits)
qed

lemma mem_routing: "valid_routing mem_proxy"
  by (simp add: valid_routing_def mem_proxy_def mem_shards_def)

lemma mem_transport: "transport_laws mem_grpc view"
  by (simp add: transport_laws_def mem_grpc_def)

lemma mem_environment: "environment mem_deployment"
proof -
  have "bp_kv (cp_backend mem_proxy) = mem_coordinator" "length (cp_clients mem_proxy) = 2"
    by (simp_all add: mem_proxy_def NewBackendProxy_def mem_stubs_def)
  then show ?thesis
    using mem_routing mem_coordinator_laws mem_shard_laws mem_rand_laws
    by (simp add: environment_def mem_deployment_def mem_transport)
qed

lemma mem_empty_resolves: "refs_resolve mem_deployment mem_empty"
  by (simp add: refs_resolve_def resolves_def mem_deployment_def mem_empty_def)

section \<open>A write\<close>

text \<open>A deployment with the key \<open>b\<close> written: where the value and the reference go.\<close>

lemma mem_rand_empty: "mem_rand 32 mem_empty = (Ok (mem_token 32 mem_empty), mem_empty\<lparr>mem_drawn := 1\<rparr>)"
  by (simp add: mem_rand_def mem_empty_def)

lemma mem_shard_left: "shard mem_proxy ''b'' = Ok 0"
  by (simp add: shard_def mem_proxy_def mem_shards_def)

lemma mem_shard_right: "shard mem_proxy ''x'' = Ok 1"
  by (simp add: shard_def mem_proxy_def mem_shards_def)

lemma mem_backend: "bp_kv (cp_backend mem_proxy) = mem_coordinator"
  by (simp add: mem_proxy_def NewBackendProxy_def mem_stubs_def)

lemma mem_stagePut:
  assumes "key \<noteq> []" "shard mem_proxy key = Ok i" "i < 2" "length (mem_blobs w) = 2"
    and "mem_rand 32 w = (Ok token, w\<lparr>mem_drawn := Suc (mem_drawn w)\<rparr>)"
  shows "stagePut mem_grpc mem_rand mem_proxy () (put_request key v) w =
    (Ok (put_request (CoordinatedMetadataPrefix @ key)
          (Marshal_ref \<lparr>ref_Shard = int i, ref_Key = CoordinatedBlobPrefix @ hex_encode token\<rparr>)),
     w\<lparr>mem_blobs := (mem_blobs w)[i := (CoordinatedBlobPrefix @ hex_encode token, v) # mem_blobs w ! i],
        mem_drawn := Suc (mem_drawn w)\<rparr>)"
proof -
  have c: "cp_clients mem_proxy ! i = mem_shard i" using assms(3)
    by (auto simp: mem_proxy_def less_Suc_eq numeral_2_eq_2)
  have key: "pr_Key (put_request key v) = key" by (simp add: put_request_def)
  show ?thesis
    using assms(1,2) stagePut_cases [OF mem_routing, of "put_request key v" i mem_grpc mem_rand "()", unfolded key]
    by (simp add: io_bind_step(1) [where m = "mem_rand 32", OF assms(5)] put_request_def)
      (simp add: io_bind_def rpc_call_def c mem_shard_def mem_client_def mem_put_def assms(3,4) io_return_def)
qed

lemma mem_Put:
  assumes "key \<noteq> []" "shard mem_proxy key = Ok i" "i < 2" "length (mem_blobs w) = 2"
    and "mem_rand 32 w = (Ok token, w\<lparr>mem_drawn := Suc (mem_drawn w)\<rparr>)"
  shows "CoordinatedProxy_Put mem_grpc mem_rand mem_proxy () (Some (put_request key v)) w =
    (Ok \<lparr>ps_Header = None, ps_PrevKv = None\<rparr>,
     \<lparr>mem_meta = (CoordinatedMetadataPrefix @ key,
         Marshal_ref \<lparr>ref_Shard = int i, ref_Key = CoordinatedBlobPrefix @ hex_encode token\<rparr>) # mem_meta w,
      mem_blobs = (mem_blobs w)[i := (CoordinatedBlobPrefix @ hex_encode token, v) # mem_blobs w ! i],
      mem_drawn = Suc (mem_drawn w)\<rparr>)"
proof -
  have valid: "validateCoordinatedPut (Some (put_request key v)) = Ok ()"
    using assms(1) by (simp add: validateCoordinatedPut_Ok put_request_def)
  show ?thesis
    using mem_stagePut [OF assms]
    by (simp add: Put_eq [OF valid] io_bind_step mem_backend)
      (simp add: io_bind_def forwardUnary_def mem_coordinator_def mem_client_def mem_put_def mem_grpc_def
        decodeKV_def io_return_def put_request_def)
qed

end
