(* ===== verification/Coordinated_Theorems.thy ===== *)
theory Coordinated_Theorems
  imports Memory_Cluster
begin

text \<open>
  What the coordinated proxy guarantees, as theorems about its handlers, each with an application to
  the in-memory deployment of \<open>Memory_Cluster\<close> where it has hypotheses.
\<close>

section \<open>A deployment with data\<close>

definition mem_b :: mem where
  "mem_b = snd (CoordinatedProxy_Put mem_grpc mem_rand mem_proxy () (Some (put_request ''b'' ''v1'')) mem_empty)"

lemma mem_b_Put:
  "CoordinatedProxy_Put mem_grpc mem_rand mem_proxy () (Some (put_request ''b'' ''v1'')) mem_empty =
     (Ok \<lparr>ps_Header = None, ps_PrevKv = None\<rparr>, mem_b)"
  unfolding mem_b_def
  using mem_Put [of "''b''" 0 mem_empty "mem_token 32 mem_empty" "''v1''"] mem_shard_left mem_rand_empty
  by (simp add: mem_empty_def)

lemma mem_dp [simp]:
  "dp_grpc mem_deployment = mem_grpc" "dp_rand mem_deployment = mem_rand" "dp_proxy mem_deployment = mem_proxy"
  by (simp_all add: mem_deployment_def)

lemma mem_empty_abs: "abs_view mem_deployment mem_empty = Map.empty"
  by (simp add: abs_view_def abs_of_def mem_deployment_def mem_empty_def fun_eq_iff)

lemma mem_b_outcome:
  "refs_resolve mem_deployment mem_b \<and> abs_view mem_deployment mem_b = [''b'' \<mapsto> ''v1'']"
  using Put_outcome [OF mem_environment mem_empty_resolves, of "()" "put_request ''b'' ''v1''"] mem_b_Put
  by (auto simp: outcome_def mem_empty_abs put_effect_def put_request_def)

section \<open>Refinement of one map\<close>

text \<open>
  C1. A put, whatever it returns, leaves every reference of the coordinator resolvable and the
  user's map either with the value under the key or unchanged; it is changed when the put returns
  without an error.
\<close>

theorem Put_refines:
  assumes "environment d" and "refs_resolve d w"
    and "CoordinatedProxy_Put (dp_grpc d) (dp_rand d) (dp_proxy d) ctx (Some q) w = (r, w')"
  shows "refs_resolve d w' \<and>
    (abs_view d w' = put_effect q (abs_view d w) \<or> abs_view d w' = abs_view d w \<and> \<not> accepted r)"
  using Put_outcome [OF assms] by (simp add: outcome_def)

theorem Put_refines_witness:
  "abs_view mem_deployment mem_b = [''b'' \<mapsto> ''v1'']"
  using Put_refines [OF mem_environment mem_empty_resolves, of "()" "put_request ''b'' ''v1''"] mem_b_Put
  by (simp add: mem_empty_abs put_effect_def put_request_def)

text \<open>
  C4. A delete, whatever it returns, removes from the user's map exactly the keys of its range or
  nothing; they are removed when it returns without an error.
\<close>

theorem DeleteRange_refines:
  assumes "environment d" and "refs_resolve d w"
    and "CoordinatedProxy_DeleteRange (dp_grpc d) (dp_proxy d) ctx (Some q) w = (r, w')"
  shows "refs_resolve d w' \<and>
    (abs_view d w' = delete_effect q (abs_view d w) \<or> abs_view d w' = abs_view d w \<and> \<not> accepted r)"
  using DeleteRange_outcome [OF assms] by (simp add: outcome_def)

definition mem_del :: "DeleteRangeRequest" where
  "mem_del = \<lparr>dr_Key = ''a'', dr_RangeEnd = ''c'', dr_PrevKv = False\<rparr>"

lemma mem_del_accepted:
  "accepted (fst (CoordinatedProxy_DeleteRange mem_grpc mem_proxy () (Some mem_del) mem_b))"
proof -
  have "shard mem_proxy ''a'' = Ok 0" by (simp add: shard_def mem_proxy_def mem_shards_def)
  then have m: "mutationShard mem_proxy (dr_Key mem_del) (dr_RangeEnd mem_del) = Ok 0"
    by (simp add: mutationShard_def coordinatedKeys_def mem_del_def mem_proxy_def mem_shards_def Let_def)
  obtain k e where ke: "coordinatedKeys (dr_Key mem_del) (dr_RangeEnd mem_del) = Ok (k, e)"
    by (simp add: mem_del_def)
  show ?thesis unfolding DeleteRange_eq [OF m ke]
    by (simp add: io_bind_def forwardUnary_def mem_backend mem_coordinator_def mem_client_def mem_delete_response_def
        mem_del_def mem_grpc_def io_return_def)
qed

theorem DeleteRange_refines_witness:
  "abs_view mem_deployment (snd (CoordinatedProxy_DeleteRange mem_grpc mem_proxy () (Some mem_del) mem_b)) = Map.empty"
proof -
  obtain r w' where rw: "CoordinatedProxy_DeleteRange mem_grpc mem_proxy () (Some mem_del) mem_b = (r, w')"
    by fastforce
  with mem_del_accepted have "accepted r" by simp
  with DeleteRange_refines [OF mem_environment, of mem_b "()" mem_del r w'] rw mem_b_outcome show ?thesis
    by (auto simp: delete_effect_def mem_del_def in_range_def noEnd_def)
qed

text \<open>
  C2. A transaction is atomic: it applies all operations of one branch, in order, to the user's map
  or leaves it unchanged; when it returns without an error, the branch is the one its answer names.
\<close>

theorem Txn_refines:
  assumes "environment d" and "refs_resolve d w"
    and "CoordinatedProxy_Txn (dp_grpc d) (dp_rand d) (dp_proxy d) ctx (Some q) w = (r, w')"
  shows "refs_resolve d w' \<and>
    (case r of
       Ok out \<Rightarrow>
         abs_view d w' = ops_effect (if txr_Succeeded out then txn_Success q else txn_Failure q) (abs_view d w)
     | _ \<Rightarrow> abs_view d w' \<in> {abs_view d w, ops_effect (txn_Success q) (abs_view d w),
                             ops_effect (txn_Failure q) (abs_view d w)})"
  using Txn_outcome [OF assms] by (simp add: txn_outcome_def)

text \<open>Create the key \<open>b\<close> if it does not exist.\<close>

definition mem_create :: TxnRequest where
  "mem_create =
     TxnRequest
       [Some \<lparr>cmp_Result = Compare_EQUAL, cmp_Target = Compare_VERSION, cmp_Key = ''b'',
              cmp_TargetUnion = TargetVersion 0, cmp_RangeEnd = []\<rparr>]
       [Some (RequestPut (Some (put_request ''b'' ''v1'')))] []"

lemma mem_create_Ok:
  "\<exists>rs w'. CoordinatedProxy_Txn mem_grpc mem_rand mem_proxy () (Some mem_create) mem_empty =
     (Ok (TxnResponse None True rs), w')"
proof -
  have "mutationShard mem_proxy ''b'' [] = Ok 0"
    using mem_shard_left by (simp add: mutationShard_def coordinatedKeys_def)
  then have v: "validateOps mem_proxy (-1) (txn_Success mem_create) = Ok 0"
    by (simp add: mem_create_def validateOp_def validateCoordinatedPut_def coordinatedKeys_def put_request_def)
  have st: "stagePut mem_grpc mem_rand mem_proxy () (put_request ''b'' ''v1'') mem_empty =
      (Ok (put_request (CoordinatedMetadataPrefix @ ''b'')
          (Marshal_ref \<lparr>ref_Shard = 0, ref_Key = CoordinatedBlobPrefix @ hex_encode (mem_token 32 mem_empty)\<rparr>)),
       mem_empty\<lparr>mem_blobs := [[(CoordinatedBlobPrefix @ hex_encode (mem_token 32 mem_empty), ''v1'')], []], mem_drawn := 1\<rparr>)"
    using mem_stagePut [of "''b''" 0 mem_empty "mem_token 32 mem_empty" "''v1''"] mem_shard_left mem_rand_empty
    by (simp add: mem_empty_def)
  from v show ?thesis
    by (simp add: CoordinatedProxy_Txn_def mem_create_def rewriteCompare_def coordinatedKeys_def stageOp_def
        io_bind_step st)
      (simp add: io_bind_def io_return_def forwardUnary_def mem_backend mem_coordinator_def mem_client_def
        mem_empty_def mem_compare_def mem_op_def mem_grpc_def decodeResponse_def decodeKV_def Let_def)
qed

theorem Txn_refines_witness:
  "abs_view mem_deployment (snd (CoordinatedProxy_Txn mem_grpc mem_rand mem_proxy () (Some mem_create) mem_empty)) =
     [''b'' \<mapsto> ''v1'']"
proof -
  obtain rs w' where rw: "CoordinatedProxy_Txn mem_grpc mem_rand mem_proxy () (Some mem_create) mem_empty =
     (Ok (TxnResponse None True rs), w')" using mem_create_Ok by blast
  with Txn_refines [OF mem_environment mem_empty_resolves, of "()" mem_create] show ?thesis
    by (simp add: mem_create_def ops_effect_def op_effect_def put_effect_def put_request_def mem_empty_abs)
qed

text \<open>The answer to a get is the key with its value.\<close>

lemma range_answer_single:
  assumes "range_answer (get_request k) m kvs" and "m k = Some v"
  shows "\<exists>kv. kvs = [kv] \<and> kv_Key kv = k \<and> kv_Value kv = v"
proof -
  have each: "kv_Key kv = k \<and> kv_Value kv = v" if "kv \<in> set kvs" for kv
    using assms that by (auto simp: range_answer_def get_request_def)
  have ne: "kvs \<noteq> []" using assms by (auto simp: range_answer_def get_request_def)
  have d: "distinct (map kv_Key kvs)" using assms(1) by (simp add: range_answer_def)
  obtain kv rest where kvs: "kvs = kv # rest" using ne by (cases kvs) auto
  have "rest = []"
    by (cases rest) (use d kvs each [of kv] each [of "hd rest"] in auto)
  with kvs each [of kv] show ?thesis by simp
qed

text \<open>
  C3. A successful linearizable read (current revision, not serializable) answers for the user's map: only
  keys of the range, each once, each with its current value (or none with keys-only), and without limit and
  filters every key of the range.
\<close>

theorem Range_refines:
  assumes "environment d" and "refs_resolve d w"
    and "CoordinatedProxy_Range (dp_grpc d) (dp_proxy d) ctx (Some q) w = (Ok out, w')"
    and "linearizable q"
  shows "range_answer q (abs_view d w) (rs_Kvs out) \<and> abs_view d w' = abs_view d w"
  using Range_answers [OF assms] preservesD [OF Range_preserves [OF assms(1)] _ assms(3), of w]
  by (simp add: same_views_def abs_view_def)

lemma mem_up: "shards_up mem_deployment ()"
proof -
  have "cp_clients mem_proxy ! i = mem_shard i" if "i < length (cp_clients mem_proxy)" for i
    using that by (auto simp: mem_proxy_def less_Suc_eq numeral_2_eq_2)
  then show ?thesis by (simp add: shards_up_def rpc_call_def mem_shard_def mem_client_def)
qed

lemma mem_read:
  obtains out w' where
    "CoordinatedProxy_Range mem_grpc mem_proxy () (Some (get_request ''b'')) mem_b = (Ok out, w')"
proof -
  have "accepted (fst (CoordinatedProxy_Range mem_grpc mem_proxy () (Some (get_request ''b'')) mem_b))"
    using Range_accepted [OF mem_environment _ mem_up, of mem_b "get_request ''b''"] mem_b_outcome
    by (simp add: rangeRequest_def get_request_def linearizable_def coordinatedKeys_def mem_backend rpc_call_def
        mem_coordinator_def mem_client_def)
  then show thesis using that by (auto simp: accepted_def) (metis prod.collapse)
qed

theorem Range_refines_witness:
  "\<exists>out w' kv. CoordinatedProxy_Range mem_grpc mem_proxy () (Some (get_request ''b'')) mem_b = (Ok out, w') \<and>
     rs_Kvs out = [kv] \<and> kv_Key kv = ''b'' \<and> kv_Value kv = ''v1''"
proof -
  obtain out w' where r: "CoordinatedProxy_Range mem_grpc mem_proxy () (Some (get_request ''b'')) mem_b = (Ok out, w')"
    by (rule mem_read)
  have "range_answer (get_request ''b'') [''b'' \<mapsto> ''v1''] (rs_Kvs out)"
    using Range_refines [OF mem_environment, of mem_b "()" "get_request ''b''" out w'] r mem_b_outcome
    by simp
  with r show ?thesis using range_answer_single [of "''b''" "[''b'' \<mapsto> ''v1'']"] by auto
qed

text \<open>
  C8. A valid linearizable read (a key is given, no sorting by value, current revision, not serializable)
  fails only when a cluster does: if the coordinator answers the rewritten request and the shards answer every
  get, the proxy answers, and never reports data loss.
\<close>

theorem Range_available:
  assumes "environment d" and "refs_resolve d w" and "shards_up d ctx"
    and "rr_Key q \<noteq> []" "rr_SortTarget q \<noteq> RangeRequest_VALUE" "linearizable q"
    and "\<And>q'. rangeRequest (Some q) = Ok q' \<Longrightarrow> accepted (fst (rpc_call (KV_Range (bp_kv (cp_backend (dp_proxy d))))
      (backendContext (dp_grpc d) ctx) q' w))"
  shows "\<exists>out w'. CoordinatedProxy_Range (dp_grpc d) (dp_proxy d) ctx (Some q) w = (Ok out, w')"
proof -
  obtain q' where q': "rangeRequest (Some q) = Ok q'" using assms(4,5) by (simp add: rangeRequest_def coordinatedKeys_def)
  from Range_accepted [OF assms(1-3) q' assms(6) assms(7) [OF q']] show ?thesis
    unfolding accepted_def by (metis prod.collapse)
qed

theorem Range_available_witness:
  "\<exists>out w'. CoordinatedProxy_Range mem_grpc mem_proxy () (Some (get_request ''b'')) mem_b = (Ok out, w')"
proof -
  have "rr_Key (get_request ''b'') \<noteq> []" "rr_SortTarget (get_request ''b'') \<noteq> RangeRequest_VALUE"
    by (simp_all add: get_request_def)
  from Range_available [OF mem_environment conjunct1 [OF mem_b_outcome] mem_up this linearizable_simps(1)] show ?thesis
    by (simp add: mem_backend rpc_call_def mem_coordinator_def mem_client_def)
qed

text \<open>
  C5. Along every history of reads, writes, deletes and transactions, with any results, the
  references stay resolvable and the user's map is one that the requests allow, in their order.
\<close>

theorem history_refines:
  assumes "environment d" and "refs_resolve d w"
  shows "refs_resolve d (fold (serve (d, ctx)) reqs w) \<and>
    abs_view d (fold (serve (d, ctx)) reqs w) \<in> histories request_effects reqs (abs_view d w)"
  using coordinated.run_invar [of "(d, ctx)" w reqs] coordinated.run_simulates [of "(d, ctx)" w reqs] assms
  by simp

theorem history_refines_witness:
  "abs_view mem_deployment (fold (serve (mem_deployment, ()))
       [ReqPut (put_request ''b'' ''v1''), ReqRange (get_request ''b''), ReqDelete mem_del] mem_empty)
     \<in> {Map.empty, [''b'' \<mapsto> ''v1'']}"
  using history_refines [OF mem_environment mem_empty_resolves, of "()"
      "[ReqPut (put_request ''b'' ''v1''), ReqRange (get_request ''b''), ReqDelete mem_del]"]
  by (auto simp: request_effects_def mem_empty_abs put_effect_def put_request_def delete_effect_def mem_del_def
      in_range_def noEnd_def)

text \<open>
  C9. Read your write: after a successful put of a value, a successful get of the key returns that
  one value.
\<close>

theorem read_your_write:
  assumes d: "environment d" "refs_resolve d w"
    and put: "CoordinatedProxy_Put (dp_grpc d) (dp_rand d) (dp_proxy d) ctx (Some (put_request k v)) w = (Ok out, w1)"
    and get: "CoordinatedProxy_Range (dp_grpc d) (dp_proxy d) ctx' (Some (get_request k)) w1 = (Ok res, w2)"
  shows "\<exists>kv. rs_Kvs res = [kv] \<and> kv_Key kv = k \<and> kv_Value kv = v"
proof -
  have w1: "refs_resolve d w1" "abs_view d w1 k = Some v"
    using Put_outcome [OF d put] by (auto simp: outcome_def put_effect_def put_request_def)
  have "range_answer (get_request k) (abs_view d w1) (rs_Kvs res)"
    using Range_answers [OF d(1) w1(1) get] by simp
  from range_answer_single [OF this w1(2)] show ?thesis .
qed

theorem read_your_write_witness:
  "\<exists>res w'. CoordinatedProxy_Range mem_grpc mem_proxy () (Some (get_request ''b'')) mem_b = (Ok res, w') \<and>
     map kv_Value (rs_Kvs res) = [''v1'']"
proof -
  obtain out w' where r: "CoordinatedProxy_Range mem_grpc mem_proxy () (Some (get_request ''b'')) mem_b = (Ok out, w')"
    by (rule mem_read)
  with read_your_write [OF mem_environment mem_empty_resolves, of "()" "''b''" "''v1''" _ mem_b "()" out w'] mem_b_Put
  show ?thesis by auto
qed

section \<open>Routing\<close>




text \<open>
  C10. A mutation of a key range is accepted for a shard exactly when the whole range routes to that
  shard: nothing that would touch two shards is let through, and nothing else is turned down.
\<close>

theorem mutation_confined:
  assumes "valid_routing p" and "key \<noteq> []"
  shows "mutationShard p key rangeEnd = Ok i \<longleftrightarrow>
    shard p key = Ok i \<and> (\<forall>u. in_range u key rangeEnd \<longrightarrow> shard p u = Ok i)"
  using assms by (rule mutationShard_exact)

theorem mutation_confined_witness:
  "mutationShard mem_proxy ''b'' ''n'' \<noteq> Ok 0 \<and> mutationShard mem_proxy ''b'' ''m'' = Ok 0"
proof
  have m: "shard mem_proxy ''m'' = Ok 1" "in_range ''m'' ''b'' ''n''"
    by (simp_all add: shard_def mem_proxy_def mem_shards_def in_range_def noEnd_def)
  then show "mutationShard mem_proxy ''b'' ''n'' \<noteq> Ok 0"
    using mutation_confined [OF mem_routing, of "''b''" "''n''" 0] by force
  have "shard mem_proxy u = Ok 0" if "in_range u ''b'' ''m''" for u
    using that by (simp add: shard_def mem_proxy_def mem_shards_def in_range_def noEnd_def)
  then show "mutationShard mem_proxy ''b'' ''m'' = Ok 0"
    using mutation_confined [OF mem_routing, of "''b''" "''m''" 0] mem_shard_left by simp
qed

text \<open>
  C11. A transaction whose operations, over both branches, mutate keys of two shards is rejected with
  \<open>InvalidArgument\<close> before anything is written anywhere.
\<close>

theorem Txn_cross_shard_rejected:
  assumes "valid_routing p"
    and "op1 \<in> set (txn_Success q) \<union> set (txn_Failure q)" "op_mutates op1 u1"
    and "op2 \<in> set (txn_Success q) \<union> set (txn_Failure q)" "op_mutates op2 u2"
    and "shard p u1 \<noteq> shard p u2"
  shows "\<exists>msg. CoordinatedProxy_Txn g rand_read p ctx (Some q) w = (Err (Status InvalidArgument msg), w)"
proof (rule Txn_invalid_rejected [OF assms(1)])
  show "\<not> txn_valid p q"
    using txn_valid_one_shard [OF assms(1), of q] assms(2-) by metis
qed

theorem Txn_cross_shard_rejected_witness:
  "\<exists>msg. CoordinatedProxy_Txn mem_grpc mem_rand mem_proxy ()
     (Some (TxnRequest [] [Some (RequestPut (Some (put_request ''b'' ''v'')))]
                          [Some (RequestPut (Some (put_request ''x'' ''v'')))])) mem_empty =
     (Err (Status InvalidArgument msg), mem_empty)"
  by (rule Txn_cross_shard_rejected [OF mem_routing,
        where ?op1.0 = "Some (RequestPut (Some (put_request ''b'' ''v'')))" and ?u1.0 = "''b''"
          and ?op2.0 = "Some (RequestPut (Some (put_request ''x'' ''v'')))" and ?u2.0 = "''x''"])
    (simp_all add: op_mutates_def put_request_def mem_shard_left mem_shard_right)

text \<open>
  The rewriting of a user range to a range of the coordinator is exact: the coordinator's range
  holds the metadata keys of the user keys in the range, and no other key of the coordinator.
\<close>

theorem metadata_range_exact:
  assumes "coordinatedKeys key rangeEnd = Ok (k, e)"
  shows "in_range m k e \<longleftrightarrow> (\<exists>u. m = CoordinatedMetadataPrefix @ u \<and> in_range u key rangeEnd)"
  using assms by (rule coordinatedKeys_in_range)

theorem metadata_range_exact_witness:
  "\<not> in_range coordinatedConfigKey ''/__etcd_sharding/keys/a'' ''/__etcd_sharding/keys0''"
  using metadata_range_exact [of "''a''" noEnd "''/__etcd_sharding/keys/a''" "''/__etcd_sharding/keys0''" coordinatedConfigKey]
  by (simp add: coordinatedKeys_def noEnd_def CoordinatedMetadataPrefix_def coordinatedConfigKey_def)

section \<open>Values\<close>

text \<open>
  C18. The reference that staging a value publishes decodes to the shard and the blob key it was made
  from, for every token and any number of shards an \<open>int\<close> can count.
\<close>

theorem reference_roundtrip:
  assumes "i < n" and "int n < 2 ^ 63"
  shows "valid_ref n (Marshal_ref \<lparr>ref_Shard = int i, ref_Key = CoordinatedBlobPrefix @ hex_encode token\<rparr>) =
    Some \<lparr>ref_Shard = int i, ref_Key = CoordinatedBlobPrefix @ hex_encode token\<rparr>"
  using assms by (rule valid_ref_Marshal)

theorem reference_roundtrip_witness:
  "valid_ref 2 (Marshal_ref \<lparr>ref_Shard = int 1, ref_Key = CoordinatedBlobPrefix @ hex_encode [CHR 0xFF]\<rparr>) =
    Some \<lparr>ref_Shard = int 1, ref_Key = CoordinatedBlobPrefix @ hex_encode [CHR 0xFF]\<rparr>"
  by (rule reference_roundtrip) simp_all

text \<open>
  C19. Reading fails closed: in a successful answer every pair of the coordinator appears once, in the
  same order, with its revisions, version and lease, under the user's key; no pair is dropped and
  none is passed on with its reference in place of a value.
\<close>

theorem Range_complete:
  assumes "CoordinatedProxy_Range g p ctx (Some q) w = (Ok out, w')"
  shows "\<exists>q' raw w1. rangeRequest (Some q) = Ok q' \<and>
    forwardUnary g ctx q' (KV_Range (bp_kv (cp_backend p))) w = (Ok raw, w1) \<and>
    list_all2 (decoded (rr_KeysOnly q)) (rs_Kvs raw) (rs_Kvs out) \<and>
    (\<not> rr_KeysOnly q \<longrightarrow> list_all2 (\<lambda>kv kv'. \<exists>v v'. blob_read g p ctx (kv_Value kv) v (kv_Value kv') v')
       (rs_Kvs raw) (rs_Kvs out)) \<and>
    rs_Count out = rs_Count raw \<and> rs_More out = rs_More raw \<and> rs_Header out = rs_Header raw"
proof -
  obtain q' k e raw w1 where q: "Some q = Some q'" "rr_SortTarget q' \<noteq> RangeRequest_VALUE"
    and keys: "coordinatedKeys (rr_Key q') (rr_RangeEnd q') = Ok (k, e)"
    and f: "forwardUnary g ctx (q'\<lparr>rr_Key := k, rr_RangeEnd := e\<rparr>) (KV_Range (bp_kv (cp_backend p))) w = (Ok raw, w1)"
    and dec: "io_map (decode_kv g p ctx (rr_KeysOnly q')) (rs_Kvs raw) w1 = (Ok (rs_Kvs out), w')"
    and out: "out = raw\<lparr>rs_Kvs := rs_Kvs out\<rparr>"
    by (rule Range_Ok [OF assms])
  have "rangeRequest (Some q) = Ok (q'\<lparr>rr_Key := k, rr_RangeEnd := e\<rparr>)"
    using q keys by (simp add: rangeRequest_def del: coordinatedKeys_Ok)
  moreover have "list_all2 (decoded (rr_KeysOnly q)) (rs_Kvs raw) (rs_Kvs out)"
    using decode_kvs_Ok [OF dec] q(1) by simp
  moreover have "list_all2 (\<lambda>kv kv'. \<exists>v v'. blob_read g p ctx (kv_Value kv) v (kv_Value kv') v') (rs_Kvs raw) (rs_Kvs out)"
    if "\<not> rr_KeysOnly q"
    using dec by (rule io_map_Ok_pointwise) (use decode_kv_Ok that q(1) in fastforce)
  moreover have "rs_Count out = rs_Count raw" "rs_More out = rs_More raw" "rs_Header out = rs_Header raw"
    using arg_cong [OF out, of rs_Count] arg_cong [OF out, of rs_More] arg_cong [OF out, of rs_Header] by simp_all
  ultimately show ?thesis using f by blast
qed

theorem Range_complete_witness:
  "\<exists>out w' raw. CoordinatedProxy_Range mem_grpc mem_proxy () (Some (get_request ''b'')) mem_b = (Ok out, w') \<and>
     fst (rpc_call (KV_Range mem_coordinator) () (get_request ''/__etcd_sharding/keys/b'') mem_b) = Ok raw \<and>
     list_all2 (decoded False) (rs_Kvs raw) (rs_Kvs out)"
proof -
  obtain out w' where r: "CoordinatedProxy_Range mem_grpc mem_proxy () (Some (get_request ''b'')) mem_b = (Ok out, w')"
    by (rule mem_read)
  have q: "rangeRequest (Some (get_request ''b'')) = Ok (get_request ''/__etcd_sharding/keys/b'')"
    by (simp add: rangeRequest_def get_request_def coordinatedKeys_def CoordinatedMetadataPrefix_def)
  have "rr_KeysOnly (get_request ''b'') = False" by (simp add: get_request_def)
  with Range_complete [OF r] q r show ?thesis
    by (auto simp: forwardUnary_def mem_backend rpc_call_def Let_def mem_grpc_def backendContext_def split: prod.splits)
qed

text \<open>
  Requests the coordinated mode does not serve: a missing body or an empty key, a flag that contradicts a field,
  sorting or comparing by value, a mutation of keys of two shards, an operation of a transaction that is
  missing, nested or unset.
\<close>

definition malformed_put :: "PutRequest option \<Rightarrow> bool" where
  "malformed_put v \<longleftrightarrow>
     (case v of None \<Rightarrow> True
      | Some q \<Rightarrow> pr_Key q = [] \<or> pr_IgnoreValue q \<and> pr_Value q \<noteq> [] \<or> pr_IgnoreLease q \<and> pr_Lease q \<noteq> 0)"

definition malformed_range :: "RangeRequest option \<Rightarrow> bool" where
  "malformed_range v \<longleftrightarrow>
     (case v of None \<Rightarrow> True | Some q \<Rightarrow> rr_Key q = [] \<or> rr_SortTarget q = RangeRequest_VALUE)"

definition malformed_delete :: "('conn, 'c, 'm, 'w) CoordinatedProxy \<Rightarrow> DeleteRangeRequest option \<Rightarrow> bool" where
  "malformed_delete p v \<longleftrightarrow>
     (case v of None \<Rightarrow> True
      | Some q \<Rightarrow> dr_Key q = [] \<or> (\<exists>u. in_range u (dr_Key q) (dr_RangeEnd q) \<and> shard p u \<noteq> shard p (dr_Key q)))"

definition malformed_compare :: "Compare option \<Rightarrow> bool" where
  "malformed_compare v \<longleftrightarrow> (case v of None \<Rightarrow> True | Some c \<Rightarrow> cmp_Key c = [] \<or> cmp_Target c = Compare_VALUE)"

definition malformed_op :: "('conn, 'c, 'm, 'w) CoordinatedProxy \<Rightarrow> RequestOp option \<Rightarrow> bool" where
  "malformed_op p op \<longleftrightarrow>
     (case op of
        Some (RequestRange v) \<Rightarrow> malformed_range v
      | Some (RequestPut v) \<Rightarrow> malformed_put v
      | Some (RequestDeleteRange v) \<Rightarrow> malformed_delete p v
      | _ \<Rightarrow> True)"

definition malformed_txn :: "('conn, 'c, 'm, 'w) CoordinatedProxy \<Rightarrow> TxnRequest option \<Rightarrow> bool" where
  "malformed_txn p v \<longleftrightarrow>
     (case v of None \<Rightarrow> True
      | Some q \<Rightarrow> list_ex malformed_compare (txn_Compare q) \<or> list_ex (malformed_op p) (txn_Success q @ txn_Failure q))"

lemma malformed_put_iff: "malformed_put v \<longleftrightarrow> rejected (validateCoordinatedPut v)"
  using decided_validateCoordinatedPut [of v] validateCoordinatedPut_Ok [of v]
  by (auto simp: malformed_put_def decided_def accepted_def dest: rejected_not_Ok split: option.splits)

lemma malformed_range_iff: "malformed_range v \<longleftrightarrow> rejected (rangeRequest v)"
  by (cases v) (auto simp: malformed_range_def rangeRequest_def coordinatedKeys_def dest: rejected_not_Ok)

lemma malformed_delete_iff:
  assumes p: "valid_routing p"
  shows "malformed_delete p (Some q) \<longleftrightarrow> rejected (mutationShard p (dr_Key q) (dr_RangeEnd q))"
proof (cases "dr_Key q = []")
  case True
  then show ?thesis by (simp add: malformed_delete_def mutationShard_def coordinatedKeys_empty rejected_def coordinatedInvalid_def)
next
  case False
  obtain i where i: "shard p (dr_Key q) = Ok i" by (rule shard_Ok [OF p, of "dr_Key q"])
  have "(\<exists>j. mutationShard p (dr_Key q) (dr_RangeEnd q) = Ok j) \<longleftrightarrow> \<not> malformed_delete p (Some q)"
    using mutationShard_exact [OF p False, of "dr_RangeEnd q"] False i by (auto simp: malformed_delete_def)
  with decided_mutationShard [OF p, of "dr_Key q" "dr_RangeEnd q"] show ?thesis
    by (auto simp: decided_def accepted_def dest: rejected_not_Ok)
qed

lemma malformed_op_rejected:
  assumes "valid_routing p" and "malformed_op p op"
  shows "\<not> accepted (validateOp p op)"
  using assms(2) malformed_put_iff malformed_range_iff malformed_delete_iff [OF assms(1)]
  by (auto simp: malformed_op_def validateOp_def accepted_def res_bind_eq_Ok malformed_delete_def [of p None]
      dest: rejected_not_Ok split: option.splits RequestOp.splits)

lemma malformed_compare_rejected:
  "list_ex malformed_compare cs \<Longrightarrow> \<not> accepted (rewriteCompares cs)"
  by (induction cs)
    (auto simp: malformed_compare_def rewriteCompare_def coordinatedKeys_def accepted_def res_bind_eq_Ok
      split: option.splits if_splits)

lemma malformed_txn_invalid:
  assumes p: "valid_routing p" and "malformed_txn p (Some q)"
  shows "\<not> txn_valid p q"
proof
  assume v: "txn_valid p q"
  then obtain m m' where "validateOps p (-1) (txn_Success q) = Ok m" "validateOps p m (txn_Failure q) = Ok m'"
    by (auto simp: txn_valid_def accepted_def res_bind_eq_Ok)
  then have "accepted (validateOp p op)" if "op \<in> set (txn_Success q @ txn_Failure q)" for op
    using that validateOps_accepted by fastforce
  with malformed_op_rejected [OF p] have "\<not> list_ex (malformed_op p) (txn_Success q @ txn_Failure q)"
    unfolding list_ex_iff by blast
  with assms(2) v malformed_compare_rejected show False by (auto simp: malformed_txn_def txn_valid_def)
qed

text \<open>
  C22. Requests the coordinated mode does not serve have no effect. A put without body or key, with
  \<open>IgnoreValue\<close> and a value or with \<open>IgnoreLease\<close> and a lease; a read without body or key or sorted by value; a
  delete without body or key or with a key in its range that routes to another shard; a transaction without body,
  with a missing comparison, one without key or by value, or with an operation that is missing, nested,
  unset or one of the above: the handler returns \<open>InvalidArgument\<close> and makes no call at all.
\<close>

theorem rejected_without_effect:
  assumes "valid_routing p"
  shows "(malformed_put put \<longrightarrow>
      (\<exists>msg. CoordinatedProxy_Put g rand_read p ctx put w = (Err (Status InvalidArgument msg), w))) \<and>
   (malformed_range rng \<longrightarrow>
      (\<exists>msg. CoordinatedProxy_Range g p ctx rng w = (Err (Status InvalidArgument msg), w))) \<and>
   (malformed_delete p del \<longrightarrow>
      (\<exists>msg. CoordinatedProxy_DeleteRange g p ctx del w = (Err (Status InvalidArgument msg), w))) \<and>
   (malformed_txn p txn \<longrightarrow>
      (\<exists>msg. CoordinatedProxy_Txn g rand_read p ctx txn w = (Err (Status InvalidArgument msg), w)))"
proof (intro conjI impI)
  assume "malformed_put put"
  then have "rejected (validateCoordinatedPut put)" by (simp add: malformed_put_iff)
  then show "\<exists>msg. CoordinatedProxy_Put g rand_read p ctx put w = (Err (Status InvalidArgument msg), w)"
    unfolding CoordinatedProxy_Put_def by (rule io_lift_rejected)
next
  assume "malformed_range rng"
  then have "rejected (rangeRequest rng)" by (simp add: malformed_range_iff)
  then show "\<exists>msg. CoordinatedProxy_Range g p ctx rng w = (Err (Status InvalidArgument msg), w)"
    unfolding CoordinatedProxy_Range_def by (rule io_lift_rejected)
next
  assume m: "malformed_delete p del"
  show "\<exists>msg. CoordinatedProxy_DeleteRange g p ctx del w = (Err (Status InvalidArgument msg), w)"
  proof (cases del)
    case (Some q)
    with m have "rejected (mutationShard p (dr_Key q) (dr_RangeEnd q))" by (simp add: malformed_delete_iff [OF assms])
    then show ?thesis unfolding CoordinatedProxy_DeleteRange_def Some option.case by (rule io_lift_rejected)
  qed (simp add: CoordinatedProxy_DeleteRange_def io_err_def coordinatedInvalid_def)
next
  assume m: "malformed_txn p txn"
  show "\<exists>msg. CoordinatedProxy_Txn g rand_read p ctx txn w = (Err (Status InvalidArgument msg), w)"
  proof (cases txn)
    case (Some q)
    with m show ?thesis by (simp add: Txn_invalid_rejected [OF assms] malformed_txn_invalid [OF assms])
  qed (simp add: CoordinatedProxy_Txn_def io_err_def coordinatedInvalid_def)
qed

text \<open>A delete of \<open>a\<close> to \<open>z\<close> touches both shards; a put of an empty key.\<close>

theorem rejected_without_effect_witness:
  "(\<exists>msg. CoordinatedProxy_Put mem_grpc mem_rand mem_proxy () (Some (put_request [] ''v'')) mem_b =
     (Err (Status InvalidArgument msg), mem_b)) \<and>
   (\<exists>msg. CoordinatedProxy_DeleteRange mem_grpc mem_proxy ()
       (Some \<lparr>dr_Key = ''b'', dr_RangeEnd = ''z'', dr_PrevKv = False\<rparr>) mem_b = (Err (Status InvalidArgument msg), mem_b))"
proof -
  have "malformed_put (Some (put_request [] ''v''))" by (simp add: malformed_put_def put_request_def)
  moreover have "in_range ''x'' ''b'' ''z''" by (simp add: in_range_def noEnd_def)
  then have "malformed_delete mem_proxy (Some \<lparr>dr_Key = ''b'', dr_RangeEnd = ''z'', dr_PrevKv = False\<rparr>)"
    using mem_shard_left mem_shard_right by (force simp: malformed_delete_def)
  ultimately show ?thesis
    using rejected_without_effect [OF mem_routing, where put = "Some (put_request [] ''v'')" and g = mem_grpc and rand_read = mem_rand
        and ctx = "()" and w = mem_b and del = "Some \<lparr>dr_Key = ''b'', dr_RangeEnd = ''z'', dr_PrevKv = False\<rparr>"] by blast
qed

text \<open>
  C39. The value is stored before the reference is published: when the put of the blob to the shard that owns the
  key fails, the handler returns that error with the world as the failed put left it, so the coordinator is
  never called.
\<close>

theorem blob_failure_stops_put:
  assumes "valid_routing p" and "\<not> malformed_put (Some q)" "\<not> pr_IgnoreValue q"
    and "rand_read 32 w = (Ok token, w1)" and "shard p (pr_Key q) = Ok i"
    and "rpc_call (KV_Put (cp_clients p ! i)) (backendContext g ctx)
      (put_request (CoordinatedBlobPrefix @ hex_encode token) (pr_Value q)) w1 = (Err e, w2)"
  shows "CoordinatedProxy_Put g rand_read p ctx (Some q) w = (Err e, w2)"
proof -
  have valid: "validateCoordinatedPut (Some q) = Ok ()" and key: "pr_Key q \<noteq> []"
    using assms(2) by (auto simp: malformed_put_def validateCoordinatedPut_Ok)
  show ?thesis
    using assms(3-) by (simp add: Put_eq [OF valid] stagePut_cases [OF assms(1) key assms(5)] io_bind_step)
qed

text \<open>A deployment whose shards are gone.\<close>

definition mem_gone :: mem where
  "mem_gone = \<lparr>mem_meta = [], mem_blobs = [], mem_drawn = 0\<rparr>"

theorem blob_failure_stops_put_witness:
  "CoordinatedProxy_Put mem_grpc mem_rand mem_proxy () (Some (put_request ''b'' ''v'')) mem_gone =
     (Err (Status Unavailable ''down''), mem_gone\<lparr>mem_drawn := 1\<rparr>)"
proof (rule blob_failure_stops_put [OF mem_routing, where i = 0 and ?w1.0 = "mem_gone\<lparr>mem_drawn := 1\<rparr>"
      and token = "mem_token 32 mem_gone"])
  show "rpc_call (KV_Put (cp_clients mem_proxy ! 0)) (backendContext mem_grpc ())
      (put_request (CoordinatedBlobPrefix @ hex_encode (mem_token 32 mem_gone))
        (pr_Value (put_request ''b'' ''v''))) (mem_gone\<lparr>mem_drawn := 1\<rparr>) =
      (Err (Status Unavailable ''down''), mem_gone\<lparr>mem_drawn := 1\<rparr>)"
    by (simp add: rpc_call_def mem_proxy_def mem_shard_def mem_client_def mem_down_def mem_gone_def)
qed (simp_all add: malformed_put_def put_request_def mem_rand_def mem_shard_left mem_gone_def)

end
