(* ===== verification/Route_Encoding.thy ===== *)
theory Route_Encoding
  imports Coordinated_Proxy
begin

text \<open>
  The JSON text that \<open>NewCoordinatedProxy\<close> hashes determines the routes: two routing tables with the same
  text have the same range bounds and endpoints with the same JSON. An encoded string ends at
  its first unescaped quote (\<open>scan_json_body\<close>) and base64 is injective (\<open>base64_inj\<close>), so the text of a
  route can be told from what follows it. Endpoints that are not valid UTF-8 can share their JSON, since
  \<open>encoding/json\<close> writes every invalid byte the same way.
\<close>

section \<open>Strings\<close>

lemma scan_high:
  "(\<And>c. c \<in> set u \<Longrightarrow> 128 \<le> byte c) \<Longrightarrow> scan_string (u @ s) = map_option (apfst ((@) u)) (scan_string s)"
proof (induction u)
  case Nil
  then show ?case by (cases "scan_string s") auto
next
  case (Cons c u)
  have "128 \<le> byte c" using Cons.prems by simp
  then have "c \<noteq> QUOTE" "c \<noteq> BSLASH" "\<not> byte c < 32" by (auto simp: QUOTE_def BSLASH_def)
  then show ?case using Cons by (cases "scan_string s") auto
qed

lemma utf8_width_high:
  assumes "128 \<le> byte c" and "x \<in> set (take (utf8_width (c # cs)) (c # cs))"
  shows "128 \<le> byte x"
  using assms by (auto simp: cont_byte_def Let_def split: if_splits list.splits)

lemma hex_val_digit: "d < 16 \<Longrightarrow> hex_val (hex_digit d) = Some d"
  by (auto simp: hex_val_def hex_digit_def is_digit_def)

lemma hex_val_lit: "hex_val CHR ''0'' = Some 0" "hex_val CHR ''2'' = Some 2" "hex_val CHR ''8'' = Some 8"
  "hex_val CHR ''9'' = Some 9" "hex_val CHR ''f'' = Some 15" "hex_val CHR ''d'' = Some 13"
  by (simp_all add: hex_val_def is_digit_def)

lemma scan_escape: "scan_string (json_escape c @ s) = map_option (apfst ((@) (json_escape c))) (scan_string s)"
  by (cases "scan_string s") (auto simp: json_escape_def hex4_def hex_val_digit hex_val_lit QUOTE_def BSLASH_def)

lemma scan_json_body: "scan_string (json_body s @ QUOTE # r) = Some (json_body s, r)"
proof (induction s rule: json_body.induct)
  case (2 c cs)
  let ?n = "utf8_width (c # cs)"
  consider (safe) "byte c < 128" "json_safe c" | (escaped) "byte c < 128" "\<not> json_safe c"
    | (invalid) "128 \<le> byte c" "?n = 0" | (rune) "128 \<le> byte c" "?n \<noteq> 0" by linarith
  then show ?case
  proof cases
    case safe
    with 2(1) show ?thesis by (simp add: json_safe_props)
  next
    case escaped
    with 2(1) show ?thesis by (simp add: scan_escape)
  next
    case invalid
    with 2(2) show ?thesis
      by (simp add: Let_def hex4_def hex_val_lit) (simp add: BSLASH_def QUOTE_def)
  next
    case rune
    let ?u = "take ?n (c # cs)" and ?rest = "drop ?n (c # cs)"
    have high: "scan_string (?u @ x) = map_option (apfst ((@) ?u)) (scan_string x)" for x
      by (rule scan_high) (rule utf8_width_high [OF rune(1)])
    have uni: "scan_string ([BSLASH] @ ''u202'' @ [d] @ x) = map_option (apfst ((@) ([BSLASH] @ ''u202'' @ [d]))) (scan_string x)"
      if "d \<in> {CHR ''8'', CHR ''9''}" for d x
      using that by (cases "scan_string x") (auto simp: hex4_def hex_val_lit BSLASH_def QUOTE_def)
    have lt: "\<not> byte c < 128" using rune(1) by simp
    consider (ls) "map byte ?u = [226, 128, 168]" | (ps) "map byte ?u = [226, 128, 169]"
      | (plain) "map byte ?u \<noteq> [226, 128, 168]" "map byte ?u \<noteq> [226, 128, 169]" by blast
    then show ?thesis
    proof cases
      case ls
      have eq: "json_body (c # cs) = ([BSLASH] @ ''u202'' @ [CHR ''8'']) @ json_body ?rest"
        unfolding json_body.simps Let_def if_not_P [OF lt] if_not_P [OF rune(2)] if_P [OF ls] by simp
      from 2(3) [OF lt refl refl rune(2) ls] uni [of "CHR ''8''"] show ?thesis unfolding eq by simp
    next
      case ps
      have ls: "map byte ?u \<noteq> [226, 128, 168]" unfolding ps by simp
      have eq: "json_body (c # cs) = ([BSLASH] @ ''u202'' @ [CHR ''9'']) @ json_body ?rest"
        unfolding json_body.simps Let_def if_not_P [OF lt] if_not_P [OF rune(2)] if_not_P [OF ls] if_P [OF ps] by simp
      from 2(4) [OF lt refl refl rune(2) ls ps] uni [of "CHR ''9''"] show ?thesis unfolding eq by simp
    next
      case plain
      have eq: "json_body (c # cs) = ?u @ json_body ?rest"
        unfolding json_body.simps Let_def if_not_P [OF lt] if_not_P [OF rune(2)] if_not_P [OF plain(1)] if_not_P [OF plain(2)] ..
      from 2(5) [OF lt refl refl rune(2) plain] high show ?thesis unfolding eq by simp
    qed
  qed
qed simp

lemma json_string_unique:
  assumes "json_string s @ x = json_string t @ y"
  shows "json_body s = json_body t \<and> x = y"
proof -
  have "json_body s @ QUOTE # x = json_body t @ QUOTE # y" using assms by (simp add: json_string_def)
  from arg_cong [OF this, of scan_string] show ?thesis by (simp add: scan_json_body)
qed

section \<open>Byte slices\<close>

lemma base64_digit_byte: "d < 64 \<Longrightarrow> byte (base64_digit d) \<in> {65..90} \<union> {97..122} \<union> {48..57} \<union> {43, 47}"
  by (auto simp: base64_digit_def)

lemma base64_digit_safe: "d < 64 \<Longrightarrow> json_safe (base64_digit d)"
  using base64_digit_byte [of d] by (auto simp: json_safe_def QUOTE_def BSLASH_def)

lemma base64_digit_pad: "d < 64 \<Longrightarrow> base64_digit d \<noteq> CHR ''=''"
  using base64_digit_byte [of d] by auto

lemma base64_digit_inj: "a < 64 \<Longrightarrow> b < 64 \<Longrightarrow> base64_digit a = base64_digit b \<Longrightarrow> a = b"
  by (auto simp: base64_digit_def split: if_splits dest!: arg_cong [of _ _ byte])

lemma group_bound: "(x :: nat) < m \<Longrightarrow> y < k \<Longrightarrow> x * k + y < m * k"
proof -
  assume "x < m" "y < k"
  then have "x * k + y < Suc x * k" "Suc x * k \<le> m * k" by (simp_all only: mult_le_mono1 Suc_leI) simp
  then show ?thesis by (rule less_le_trans)
qed

lemma group_inj: "(y :: nat) < k \<Longrightarrow> y' < k \<Longrightarrow> x * k + y = x' * k + y' \<Longrightarrow> x = x' \<and> y = y'"
  by (metis add.commute div_mult_self3 div_less add_cancel_left_left mod_mult_self3 mod_less not_less0 add_0)

text \<open>The six-bit groups of bytes: their bounds, and that they determine the bytes.\<close>

lemma sextet_bounds [simp]:
  "byte a div 4 < 64" "byte a mod 4 * 16 < 64" "byte a mod 4 * 16 + byte b div 16 < 64" "byte b mod 16 * 4 < 64"
  "byte b mod 16 * 4 + byte c div 64 < 64" "byte c mod 64 < 64" "byte b div 16 < 16" "byte c div 64 < 4"
proof -
  have lt: "byte a < 256" "byte b < 256" "byte c < 256" by (simp_all only: nat_of_char_less_256)
  show "byte a div 4 < 64" "byte b div 16 < 16" "byte c div 64 < 4" using lt by linarith+
  then show "byte a mod 4 * 16 + byte b div 16 < 64" "byte b mod 16 * 4 + byte c div 64 < 64"
    using group_bound [of "byte a mod 4" 4 "byte b div 16" 16] group_bound [of "byte b mod 16" 16 "byte c div 64" 4] by simp_all
  then show "byte a mod 4 * 16 < 64" "byte b mod 16 * 4 < 64" by linarith+
qed simp

lemma byte_div_mod: "byte a div k = byte b div k \<Longrightarrow> byte a mod k = byte b mod k \<Longrightarrow> a = b"
  by (metis div_mult_mod_eq of_char_eq_iff)

lemma base64_plain: "json_plain (base64 s)"
proof (induction s rule: base64.induct)
  case (4 a b c s)
  then show ?case by (simp add: json_plain_def base64_digit_safe)
qed (simp_all add: json_plain_def base64_digit_safe, simp_all add: json_safe_def QUOTE_def BSLASH_def)

lemma sextet_inj:
  "base64_digit (byte a div 4) = base64_digit (byte a' div 4) \<Longrightarrow>
     base64_digit (byte a mod 4 * 16) = base64_digit (byte a' mod 4 * 16) \<Longrightarrow> a = a'"
  "base64_digit (byte a div 4) = base64_digit (byte a' div 4) \<Longrightarrow>
     base64_digit (byte a mod 4 * 16 + byte b div 16) = base64_digit (byte a' mod 4 * 16 + byte b' div 16) \<Longrightarrow>
     a = a' \<and> byte b div 16 = byte b' div 16"
  "byte b div 16 = byte b' div 16 \<Longrightarrow> base64_digit (byte b mod 16 * 4) = base64_digit (byte b' mod 16 * 4) \<Longrightarrow> b = b'"
  "byte b div 16 = byte b' div 16 \<Longrightarrow>
     base64_digit (byte b mod 16 * 4 + byte c div 64) = base64_digit (byte b' mod 16 * 4 + byte c' div 64) \<Longrightarrow>
     b = b' \<and> byte c div 64 = byte c' div 64"
  "byte c div 64 = byte c' div 64 \<Longrightarrow> base64_digit (byte c mod 64) = base64_digit (byte c' mod 64) \<Longrightarrow> c = c'"
  using group_inj [of "byte b div 16" 16 "byte b' div 16" "byte a mod 4" "byte a' mod 4"]
    group_inj [of "byte c div 64" 4 "byte c' div 64" "byte b mod 16" "byte b' mod 16"]
  by (auto dest!: base64_digit_inj [rotated 2] intro: byte_div_mod)

lemma base64_inj: "base64 s = base64 t \<Longrightarrow> s = t"
proof (induction s arbitrary: t rule: base64.induct)
  case 1
  then show ?case by (cases t rule: base64.cases) auto
next
  case (2 a)
  then show ?case by (cases t rule: base64.cases) (auto dest: sextet_inj simp: base64_digit_pad base64_digit_pad [symmetric])
next
  case (3 a b)
  then show ?case by (cases t rule: base64.cases) (auto dest: sextet_inj simp: base64_digit_pad base64_digit_pad [symmetric])
next
  case (4 a b c s)
  then show ?case by (cases t rule: base64.cases) (auto dest: sextet_inj simp: base64_digit_pad base64_digit_pad [symmetric])
qed

lemma json_bytes_unique:
  assumes "json_bytes s @ x = json_bytes t @ y"
  shows "s = t \<and> x = y"
proof (cases "s = [] \<or> t = []")
  case True
  with assms show ?thesis by (auto simp: json_bytes_def QUOTE_def split: if_splits)
next
  case False
  with assms have "base64 s @ QUOTE # x = base64 t @ QUOTE # y" by (simp add: json_bytes_def)
  from arg_cong [OF this, of scan_string] show ?thesis
    by (auto simp: scan_string_plain [OF base64_plain] intro: base64_inj)
qed

section \<open>Routes\<close>

text \<open>Routes whose JSON is the same.\<close>

definition same_route :: "route \<Rightarrow> route \<Rightarrow> bool" where
  "same_route r s \<longleftrightarrow>
     rt_Start r = rt_Start s \<and> rt_End r = rt_End s \<and> json_body (rt_Endpoint r) = json_body (rt_Endpoint s)"

lemma Marshal_route_unique:
  assumes "Marshal_route r @ x = Marshal_route s @ y"
  shows "same_route r s \<and> x = y"
proof -
  have eq: "Marshal_route r @ x =
      ''{'' @ [QUOTE] @ ''Start'' @ [QUOTE] @ '':'' @ json_bytes (rt_Start r) @ '','' @
      [QUOTE] @ ''End'' @ [QUOTE] @ '':'' @ json_bytes (rt_End r) @ '','' @
      [QUOTE] @ ''Endpoint'' @ [QUOTE] @ '':'' @ json_string (rt_Endpoint r) @ ''}'' @ x" for r x
    by (simp add: Marshal_route_def json_object_def json_member_def)
  from assms [unfolded eq] have
    "json_bytes (rt_Start r) @ '','' @ [QUOTE] @ ''End'' @ [QUOTE] @ '':'' @ json_bytes (rt_End r) @ '','' @
      [QUOTE] @ ''Endpoint'' @ [QUOTE] @ '':'' @ json_string (rt_Endpoint r) @ ''}'' @ x =
     json_bytes (rt_Start s) @ '','' @ [QUOTE] @ ''End'' @ [QUOTE] @ '':'' @ json_bytes (rt_End s) @ '','' @
      [QUOTE] @ ''Endpoint'' @ [QUOTE] @ '':'' @ json_string (rt_Endpoint s) @ ''}'' @ y" by simp
  from json_bytes_unique [OF this] have 1: "rt_Start r = rt_Start s" and
    "json_bytes (rt_End r) @ '','' @ [QUOTE] @ ''Endpoint'' @ [QUOTE] @ '':'' @ json_string (rt_Endpoint r) @ ''}'' @ x =
     json_bytes (rt_End s) @ '','' @ [QUOTE] @ ''Endpoint'' @ [QUOTE] @ '':'' @ json_string (rt_Endpoint s) @ ''}'' @ y"
    by simp_all
  from json_bytes_unique [OF this(2)] have 2: "rt_End r = rt_End s" and
    "json_string (rt_Endpoint r) @ ''}'' @ x = json_string (rt_Endpoint s) @ ''}'' @ y" by simp_all
  from json_string_unique [OF this(2)] 1 2 show ?thesis by (simp add: same_route_def)
qed

lemma join_routes_nonempty: "join '','' (map Marshal_route (q # qs)) \<noteq> []"
  by (cases qs) (simp_all add: Marshal_route_def json_object_def)

lemma join_routes_unique:
  "join '','' (map Marshal_route rs) @ '']'' = join '','' (map Marshal_route ss) @ '']'' \<Longrightarrow> list_all2 same_route rs ss"
proof (induction rs arbitrary: ss)
  case Nil
  then show ?case using join_routes_nonempty by (cases ss) auto
next
  case (Cons r rs)
  have tail: "join '','' (map Marshal_route (q # qs)) @ '']'' =
      Marshal_route q @ (if qs = [] then '']'' else '','' @ join '','' (map Marshal_route qs) @ '']'')" for q qs
    by (cases qs) auto
  obtain s ss' where ss: "ss = s # ss'"
    using Cons.prems join_routes_nonempty [of r rs] by (cases ss) auto
  from Marshal_route_unique [OF Cons.prems [unfolded ss tail]]
  have "same_route r s" "(if rs = [] then '']'' else '','' @ join '','' (map Marshal_route rs) @ '']'') =
      (if ss' = [] then '']'' else '','' @ join '','' (map Marshal_route ss') @ '']'')" by simp_all
  with Cons.IH [of ss'] ss show ?case by (auto split: if_splits)
qed

lemma Marshal_routes_unique: "Marshal_routes rs = Marshal_routes ss \<Longrightarrow> list_all2 same_route rs ss"
  by (rule join_routes_unique) (simp add: Marshal_routes_def json_array_def)

text \<open>The end of every range decides the shard of a key.\<close>

lemma shard_loop_ends: "map csh_End ss = map csh_End ts \<Longrightarrow> shard_loop ss k i = shard_loop ts k i"
  by (induction ss arbitrary: ts i) (auto simp: Cons_eq_map_conv)

end
