(* ===== verification/Coordinated_Agreement.thy ===== *)
theory Coordinated_Agreement
  imports Coordinated_Theorems Route_Encoding
begin

text \<open>
  Requests stay within the user's keys: whatever a request returns, the coordinator's keys outside
  \<open>CoordinatedMetadataPrefix\<close> are as before, and every blob a shard held it still holds with the same
  value. So the fingerprint that the first successful start wrote to \<open>coordinatedConfigKey\<close> stays, and
  proxies that start on one coordinator agree on the routing, now and after any run of
  requests and starts.

  What etcd promises of a transaction that compares the version of a key with 0 is the law \<open>version_laws\<close>.
\<close>

section \<open>Confinement\<close>

definition confined :: "('conn, 'c, 'm, 'w) deployment \<Rightarrow> 'w \<Rightarrow> 'w \<Rightarrow> bool" where
  "confined d w w' \<longleftrightarrow>
     (\<forall>k. \<not> prefix CoordinatedMetadataPrefix k \<longrightarrow> dp_meta d w' k = dp_meta d w k) \<and>
     grows (dp_blobs d w) (dp_blobs d w')"

lemma confined_refl [simp]: "confined d w w"
  by (simp add: confined_def)

lemma confined_trans: "confined d w w1 \<Longrightarrow> confined d w1 w2 \<Longrightarrow> confined d w w2"
  by (auto simp: confined_def intro: grows_trans)

lemma preserves_confinedI: "(\<And>w r w'. m w = (r, w') \<Longrightarrow> confined d w w') \<Longrightarrow> preserves (confined d w0) m"
  unfolding preserves_def by (metis confined_trans prod.collapse)

lemma reads_confined:
  assumes "\<And>w. preserves (same_views d w) m"
  shows "preserves (confined d w0) m"
proof (rule preserves_confinedI)
  fix w r w' assume m: "m w = (r, w')"
  have "same_views d w w" by (simp add: same_views_def)
  from preservesD [OF assms this m] show "confined d w w'" by (simp add: same_views_def confined_def)
qed

lemma put_effect_confined: "prefix CoordinatedMetadataPrefix (pr_Key q) \<Longrightarrow> \<not> prefix CoordinatedMetadataPrefix k \<Longrightarrow> put_effect q M k = M k"
  by (auto simp: put_effect_def)

lemma delete_effect_confined:
  "staged_delete q q' \<Longrightarrow> \<not> prefix CoordinatedMetadataPrefix k \<Longrightarrow> delete_effect q' M k = M k"
  by (fastforce simp: staged_delete_def prefixed_range_def delete_effect_def)

lemma ops_effect_confined:
  assumes "list_all2 (staged_op n B) ops ops'" and "\<not> prefix CoordinatedMetadataPrefix k"
  shows "ops_effect ops' M k = M k"
  using assms(1) unfolding ops_effect_def
proof (induction ops ops' arbitrary: M rule: list_all2_induct)
  case (Cons op ops op' ops')
  have "op_effect op' M k = M k"
    using Cons.hyps(1) assms(2) put_effect_confined delete_effect_confined
    by (auto simp: staged_op_def op_effect_def staged_putD split: option.splits)
  with Cons.IH show ?case by simp
qed simp

section \<open>Handlers are confined\<close>

lemma stagePut_confined:
  assumes d: "environment d"
  shows "preserves (confined d w0) (stagePut (dp_grpc d) (dp_rand d) (dp_proxy d) ctx q)"
proof (rule preserves_confinedI)
  fix w r w' assume st: "stagePut (dp_grpc d) (dp_rand d) (dp_proxy d) ctx q w = (r, w')"
  show "confined d w w'"
  proof (cases "pr_Key q = []")
    case True
    with st show ?thesis by (simp add: stagePut_def coordinatedKeys_empty io_bind_def io_lift_def)
  next
    case False
    from stagePut_effect(1,2) [OF d False st] show ?thesis by (simp add: confined_def)
  qed
qed

lemma txn_states:
  assumes laws: "coordinator_laws c meta blobs" and k: "KV_Txn c ctx q w = ((r, h, t), w')"
    and flat: "list_all flat_op (txn_Success q)" "list_all flat_op (txn_Failure q)"
  shows "blobs w' = blobs w"
    "meta w' \<in> {meta w, ops_effect (txn_Success q) (meta w), ops_effect (txn_Failure q) (meta w)}"
    "r = Ok out \<Longrightarrow> meta w' = ops_effect (if txr_Succeeded out then txn_Success q else txn_Failure q) (meta w)"
proof -
  from laws have "KV_Txn c ctx q w = ((r, h, t), w') \<longrightarrow>
     list_all flat_op (txn_Success q) \<longrightarrow> list_all flat_op (txn_Failure q) \<longrightarrow>
     blobs w' = blobs w \<and>
     (case r of
        Ok out \<Rightarrow> meta w' = ops_effect (if txr_Succeeded out then txn_Success q else txn_Failure q) (meta w)
      | _ \<Rightarrow> meta w' \<in> {meta w, ops_effect (txn_Success q) (meta w), ops_effect (txn_Failure q) (meta w)})"
    unfolding coordinator_laws_def by blast
  with k flat have law: "blobs w' = blobs w" "case r of
        Ok out \<Rightarrow> meta w' = ops_effect (if txr_Succeeded out then txn_Success q else txn_Failure q) (meta w)
      | _ \<Rightarrow> meta w' \<in> {meta w, ops_effect (txn_Success q) (meta w), ops_effect (txn_Failure q) (meta w)}"
    by simp_all
  then show "blobs w' = blobs w"
    "meta w' \<in> {meta w, ops_effect (txn_Success q) (meta w), ops_effect (txn_Failure q) (meta w)}"
    "r = Ok out \<Longrightarrow> meta w' = ops_effect (if txr_Succeeded out then txn_Success q else txn_Failure q) (meta w)"
    by (cases r; auto)+
qed

lemma coordinator_calls_confined:
  assumes d: "environment d"
  shows "prefix CoordinatedMetadataPrefix (pr_Key q1) \<Longrightarrow>
      preserves (confined d w0) (forwardUnary (dp_grpc d) ctx q1 (KV_Put (bp_kv (cp_backend (dp_proxy d)))))"
    and "staged_delete q q2 \<Longrightarrow>
      preserves (confined d w0) (forwardUnary (dp_grpc d) ctx q2 (KV_DeleteRange (bp_kv (cp_backend (dp_proxy d)))))"
    and "list_all2 (staged_op n B) ss success \<Longrightarrow> list_all2 (staged_op n B') fs failure \<Longrightarrow>
      preserves (confined d w0)
        (forwardUnary (dp_grpc d) ctx (TxnRequest compare success failure) (KV_Txn (bp_kv (cp_backend (dp_proxy d)))))"
proof -
  show "preserves (confined d w0) (forwardUnary (dp_grpc d) ctx q1 (KV_Put (bp_kv (cp_backend (dp_proxy d)))))"
    if "prefix CoordinatedMetadataPrefix (pr_Key q1)"
  proof (rule preserves_confinedI)
    fix w r w' assume f: "forwardUnary (dp_grpc d) ctx q1 (KV_Put (bp_kv (cp_backend (dp_proxy d)))) w = (r, w')"
    obtain h t w1 where "KV_Put (bp_kv (cp_backend (dp_proxy d))) (backendContext (dp_grpc d) ctx) q1 w = ((r, h, t), w1)"
      and v: "(dp_meta d w', dp_blobs d w') = (dp_meta d w1, dp_blobs d w1)"
      by (rule forwardUnary_cases [OF environmentD(3) [OF d] f])
    then have "dp_blobs d w1 = dp_blobs d w" "dp_meta d w1 = put_effect q1 (dp_meta d w) \<or> dp_meta d w1 = dp_meta d w"
      using environmentD(5) [OF d] unfolding coordinator_laws_def by metis+
    with v that show "confined d w w'" by (auto simp: confined_def put_effect_confined)
  qed
  show "preserves (confined d w0) (forwardUnary (dp_grpc d) ctx q2 (KV_DeleteRange (bp_kv (cp_backend (dp_proxy d)))))"
    if "staged_delete q q2"
  proof (rule preserves_confinedI)
    fix w r w' assume f: "forwardUnary (dp_grpc d) ctx q2 (KV_DeleteRange (bp_kv (cp_backend (dp_proxy d)))) w = (r, w')"
    obtain h t w1 where "KV_DeleteRange (bp_kv (cp_backend (dp_proxy d))) (backendContext (dp_grpc d) ctx) q2 w = ((r, h, t), w1)"
      and v: "(dp_meta d w', dp_blobs d w') = (dp_meta d w1, dp_blobs d w1)"
      by (rule forwardUnary_cases [OF environmentD(3) [OF d] f])
    then have "dp_blobs d w1 = dp_blobs d w" "dp_meta d w1 = delete_effect q2 (dp_meta d w) \<or> dp_meta d w1 = dp_meta d w"
      using environmentD(5) [OF d] unfolding coordinator_laws_def by metis+
    with v delete_effect_confined [OF that] show "confined d w w'" by (auto simp: confined_def)
  qed
  show "preserves (confined d w0)
        (forwardUnary (dp_grpc d) ctx (TxnRequest compare success failure) (KV_Txn (bp_kv (cp_backend (dp_proxy d)))))"
    if s: "list_all2 (staged_op n B) ss success" and f: "list_all2 (staged_op n B') fs failure"
  proof (rule preserves_confinedI)
    fix w r w'
    let ?q = "TxnRequest compare success failure"
    assume c: "forwardUnary (dp_grpc d) ctx ?q (KV_Txn (bp_kv (cp_backend (dp_proxy d)))) w = (r, w')"
    obtain h t w1 where k: "KV_Txn (bp_kv (cp_backend (dp_proxy d))) (backendContext (dp_grpc d) ctx) ?q w = ((r, h, t), w1)"
      and v: "(dp_meta d w', dp_blobs d w') = (dp_meta d w1, dp_blobs d w1)"
      by (rule forwardUnary_cases [OF environmentD(3) [OF d] c])
    from txn_states [OF environmentD(5) [OF d] k] staged_flat [OF s] staged_flat [OF f] v
      ops_effect_confined [OF s] ops_effect_confined [OF f]
    show "confined d w w'" by (auto simp: confined_def)
  qed
qed

lemma Put_confined:
  assumes d: "environment d"
  shows "preserves (confined d w0) (CoordinatedProxy_Put (dp_grpc d) (dp_rand d) (dp_proxy d) ctx req)"
proof -
  have key: "prefix CoordinatedMetadataPrefix (pr_Key r)"
    if "stagePut (dp_grpc d) (dp_rand d) (dp_proxy d) ctx q w = (Ok r, w')" for q r w w'
  proof (cases "pr_Key q = []")
    case True
    with that show ?thesis by (simp add: stagePut_def coordinatedKeys_empty io_bind_def io_lift_def)
  next
    case False
    from stagePut_effect(3) [OF d False that refl] show ?thesis by (simp add: staged_putD)
  qed
  note post = preserves_bind_post [OF stagePut_confined [OF d]]
  show ?thesis
    unfolding CoordinatedProxy_Put_def
    by (intro preserves_bind preserves_lift post coordinator_calls_confined(1) [OF d] reads_confined
        decodeKV_preserves [OF d] preserves_return) (rule key)
qed

lemma DeleteRange_confined:
  assumes d: "environment d"
  shows "preserves (confined d w0) (CoordinatedProxy_DeleteRange (dp_grpc d) (dp_proxy d) ctx (Some q))"
proof -
  have staged: "staged_delete q r" if "io_lift (coordinatedDelete (Some q)) w = (Ok r, w')" for r w w'
    using that by (auto simp: io_lift_def dest: coordinatedDelete_staged)
  show ?thesis
    unfolding CoordinatedProxy_DeleteRange_def option.case
    by (intro preserves_bind [OF preserves_lift] preserves_bind_post [OF preserves_lift]
        preserves_bind [OF coordinator_calls_confined(2) [OF d, of q]] preserves_bind [OF preserves_map]
        reads_confined decode_kv_preserves [OF d] preserves_return) (rule staged)
qed

lemma stageOps_confined:
  assumes d: "environment d" and v: "\<And>op. op \<in> set ops \<Longrightarrow> accepted (validateOp (dp_proxy d) op)"
  shows "preserves (confined d w0) (io_map (stageOp (dp_grpc d) (dp_rand d) (dp_proxy d) ctx) ops)"
  by (rule preserves_confinedI) (use stageOps_effect [OF d v] in \<open>auto simp: confined_def\<close>)

lemma Txn_confined:
  assumes d: "environment d"
  shows "preserves (confined d w0) (CoordinatedProxy_Txn (dp_grpc d) (dp_rand d) (dp_proxy d) ctx (Some q))"
proof (cases "txn_valid (dp_proxy d) q")
  case False
  from Txn_invalid_rejected [OF environmentD(1) [OF d] False] show ?thesis
    by (intro preserves_confinedI) (metis confined_refl prod.inject)
next
  case True
  then obtain cs m m' where
    v: "rewriteCompares (txn_Compare q) = Ok cs" "validateOps (dp_proxy d) (-1) (txn_Success q) = Ok m"
      "validateOps (dp_proxy d) m (txn_Failure q) = Ok m'"
    by (auto simp: txn_valid_def accepted_def res_bind_eq_Ok)
  note s = validateOps_accepted [OF v(2)] and f = validateOps_accepted [OF v(3)]
  let ?n = "length (cp_clients (dp_proxy d))"
  have call: "preserves (confined d w0) (forwardUnary (dp_grpc d) ctx (TxnRequest cs success failure) (KV_Txn (bp_kv (cp_backend (dp_proxy d)))))"
    if "io_map (stageOp (dp_grpc d) (dp_rand d) (dp_proxy d) ctx) (txn_Success q) w = (Ok success, w1)"
      "io_map (stageOp (dp_grpc d) (dp_rand d) (dp_proxy d) ctx) (txn_Failure q) w2 = (Ok failure, w3)" for w w1 w2 w3 success failure
    by (rule coordinator_calls_confined(3) [OF d])
      (use stageOps_effect [OF d s that(1)] stageOps_effect [OF d f that(2)] in blast)+
  have "preserves (confined d w0)
      (io_bind (io_map (stageOp (dp_grpc d) (dp_rand d) (dp_proxy d) ctx) (txn_Success q)) (\<lambda>success.
        io_bind (io_map (stageOp (dp_grpc d) (dp_rand d) (dp_proxy d) ctx) (txn_Failure q)) (\<lambda>failure.
          io_bind (forwardUnary (dp_grpc d) ctx (TxnRequest cs success failure) (KV_Txn (bp_kv (cp_backend (dp_proxy d))))) (\<lambda>out.
            io_bind (decodeResponses (dp_grpc d) (dp_proxy d) ctx (if txr_Succeeded out then txn_Success q else txn_Failure q)
              0 (txr_Responses out)) (\<lambda>responses. io_return (TxnResponse (txr_Header out) (txr_Succeeded out) responses))))))"
    by (rule preserves_bind_post [OF stageOps_confined [OF d s]], assumption,
        rule preserves_bind_post [OF stageOps_confined [OF d f]], assumption)
      (intro preserves_bind call reads_confined decodeResponses_preserves [OF d] preserves_return)
  with v show ?thesis by (simp add: CoordinatedProxy_Txn_def Let_def)
qed

lemma serve_confined:
  assumes d: "environment d"
  shows "confined d w (serve (d, ctx) req w)"
proof -
  show ?thesis
    using Put_confined [OF d] DeleteRange_confined [OF d] Txn_confined [OF d] reads_confined [OF Range_preserves [OF d]]
    by (cases req) (simp_all add: serve_def preserves_def)
qed

section \<open>The fingerprint\<close>

text \<open>
  The routes the constructor encodes, and what etcd promises of a transaction that asks whether a key
  is absent (its version is 0): it takes the success branch if and only if the key is absent, a failed call
  on a key that exists did not take the success branch, and a get of the key in the failure branch
  reads the key. A transaction of serializable reads only may be stale, so the law leaves it out.
\<close>

definition routes :: "('conn, 'c, 'm, 'w) Stubs \<Rightarrow> 'conn CoordinatedShard list \<Rightarrow> route list" where
  "routes stubs shards =
     map (\<lambda>s. \<lparr>rt_Start = csh_Start s, rt_End = csh_End s,
                rt_Endpoint = (case csh_Conn s of
                  Some conn \<Rightarrow> if csh_Endpoint s = [] then conn_Target stubs conn else csh_Endpoint s
                | None \<Rightarrow> csh_Endpoint s)\<rparr>) shards"

definition absent :: "bytes \<Rightarrow> Compare option" where
  "absent k =
     Some \<lparr>cmp_Result = Compare_EQUAL, cmp_Target = Compare_VERSION, cmp_Key = k,
           cmp_TargetUnion = TargetVersion 0, cmp_RangeEnd = []\<rparr>"

definition serializable_read :: "RequestOp option \<Rightarrow> bool" where
  "serializable_read op \<longleftrightarrow> (case op of Some (RequestRange (Some q)) \<Rightarrow> rr_Serializable q | _ \<Rightarrow> False)"

definition version_laws :: "('c, 'm, 'w) KVClient \<Rightarrow> ('w \<Rightarrow> store) \<Rightarrow> bool" where
  "version_laws c meta \<longleftrightarrow>
     (\<forall>ctx k success failure w r h t w'.
        KV_Txn c ctx (TxnRequest [absent k] success failure) w = ((r, h, t), w') \<longrightarrow>
        list_all flat_op success \<longrightarrow> list_all flat_op failure \<longrightarrow>
        \<not> list_all serializable_read (success @ failure) \<longrightarrow>
        (meta w k \<noteq> None \<longrightarrow> meta w' \<in> {meta w, ops_effect failure (meta w)}) \<and>
        (\<forall>out. r = Ok out \<longrightarrow>
           (txr_Succeeded out \<longleftrightarrow> meta w k = None) \<and>
           (\<forall>v. meta w k = Some v \<longrightarrow> failure = [Some (RequestRange (Some (get_request k)))] \<longrightarrow>
              (\<exists>rs. txr_Responses out = [ResponseRange rs] \<and> kv_pairs (rs_Kvs rs) = [(k, v)]))))"

lemma check_shards_routes_eq:
  "check_shards stubs coord shards i seen rest = Ok acc \<Longrightarrow> map snd acc = routes stubs rest"
  unfolding routes_def
  by (induction rest arbitrary: i seen acc) (auto simp: Let_def res_bind_eq_Ok split: option.splits if_splits)

lemma fingerprint_txn_eq:
  "fingerprint_txn fp = TxnRequest [absent coordinatedConfigKey]
     [Some (RequestPut (Some (put_request coordinatedConfigKey fp)))]
     [Some (RequestRange (Some (get_request coordinatedConfigKey)))]"
  by (simp add: fingerprint_txn_def absent_def)

lemma fingerprint_effects:
  "ops_effect [Some (RequestPut (Some (put_request k v)))] M = M(k \<mapsto> v)"
  "ops_effect [Some (RequestRange q)] M = M"
  by (simp_all add: ops_effect_def op_effect_def put_effect_def put_request_def)

lemma fingerprint_flat: "list_all flat_op [Some (RequestPut q)]" "list_all flat_op [Some (RequestRange q')]"
  by (simp_all add: flat_op_def)

lemma fingerprint_linearizable: "\<not> list_all serializable_read ([Some (RequestPut q)] @ ops)"
  by (simp add: serializable_read_def)

lemma version_lawsD:
  assumes "version_laws c meta" and "KV_Txn c ctx (fingerprint_txn fp) w = ((r, h, t), w')"
  shows "meta w coordinatedConfigKey \<noteq> None \<Longrightarrow> meta w' = meta w"
    "r = Ok out \<Longrightarrow> txr_Succeeded out \<longleftrightarrow> meta w coordinatedConfigKey = None"
    "r = Ok out \<Longrightarrow> meta w coordinatedConfigKey = Some v \<Longrightarrow>
       \<exists>rs. txr_Responses out = [ResponseRange rs] \<and> kv_pairs (rs_Kvs rs) = [(coordinatedConfigKey, v)]"
proof -
  let ?s = "[Some (RequestPut (Some (put_request coordinatedConfigKey fp)))]"
  let ?f = "[Some (RequestRange (Some (get_request coordinatedConfigKey)))]"
  from assms(1) [unfolded version_laws_def, rule_format,
      OF assms(2) [unfolded fingerprint_txn_eq] fingerprint_flat fingerprint_linearizable]
  have "(meta w coordinatedConfigKey \<noteq> None \<longrightarrow> meta w' \<in> {meta w, ops_effect ?f (meta w)}) \<and>
    (\<forall>out. r = Ok out \<longrightarrow> (txr_Succeeded out \<longleftrightarrow> meta w coordinatedConfigKey = None) \<and>
       (\<forall>v. meta w coordinatedConfigKey = Some v \<longrightarrow> ?f = ?f \<longrightarrow>
          (\<exists>rs. txr_Responses out = [ResponseRange rs] \<and> kv_pairs (rs_Kvs rs) = [(coordinatedConfigKey, v)])))"
    by blast
  then show "meta w coordinatedConfigKey \<noteq> None \<Longrightarrow> meta w' = meta w"
    "r = Ok out \<Longrightarrow> txr_Succeeded out \<longleftrightarrow> meta w coordinatedConfigKey = None"
    "r = Ok out \<Longrightarrow> meta w coordinatedConfigKey = Some v \<Longrightarrow>
       \<exists>rs. txr_Responses out = [ResponseRange rs] \<and> kv_pairs (rs_Kvs rs) = [(coordinatedConfigKey, v)]"
    by (simp_all add: fingerprint_effects)
qed

text \<open>A successful start leaves its fingerprint in the coordinator.\<close>

lemma start_fingerprint:
  assumes laws: "coordinator_laws (NewKVClient stubs coord) meta blobs" "version_laws (NewKVClient stubs coord) meta"
    and start: "NewCoordinatedProxy stubs g sha256 ctx (Some coord) shards w = (Ok p, w')"
  shows "meta w' coordinatedConfigKey = Some (route_fingerprint sha256 (routes stubs shards))"
    "meta w coordinatedConfigKey \<noteq> None \<Longrightarrow> meta w' = meta w"
proof -
  let ?fp = "route_fingerprint sha256 (routes stubs shards)"
  from start obtain acc response where acc: "check_shards stubs coord shards 0 [] shards = Ok acc"
    and call: "rpc_call (KV_Txn (NewKVClient stubs coord)) (backendContext g ctx)
       (fingerprint_txn (route_fingerprint sha256 (map snd acc))) w = (Ok response, w')"
    and check: "check_fingerprint (route_fingerprint sha256 (map snd acc)) response = Ok ()"
    by (rule NewCoordinatedProxy_Ok) auto
  note fp = check_shards_routes_eq [OF acc]
  from call fp obtain h t where
    txn: "KV_Txn (NewKVClient stubs coord) (backendContext g ctx) (fingerprint_txn ?fp) w = ((Ok response, h, t), w')"
    by (auto elim: rpc_call_cases)
  note version = version_lawsD [OF laws(2) txn]
  show "meta w coordinatedConfigKey \<noteq> None \<Longrightarrow> meta w' = meta w" by (rule version(1))
  show "meta w' coordinatedConfigKey = Some ?fp"
  proof (cases "meta w coordinatedConfigKey")
    case None
    with version(2) have "txr_Succeeded response" by simp
    with txn_states(3) [OF laws(1) txn _ _ refl] show ?thesis
      by (simp add: fingerprint_txn_def fingerprint_effects flat_op_def)
  next
    case (Some v)
    with version(2) have "\<not> txr_Succeeded response" by simp
    moreover obtain rs where "txr_Responses response = [ResponseRange rs]" "kv_pairs (rs_Kvs rs) = [(coordinatedConfigKey, v)]"
      using version(3) [OF refl Some] by blast
    ultimately have "v = ?fp" using check fp
      by (auto simp: check_fingerprint_def index_def deref_def GetResponseRange_def kv_pairs_def split: if_splits)
    with Some version(1) show ?thesis by simp
  qed
qed

lemma start_world:
  assumes "NewCoordinatedProxy stubs g sha256 ctx (Some coord) shards w = (r, w')"
  obtains "w' = w"
  | fp res h t where "KV_Txn (NewKVClient stubs coord) (backendContext g ctx) (fingerprint_txn fp) w = ((res, h, t), w')"
  using assms
  by (auto simp: NewCoordinatedProxy_def Let_def io_bind_def io_lift_def io_err_def io_return_def rpc_call_def NewBackendProxy_def
      split: if_splits result.splits prod.splits)

text \<open>Runs of a coordinator: requests to proxies of a deployment that uses it, and starts, failed ones too.\<close>

inductive coordinator_run ::
  "('conn, 'c, 'm, 'w) Stubs \<Rightarrow> 'conn \<Rightarrow> ('w \<Rightarrow> store) \<Rightarrow> 'w \<Rightarrow> 'w \<Rightarrow> bool"
  for stubs :: "('conn, 'c, 'm, 'w) Stubs" and coord meta w
where
  run_idle: "coordinator_run stubs coord meta w w"
| run_request: "coordinator_run stubs coord meta w w1 \<Longrightarrow> environment (d :: ('conn, 'c, 'm, 'w) deployment) \<Longrightarrow>
    dp_meta d = meta \<Longrightarrow> coordinator_run stubs coord meta w (serve (d, ctx) req w1)"
| run_start: "coordinator_run stubs coord meta w w1 \<Longrightarrow>
    NewCoordinatedProxy stubs g sha256 ctx (Some coord) shards w1 = (r, w2) \<Longrightarrow> coordinator_run stubs coord meta w w2"

lemma config_kept:
  assumes "coordinator_run stubs coord meta w w'" and "version_laws (NewKVClient stubs coord) meta"
    and "meta w coordinatedConfigKey = Some v"
  shows "meta w' coordinatedConfigKey = Some v"
  using assms
proof (induction rule: coordinator_run.induct)
  case (run_request w1 d ctx req)
  have "\<not> prefix CoordinatedMetadataPrefix coordinatedConfigKey"
    by (simp add: CoordinatedMetadataPrefix_def coordinatedConfigKey_def)
  with serve_confined [OF run_request.hyps(2), of w1 ctx req] run_request show ?case by (auto simp: confined_def)
next
  case (run_start w1 g sha256 ctx shards r w2)
  from run_start.hyps(2) show ?case
    by (rule start_world) (use run_start version_lawsD(1) [OF run_start.prems(1)] in auto)
qed

section \<open>Properties\<close>

lemma history_confined: "environment d \<Longrightarrow> confined d w (fold (serve (d, ctx)) reqs w)"
  by (induction reqs arbitrary: w) (auto intro: confined_trans serve_confined)

text \<open>
  C13. Requests are confined to the user's keys, whatever they return: along every history the
  coordinator's keys outside the metadata prefix, the routing fingerprint among them, do not change, and every
  blob stays in its shard with its value.
\<close>

theorem requests_confined:
  assumes "environment d"
  shows "(\<forall>k. dp_meta d (fold (serve (d, ctx)) reqs w) k = dp_meta d w k \<or> prefix CoordinatedMetadataPrefix k) \<and>
    (\<forall>i. dp_blobs d w i \<subseteq>\<^sub>m dp_blobs d (fold (serve (d, ctx)) reqs w) i)"
  using history_confined [OF assms, of w ctx reqs] by (auto simp: confined_def grows_def)

definition mem_configured :: mem where
  "mem_configured = mem_empty\<lparr>mem_meta := [(coordinatedConfigKey, ''digest'')]\<rparr>"

theorem requests_confined_witness:
  "dp_meta mem_deployment (serve (mem_deployment, ())
     (ReqDelete \<lparr>dr_Key = [CHR 0x00], dr_RangeEnd = [CHR 0x00], dr_PrevKv = False\<rparr>) mem_configured)
     coordinatedConfigKey = Some ''digest''"
proof -
  have "\<not> prefix CoordinatedMetadataPrefix coordinatedConfigKey"
    by (simp add: CoordinatedMetadataPrefix_def coordinatedConfigKey_def)
  moreover have "dp_meta mem_deployment mem_configured coordinatedConfigKey = Some ''digest''"
    by (simp add: mem_configured_def mem_deployment_def)
  ultimately show ?thesis
    using requests_confined [OF mem_environment, of "()" "[ReqDelete \<lparr>dr_Key = [CHR 0x00], dr_RangeEnd = [CHR 0x00], dr_PrevKv = False\<rparr>]" mem_configured]
    by simp metis
qed

text \<open>
  C12. Proxies of one coordinator agree on the routing: when a proxy starts successfully after another one
  did, with any requests and starts between, and the hash does not confuse the two routing tables,
  both have the same ranges, endpoints with the same JSON, and send every key to the same shard.
\<close>

theorem routing_agreement:
  assumes laws: "coordinator_laws (NewKVClient stubs coord) meta blobs" "version_laws (NewKVClient stubs coord) meta"
    and first: "NewCoordinatedProxy stubs g sha256 ctx (Some coord) shards w = (Ok p, w1)"
    and run: "coordinator_run stubs coord meta w1 w2"
    and second: "NewCoordinatedProxy stubs g' sha256 ctx' (Some coord) shards' w2 = (Ok p', w3)"
    and hash: "inj_on sha256 {Marshal_routes (routes stubs shards), Marshal_routes (routes stubs shards')}"
  shows "list_all2 same_route (routes stubs shards) (routes stubs shards') \<and> (\<forall>k. shard p k = shard p' k)"
proof -
  from start_fingerprint(1) [OF laws first] have
    c: "meta w2 coordinatedConfigKey = Some (route_fingerprint sha256 (routes stubs shards))"
    by (rule config_kept [OF run laws(2)])
  with start_fingerprint [OF laws second]
  have "route_fingerprint sha256 (routes stubs shards') = route_fingerprint sha256 (routes stubs shards)" by simp
  then have "sha256 (Marshal_routes (routes stubs shards)) = sha256 (Marshal_routes (routes stubs shards'))"
    by (auto simp: route_fingerprint_def dest: hex_encode_inj)
  from inj_onD [OF hash this] have same: "list_all2 same_route (routes stubs shards) (routes stubs shards')"
    by (intro Marshal_routes_unique) simp
  then have "map rt_End (routes stubs shards) = map rt_End (routes stubs shards')"
    by (induction rule: list_all2_induct) (auto simp: same_route_def)
  then have ends: "map csh_End shards = map csh_End shards'" by (simp add: routes_def o_def)
  have "cp_shards p = shards" using first by (rule NewCoordinatedProxy_Ok) auto
  moreover have "cp_shards p' = shards'" using second by (rule NewCoordinatedProxy_Ok) auto
  ultimately have "shard p k = shard p' k" for k
    using shard_loop_ends [OF ends] by (simp add: shard_def)
  with same show ?thesis by simp
qed

lemma mem_version_laws: "version_laws mem_coordinator (\<lambda>w. map_of (mem_meta w))"
  unfolding version_laws_def mem_coordinator_def mem_client_def
  by (auto simp: Let_def split_beta mem_compare_def absent_def mem_ops_effect mem_op_def mem_range_response_def mem_get
      kv_pairs_def mem_kv_def)

lemma mem_start:
  assumes "map_of (mem_meta w) coordinatedConfigKey \<in> {None, Some (route_fingerprint sha256 (routes mem_stubs mem_shards))}"
  shows "\<exists>w'. NewCoordinatedProxy mem_stubs mem_grpc sha256 () (Some 0) mem_shards w = (Ok mem_proxy, w')"
proof -
  have t: "conn_Target mem_stubs 0 = ''0''"
    by (simp add: mem_stubs_def) code_simp
  obtain acc where acc: "check_shards mem_stubs 0 mem_shards 0 [] mem_shards = Ok acc" "map fst acc = [1, 2]"
    by (simp add: mem_shards_def range_misplaced_def t)
  have "map (\<lambda>(conn, _). NewKVClient mem_stubs conn) acc = map (NewKVClient mem_stubs) (map fst acc)"
    by (simp add: split_beta)
  then have c: "map (\<lambda>(conn, _). NewKVClient mem_stubs conn) acc = [mem_shard 0, mem_shard 1]"
    unfolding acc(2) by (simp add: mem_stubs_def)
  have b: "bp_kv (NewBackendProxy mem_stubs 0) = mem_coordinator"
    by (simp add: NewBackendProxy_def mem_stubs_def)
  have ne: "mem_shards \<noteq> []" by (simp add: mem_shards_def)
  note fp = check_shards_routes_eq [OF acc(1)]
  show ?thesis
  proof (cases "map_of (mem_meta w) coordinatedConfigKey")
    case None
    then show ?thesis using ne acc(1) c
      by (simp add: NewCoordinatedProxy_def Let_def b)
        (simp add: io_bind_def rpc_call_def mem_coordinator_def mem_client_def fingerprint_txn_def mem_compare_def
          mem_op_def check_fingerprint_def io_return_def io_lift_def mem_proxy_def)
  next
    case (Some v)
    with assms have "v = route_fingerprint sha256 (routes mem_stubs mem_shards)" by simp
    with Some show ?thesis using ne acc(1) c fp
      by (simp add: NewCoordinatedProxy_def Let_def b)
        (simp add: io_bind_def rpc_call_def mem_coordinator_def mem_client_def fingerprint_txn_def mem_compare_def
          mem_op_def check_fingerprint_def io_return_def io_lift_def mem_proxy_def mem_range_response_def mem_get mem_kv_def
          index_def deref_def GetResponseRange_def)
  qed
qed

theorem routing_agreement_witness:
  "\<exists>w1 w3. NewCoordinatedProxy mem_stubs mem_grpc (\<lambda>_. ''digest'') () (Some 0) mem_shards mem_empty = (Ok mem_proxy, w1) \<and>
     NewCoordinatedProxy mem_stubs mem_grpc (\<lambda>_. ''digest'') () (Some 0) mem_shards
       (serve (mem_deployment, ()) (ReqPut (put_request ''b'' ''v'')) w1) = (Ok mem_proxy, w3) \<and>
     list_all2 same_route (routes mem_stubs mem_shards) (routes mem_stubs mem_shards)"
proof -
  have client: "NewKVClient mem_stubs 0 = mem_coordinator" by (simp add: mem_stubs_def)
  note laws = mem_coordinator_laws [folded client] mem_version_laws [folded client]
  obtain w1 where first: "NewCoordinatedProxy mem_stubs mem_grpc (\<lambda>_. ''digest'') () (Some 0) mem_shards mem_empty = (Ok mem_proxy, w1)"
    using mem_start [of mem_empty] by (auto simp: mem_empty_def)
  let ?w2 = "serve (mem_deployment, ()) (ReqPut (put_request ''b'' ''v'')) w1"
  have run: "coordinator_run mem_stubs 0 (\<lambda>w. map_of (mem_meta w)) w1 ?w2"
    by (intro run_request run_idle mem_environment) (simp add: mem_deployment_def)
  from config_kept [OF run laws(2) start_fingerprint(1) [OF laws first]]
  obtain w3 where second: "NewCoordinatedProxy mem_stubs mem_grpc (\<lambda>_. ''digest'') () (Some 0) mem_shards ?w2 = (Ok mem_proxy, w3)"
    using mem_start [of ?w2 "\<lambda>_. ''digest''"] by auto
  from routing_agreement [OF laws first run second] first second show ?thesis by auto
qed

end
