(* ===== verification/Interleaving.thy ===== *)
theory Interleaving
  imports Prelude
begin

text \<open>
  Handlers as programs whose calls can be interleaved. A program returns, or makes a call on the
  world and goes on with the program the call leaves; what happens between two calls of a handler
  is local to it. \<open>run\<close> executes a program without interference and gives back the io action it was
  written for (\<open>run_pbind\<close>, \<open>run_call\<close>, \<open>run_pmap\<close>).
\<close>

datatype target = Random | DataShard | Coordinator

datatype ('w, 'a) prog =
  Done "'a result"
| Call target "'w \<Rightarrow> ('w, 'a) prog \<times> 'w"

primrec run :: "('w, 'a) prog \<Rightarrow> ('w, 'a) io" where
  "run (Done r) = io_lift r"
| "run (Call t f) = (\<lambda>w. case (map_prod run id \<circ> f) w of (m, w') \<Rightarrow> m w')"

primrec pbind :: "('w, 'a) prog \<Rightarrow> ('a \<Rightarrow> ('w, 'b) prog) \<Rightarrow> ('w, 'b) prog" where
  "pbind (Done r) k = (case r of Ok a \<Rightarrow> k a | Err e \<Rightarrow> Done (Err e) | Panic s \<Rightarrow> Done (Panic s))"
| "pbind (Call t f) k = Call t (map_prod (\<lambda>p. pbind p k) id \<circ> f)"

definition call :: "target \<Rightarrow> ('w, 'a) io \<Rightarrow> ('w, 'a) prog" where
  "call t m = Call t (\<lambda>w. case m w of (r, w') \<Rightarrow> (Done r, w'))"

fun pmap :: "('a \<Rightarrow> ('w, 'b) prog) \<Rightarrow> 'a list \<Rightarrow> ('w, 'b list) prog" where
  "pmap f [] = Done (Ok [])"
| "pmap f (x # xs) = pbind (f x) (\<lambda>y. pbind (pmap f xs) (\<lambda>ys. Done (Ok (y # ys))))"

lemma io_lift_folds: "io_return a = io_lift (Ok a)" "io_err e = io_lift (Err e)"
  by (simp_all add: io_return_def io_err_def io_lift_def)

lemma run_Call: "f w = (p, w') \<Longrightarrow> run (Call t f) w = run p w'"
  by simp

lemma run_pbind [simp]: "run (pbind p k) = io_bind (run p) (\<lambda>a. run (k a))"
proof
  fix w
  show "run (pbind p k) w = io_bind (run p) (\<lambda>a. run (k a)) w"
  proof (induction p arbitrary: w)
    case (Done r)
    then show ?case by (cases r) (simp_all add: io_bind_def io_lift_def)
  next
    case (Call t f)
    obtain p w' where f: "f w = (p, w')" by fastforce
    then have "p \<in> Basic_BNFs.fsts (f w)" by simp
    from Call [OF rangeI this] f show ?case by (simp add: io_bind_def)
  qed
qed

lemma run_call [simp]: "run (call t m) = m"
  by (auto simp: call_def io_lift_def split: prod.splits)

lemma run_pmap [simp]: "run (pmap f xs) = io_map (\<lambda>x. run (f x)) xs"
  by (induction xs) (simp_all add: io_return_def io_lift_def)

lemma pbind_Done_simps [simp]:
  "pbind (Done (Ok a)) k = k a" "pbind (Done (Err e)) k = Done (Err e)" "pbind (Done (Panic s)) k = Done (Panic s)"
  by simp_all

declare pbind.simps(1) [simp del]

lemma pbind_assoc: "pbind (pbind p f) g = pbind p (\<lambda>a. pbind (f a) g)"
proof (induction p)
  case (Done r)
  then show ?case by (cases r) simp_all
next
  case (Call t h)
  show ?case
  proof (simp add: fun_eq_iff, rule allI)
    fix w
    obtain p w' where h: "h w = (p, w')" by fastforce
    then have "p \<in> Basic_BNFs.fsts (h w)" by simp
    from Call [OF rangeI this] h
    show "map_prod (\<lambda>p. pbind p g) id (map_prod (\<lambda>p. pbind p f) id (h w)) = map_prod (\<lambda>p. pbind p (\<lambda>a. pbind (f a) g)) id (h w)"
      by simp
  qed
qed

lemma pbind_Call_step:
  assumes "(map_prod (\<lambda>p. pbind p k) id \<circ> f) w = (q, w')"
  obtains p where "f w = (p, w')" "q = pbind p k"
  using assms by (cases "f w") auto

end
