(* ===== verification/Coordinated_Programs.thy ===== *)
theory Coordinated_Programs
  imports Coordinated_Refinement Interleaving
begin

text \<open>
  The key-value handlers of \<open>coordinated_proxy.go\<close> as programs, one call for every draw from \<open>crypto/rand\<close> and every
  remote call, in the order of the code. A program that runs alone is the handler of
  \<open>Coordinated_Proxy\<close> (\<open>run_Range\<close>, \<open>run_Put\<close>, \<open>run_DeleteRange\<close>, \<open>run_Txn\<close>).
\<close>

section \<open>Handlers as programs\<close>

datatype KVResponse =
  RespRange RangeResponse | RespPut PutResponse | RespDelete DeleteRangeResponse | RespTxn TxnResponse

definition Range_prog ::
  "('c, 'm, 'w) Grpc \<Rightarrow> ('conn, 'c, 'm, 'w) CoordinatedProxy \<Rightarrow> 'c \<Rightarrow> RangeRequest option \<Rightarrow> ('w, RangeResponse) prog"
where
  "Range_prog g p ctx req =
     pbind (Done (rangeRequest req)) (\<lambda>r.
       pbind (call Coordinator (forwardUnary g ctx r (KV_Range (bp_kv (cp_backend p))))) (\<lambda>out.
         pbind (Done (deref req (\<lambda>q. Ok (rr_KeysOnly q)))) (\<lambda>keysOnly.
           pbind (pmap (\<lambda>kv. call DataShard (decode_kv g p ctx keysOnly kv)) (rs_Kvs out)) (\<lambda>kvs.
             Done (Ok (out\<lparr>rs_Kvs := kvs\<rparr>))))))"

definition stagePut_prog ::
  "('c, 'm, 'w) Grpc \<Rightarrow> (nat \<Rightarrow> ('w, bytes) io) \<Rightarrow> ('conn, 'c, 'm, 'w) CoordinatedProxy \<Rightarrow> 'c \<Rightarrow>
   PutRequest \<Rightarrow> ('w, PutRequest) prog"
where
  "stagePut_prog g rand_read p ctx req =
     pbind (Done (coordinatedKeys (pr_Key req) [])) (\<lambda>(k, _).
       let r = req\<lparr>pr_Key := k\<rparr> in
       if pr_IgnoreValue r then Done (Ok r)
       else
         pbind (call Random (rand_read 32)) (\<lambda>token.
           pbind (Done (shard p (pr_Key req))) (\<lambda>i.
             let blob = CoordinatedBlobPrefix @ hex_encode token in
             pbind (Done (index (cp_clients p) (int i))) (\<lambda>client.
               pbind (call DataShard (rpc_call (KV_Put client) (backendContext g ctx)
                          (put_request blob (pr_Value req)))) (\<lambda>_.
                 Done (Ok (r\<lparr>pr_Value := Marshal_ref \<lparr>ref_Shard = int i, ref_Key = blob\<rparr>\<rparr>)))))))"

definition Put_prog ::
  "('c, 'm, 'w) Grpc \<Rightarrow> (nat \<Rightarrow> ('w, bytes) io) \<Rightarrow> ('conn, 'c, 'm, 'w) CoordinatedProxy \<Rightarrow> 'c \<Rightarrow>
   PutRequest option \<Rightarrow> ('w, PutResponse) prog"
where
  "Put_prog g rand_read p ctx req =
     pbind (Done (validateCoordinatedPut req)) (\<lambda>_.
       pbind (Done (deref req Ok)) (\<lambda>q.
         pbind (stagePut_prog g rand_read p ctx q) (\<lambda>r.
           pbind (call Coordinator (forwardUnary g ctx r (KV_Put (bp_kv (cp_backend p))))) (\<lambda>out.
             pbind (call DataShard (decodeKV g p ctx (ps_PrevKv out) False)) (\<lambda>prev.
               Done (Ok (out\<lparr>ps_PrevKv := prev\<rparr>)))))))"

definition DeleteRange_prog ::
  "('c, 'm, 'w) Grpc \<Rightarrow> ('conn, 'c, 'm, 'w) CoordinatedProxy \<Rightarrow> 'c \<Rightarrow> DeleteRangeRequest option \<Rightarrow>
   ('w, DeleteRangeResponse) prog"
where
  "DeleteRange_prog g p ctx req =
     (case req of
        None \<Rightarrow> Done (Err (coordinatedInvalid ''missing delete''))
      | Some q \<Rightarrow>
          pbind (Done (mutationShard p (dr_Key q) (dr_RangeEnd q))) (\<lambda>_.
            pbind (Done (coordinatedDelete req)) (\<lambda>r.
              pbind (call Coordinator (forwardUnary g ctx r (KV_DeleteRange (bp_kv (cp_backend p))))) (\<lambda>out.
                pbind (pmap (\<lambda>kv. call DataShard (decode_kv g p ctx False kv)) (ds_PrevKvs out)) (\<lambda>prevs.
                  Done (Ok (out\<lparr>ds_PrevKvs := prevs\<rparr>)))))))"

definition stageOp_prog ::
  "('c, 'm, 'w) Grpc \<Rightarrow> (nat \<Rightarrow> ('w, bytes) io) \<Rightarrow> ('conn, 'c, 'm, 'w) CoordinatedProxy \<Rightarrow> 'c \<Rightarrow>
   RequestOp option \<Rightarrow> ('w, RequestOp option) prog"
where
  "stageOp_prog g rand_read p ctx op =
     (case op of
        None \<Rightarrow> Done (Panic ''nil pointer dereference'')
      | Some (RequestRange v) \<Rightarrow>
          pbind (Done (rangeRequest v)) (\<lambda>r. Done (Ok (Some (RequestRange (Some r)))))
      | Some (RequestPut v) \<Rightarrow>
          pbind (Done (deref v Ok)) (\<lambda>q.
            pbind (stagePut_prog g rand_read p ctx q) (\<lambda>r. Done (Ok (Some (RequestPut (Some r))))))
      | Some (RequestDeleteRange v) \<Rightarrow>
          pbind (Done (coordinatedDelete v)) (\<lambda>r. Done (Ok (Some (RequestDeleteRange (Some r)))))
      | Some other \<Rightarrow> Done (Ok (Some other)))"

definition decodeResponse_prog ::
  "('c, 'm, 'w) Grpc \<Rightarrow> ('conn, 'c, 'm, 'w) CoordinatedProxy \<Rightarrow> 'c \<Rightarrow> RequestOp option list \<Rightarrow> nat \<Rightarrow>
   ResponseOp \<Rightarrow> ('w, ResponseOp) prog"
where
  "decodeResponse_prog g p ctx branch i op =
     (case op of
        ResponseRange v \<Rightarrow>
          pbind (pmap (\<lambda>kv. pbind (Done (branch_keysOnly branch i))
                               (\<lambda>keysOnly. call DataShard (decode_kv g p ctx keysOnly kv))) (rs_Kvs v)) (\<lambda>kvs.
            Done (Ok (ResponseRange (v\<lparr>rs_Kvs := kvs\<rparr>))))
      | ResponsePut v \<Rightarrow>
          pbind (call DataShard (decodeKV g p ctx (ps_PrevKv v) False)) (\<lambda>prev.
            Done (Ok (ResponsePut (v\<lparr>ps_PrevKv := prev\<rparr>))))
      | ResponseDeleteRange v \<Rightarrow>
          pbind (pmap (\<lambda>kv. call DataShard (decode_kv g p ctx False kv)) (ds_PrevKvs v)) (\<lambda>prevs.
            Done (Ok (ResponseDeleteRange (v\<lparr>ds_PrevKvs := prevs\<rparr>))))
      | other \<Rightarrow> Done (Ok other))"

fun decodeResponses_prog ::
  "('c, 'm, 'w) Grpc \<Rightarrow> ('conn, 'c, 'm, 'w) CoordinatedProxy \<Rightarrow> 'c \<Rightarrow> RequestOp option list \<Rightarrow> nat \<Rightarrow>
   ResponseOp list \<Rightarrow> ('w, ResponseOp list) prog"
where
  "decodeResponses_prog g p ctx branch i [] = Done (Ok [])"
| "decodeResponses_prog g p ctx branch i (op # ops) =
     pbind (decodeResponse_prog g p ctx branch i op) (\<lambda>op'.
       pbind (decodeResponses_prog g p ctx branch (Suc i) ops) (\<lambda>ops'. Done (Ok (op' # ops'))))"

definition Txn_prog ::
  "('c, 'm, 'w) Grpc \<Rightarrow> (nat \<Rightarrow> ('w, bytes) io) \<Rightarrow> ('conn, 'c, 'm, 'w) CoordinatedProxy \<Rightarrow> 'c \<Rightarrow>
   TxnRequest option \<Rightarrow> ('w, TxnResponse) prog"
where
  "Txn_prog g rand_read p ctx req =
     (case req of
        None \<Rightarrow> Done (Err (coordinatedInvalid ''missing txn''))
      | Some q \<Rightarrow>
          pbind (Done (rewriteCompares (txn_Compare q))) (\<lambda>compare.
            pbind (Done (validateOps p (-1) (txn_Success q))) (\<lambda>mutation.
              pbind (Done (validateOps p mutation (txn_Failure q))) (\<lambda>_.
                pbind (pmap (stageOp_prog g rand_read p ctx) (txn_Success q)) (\<lambda>success.
                  pbind (pmap (stageOp_prog g rand_read p ctx) (txn_Failure q)) (\<lambda>failure.
                    pbind (call Coordinator (forwardUnary g ctx (TxnRequest compare success failure)
                               (KV_Txn (bp_kv (cp_backend p))))) (\<lambda>out.
                      let branch = (if txr_Succeeded out then txn_Success q else txn_Failure q) in
                      pbind (decodeResponses_prog g p ctx branch 0 (txr_Responses out)) (\<lambda>responses.
                        Done (Ok (TxnResponse (txr_Header out) (txr_Succeeded out) responses))))))))))"

definition handler :: "('conn, 'c, 'm, 'w) deployment \<Rightarrow> 'c \<times> KVRequest \<Rightarrow> ('w, KVResponse) prog" where
  "handler d cr =
     (case cr of (ctx, req) \<Rightarrow>
        (case req of
           ReqRange q \<Rightarrow> pbind (Range_prog (dp_grpc d) (dp_proxy d) ctx (Some q)) (\<lambda>r. Done (Ok (RespRange r)))
         | ReqPut q \<Rightarrow> pbind (Put_prog (dp_grpc d) (dp_rand d) (dp_proxy d) ctx (Some q)) (\<lambda>r. Done (Ok (RespPut r)))
         | ReqDelete q \<Rightarrow> pbind (DeleteRange_prog (dp_grpc d) (dp_proxy d) ctx (Some q)) (\<lambda>r. Done (Ok (RespDelete r)))
         | ReqTxn q \<Rightarrow> pbind (Txn_prog (dp_grpc d) (dp_rand d) (dp_proxy d) ctx (Some q)) (\<lambda>r. Done (Ok (RespTxn r)))))"

text \<open>A program that runs alone is the handler.\<close>

lemma run_Range [simp]: "run (Range_prog g p ctx req) = CoordinatedProxy_Range g p ctx req"
  by (simp add: Range_prog_def CoordinatedProxy_Range_def io_lift_folds)

lemma run_stagePut [simp]: "run (stagePut_prog g rand_read p ctx req) = stagePut g rand_read p ctx req"
  by (cases "pr_IgnoreValue req") (simp_all add: stagePut_prog_def stagePut_def io_lift_folds Let_def case_prod_unfold)

lemma run_Put [simp]: "run (Put_prog g rand_read p ctx req) = CoordinatedProxy_Put g rand_read p ctx req"
  by (simp add: Put_prog_def CoordinatedProxy_Put_def io_lift_folds)

lemma run_DeleteRange [simp]: "run (DeleteRange_prog g p ctx req) = CoordinatedProxy_DeleteRange g p ctx req"
  by (simp add: DeleteRange_prog_def CoordinatedProxy_DeleteRange_def io_lift_folds split: option.splits)

lemma run_stageOp [simp]: "run (stageOp_prog g rand_read p ctx op) = stageOp g rand_read p ctx op"
  by (auto simp: stageOp_prog_def stageOp_def io_lift_folds split: option.splits RequestOp.splits)

lemma run_decodeResponse [simp]:
  "run (decodeResponse_prog g p ctx branch i op) = decodeResponse g p ctx branch i op"
  by (auto simp: decodeResponse_prog_def decodeResponse_def io_lift_folds split: ResponseOp.splits)

lemma run_decodeResponses [simp]:
  "run (decodeResponses_prog g p ctx branch i ops) = decodeResponses g p ctx branch i ops"
  by (induction ops arbitrary: i) (simp_all add: io_lift_folds)

lemma run_Txn [simp]: "run (Txn_prog g rand_read p ctx req) = CoordinatedProxy_Txn g rand_read p ctx req"
  by (simp add: Txn_prog_def CoordinatedProxy_Txn_def io_lift_folds Let_def split: option.splits)

lemma run_handler_world: "snd (run (handler d (ctx, req)) w) = serve (d, ctx) req w"
  by (cases req) (auto simp: handler_def serve_def io_bind_def io_lift_def split: prod.splits result.splits)

end
