(* ===== verification/Machines.thy ===== *)
theory Machines
  imports Main
begin

text \<open>
  Machines that several goroutines drive: a step function on events, which is \<^const>\<open>None\<close> where the
  event cannot happen, its execution on a schedule of events, and the reachable states.

  \<open>machine_invariant\<close> is the contract of an invariant; \<open>relative_invariant\<close> one that is kept in
  the presence of another. The machines of the proxy's streams interpret them.
\<close>

fun exec :: "('e \<Rightarrow> 's \<Rightarrow> 's option) \<Rightarrow> 'e list \<Rightarrow> 's \<Rightarrow> 's option" where
  "exec step [] s = Some s"
| "exec step (e # es) s = Option.bind (step e s) (exec step es)"

lemma exec_append: "exec step (xs @ ys) s = Option.bind (exec step xs s) (exec step ys)"
  by (induction xs arbitrary: s) (auto split: bind_splits)

text \<open>The states a schedule passes through.\<close>

fun visited :: "('e \<Rightarrow> 's \<Rightarrow> 's option) \<Rightarrow> 'e list \<Rightarrow> 's \<Rightarrow> 's list" where
  "visited step [] s = [s]"
| "visited step (e # es) s = s # (case step e s of None \<Rightarrow> [] | Some s' \<Rightarrow> visited step es s')"

lemma visited_start: "s \<in> set (visited step es s)"
  by (cases es) simp_all

lemma visited_end: "exec step es s = Some s' \<Longrightarrow> s' \<in> set (visited step es s)"
  by (induction es arbitrary: s) (auto simp: bind_eq_Some_conv)

inductive reachable :: "('s \<Rightarrow> bool) \<Rightarrow> ('e \<Rightarrow> 's \<Rightarrow> 's option) \<Rightarrow> 's \<Rightarrow> bool"
  for start :: "'s \<Rightarrow> bool" and step :: "'e \<Rightarrow> 's \<Rightarrow> 's option"
where
  reachable_start: "start s \<Longrightarrow> reachable start step s"
| reachable_step: "reachable start step s \<Longrightarrow> step e s = Some s' \<Longrightarrow> reachable start step s'"

lemma exec_reachable:
  "reachable start step s \<Longrightarrow> exec step es s = Some s' \<Longrightarrow> reachable start step s'"
proof (induction es arbitrary: s)
  case (Cons e es)
  then obtain s1 where "step e s = Some s1" "exec step es s1 = Some s'"
    by (auto simp: bind_eq_Some_conv)
  with Cons.IH reachable_step [OF Cons.prems(1)] show ?case by metis
qed simp

locale machine_invariant =
  fixes start :: "'s \<Rightarrow> bool" and step :: "'e \<Rightarrow> 's \<Rightarrow> 's option" and inv :: "'s \<Rightarrow> bool"
  assumes initially: "start s \<Longrightarrow> inv s"
    and kept: "inv s \<Longrightarrow> step e s = Some s' \<Longrightarrow> inv s'"
begin

lemma always: "reachable start step s \<Longrightarrow> inv s"
  by (induction rule: reachable.induct) (auto intro: initially kept)

lemma always_exec: "start s \<Longrightarrow> exec step es s = Some s' \<Longrightarrow> inv s'"
  using exec_reachable [OF reachable_start] by (rule always)

end

locale relative_invariant = machine_invariant +
  fixes inv' :: "'a \<Rightarrow> bool"
  assumes initially': "start s \<Longrightarrow> inv' s"
    and kept': "inv s \<Longrightarrow> inv' s \<Longrightarrow> step e s = Some s' \<Longrightarrow> inv' s'"

sublocale relative_invariant \<subseteq> both: machine_invariant start step "\<lambda>s. inv s \<and> inv' s"
  by unfold_locales (auto intro: initially initially' kept kept')

context relative_invariant
begin

lemma always': "reachable start step s \<Longrightarrow> inv' s"
  using both.always by blast

end

end
