(* ===== verification/Coordinated_Concurrency.thy ===== *)
theory Coordinated_Concurrency
  imports Coordinated_Programs Machines
begin

text \<open>
  Concurrent requests to the coordinated proxy. The gRPC server runs every request in a goroutine of its
  own, so the calls of several handlers interleave. \<open>conc_step\<close> starts a request or lets a running one
  make its next call; the log records, for the coordinator call of a request, the world before and after it.

  The log is a linearization (\<open>linear\<close>): it is a sequential history of the requests, with at most one entry for each,
  and every request that was answered without an error has an entry, made while it was running, that explains
  its effect and its answer (\<open>explains\<close>). The proof follows the phases of a handler: it stages blobs under tokens
  of its own (\<open>staging\<close>), makes its coordinator call (\<open>commits\<close>), then only reads blobs, which never change
  (\<open>settled\<close>). The random source must not repeat a token, which is the law \<open>token_laws\<close>.
\<close>

section \<open>Executions\<close>

datatype 'w thread = Idle | Running "('w, KVResponse) prog"

datatype conc_event = Invoke nat | Advance nat

record 'w conc =
  cc_world :: 'w
  cc_threads :: "nat \<Rightarrow> 'w thread"
  cc_log :: "(nat \<times> 'w \<times> 'w) list"

definition conc_start :: "'w \<Rightarrow> 'w conc" where
  "conc_start w = \<lparr>cc_world = w, cc_threads = (\<lambda>_. Idle), cc_log = []\<rparr>"

fun conc_step ::
  "('conn, 'c, 'm, 'w) deployment \<Rightarrow> (nat \<Rightarrow> 'c \<times> KVRequest) \<Rightarrow> conc_event \<Rightarrow> 'w conc \<Rightarrow> 'w conc option"
where
  "conc_step d reqs (Invoke i) s =
     (case cc_threads s i of
        Idle \<Rightarrow> Some (s\<lparr>cc_threads := (cc_threads s)(i := Running (handler d (reqs i)))\<rparr>)
      | Running p \<Rightarrow> None)"
| "conc_step d reqs (Advance i) s =
     (case cc_threads s i of
        Running (Call t f) \<Rightarrow>
          (case f (cc_world s) of (p, w) \<Rightarrow>
             Some (s\<lparr>cc_world := w, cc_threads := (cc_threads s)(i := Running p),
                     cc_log := cc_log s @ (if t = Coordinator then [(i, cc_world s, w)] else [])\<rparr>))
      | _ \<Rightarrow> None)"

text \<open>What the coordinator answered to a call, forwarded with the context of the request.\<close>

definition asked ::
  "('conn, 'c, 'm, 'w) deployment \<Rightarrow> 'c \<Rightarrow> ('c, 'm, 'w, 'q, 'r) rpc \<Rightarrow> 'q \<Rightarrow> 'w \<Rightarrow> 'r \<Rightarrow> 'w \<Rightarrow> bool"
where
  "asked d ctx f q w out w' \<longleftrightarrow>
     (\<exists>h t w1. f (backendContext (dp_grpc d) ctx) q w = ((Ok out, h, t), w1) \<and> same_views d w1 w')"

text \<open>
  The answers of the operations of a transaction, with the pairs resolved; whether the values of a range were
  asked for is what the operation at that position says.
\<close>

definition keys_only_at :: "RequestOp option list \<Rightarrow> nat \<Rightarrow> bool" where
  "keys_only_at branch i \<longleftrightarrow>
     i < length branch \<and> (case branch ! i of Some (RequestRange (Some q)) \<Rightarrow> rr_KeysOnly q | _ \<Rightarrow> False)"

definition response_resolved :: "nat \<Rightarrow> (nat \<Rightarrow> store) \<Rightarrow> bool \<Rightarrow> ResponseOp \<Rightarrow> ResponseOp \<Rightarrow> bool" where
  "response_resolved n B keysOnly raw r \<longleftrightarrow>
     (case raw of
        ResponseRange v \<Rightarrow>
          (\<exists>kvs. r = ResponseRange (v\<lparr>rs_Kvs := kvs\<rparr>) \<and> list_all2 (resolved n B keysOnly) (rs_Kvs v) kvs)
      | ResponsePut v \<Rightarrow>
          (\<exists>prev. r = ResponsePut (v\<lparr>ps_PrevKv := prev\<rparr>) \<and> rel_option (resolved n B False) (ps_PrevKv v) prev)
      | ResponseDeleteRange v \<Rightarrow>
          (\<exists>prevs. r = ResponseDeleteRange (v\<lparr>ds_PrevKvs := prevs\<rparr>) \<and>
             list_all2 (resolved n B False) (ds_PrevKvs v) prevs)
      | _ \<Rightarrow> r = raw)"

fun responses_resolved ::
  "nat \<Rightarrow> (nat \<Rightarrow> store) \<Rightarrow> RequestOp option list \<Rightarrow> nat \<Rightarrow> ResponseOp list \<Rightarrow> ResponseOp list \<Rightarrow> bool"
where
  "responses_resolved n B branch i [] rs \<longleftrightarrow> rs = []"
| "responses_resolved n B branch i (raw # raws) rs \<longleftrightarrow>
     (\<exists>r rs'. rs = r # rs' \<and> response_resolved n B (keys_only_at branch i) raw r \<and>
        responses_resolved n B branch (Suc i) raws rs')"

text \<open>
  What explains an answered request: its coordinator call took the world from \<open>w\<close> to \<open>w'\<close>. The call asked for the
  metadata keys of the user's keys, in ranges and in comparisons, with references to the request's values;
  the user's map changed by the effect of the request; the answer is the coordinator's with user keys, and
  every reference replaced by its blob in \<open>B\<close>. A linearizable read answers for the user's map.
\<close>

abbreviation coordinator_kv :: "('conn, 'c, 'm, 'w) deployment \<Rightarrow> ('c, 'm, 'w) KVClient" where
  "coordinator_kv d \<equiv> bp_kv (cp_backend (dp_proxy d))"

abbreviation shard_count :: "('conn, 'c, 'm, 'w) deployment \<Rightarrow> nat" where
  "shard_count d \<equiv> length (cp_clients (dp_proxy d))"

definition range_explained ::
  "('conn, 'c, 'm, 'w) deployment \<Rightarrow> 'c \<Rightarrow> RangeRequest \<Rightarrow> (nat \<Rightarrow> store) \<Rightarrow> 'w \<Rightarrow> KVResponse \<Rightarrow> 'w \<Rightarrow> bool"
where
  "range_explained d ctx q B w resp w' \<longleftrightarrow>
     abs_view d w' = abs_view d w \<and>
     (\<exists>q' raw kvs. staged_range q q' \<and> asked d ctx (KV_Range (coordinator_kv d)) q' w raw w' \<and>
        resp = RespRange (raw\<lparr>rs_Kvs := kvs\<rparr>) \<and>
        list_all2 (resolved (shard_count d) B (rr_KeysOnly q)) (rs_Kvs raw) kvs \<and>
        (linearizable q \<longrightarrow> range_answer q (abs_view d w) kvs))"

definition put_explained ::
  "('conn, 'c, 'm, 'w) deployment \<Rightarrow> 'c \<Rightarrow> PutRequest \<Rightarrow> (nat \<Rightarrow> store) \<Rightarrow> 'w \<Rightarrow> KVResponse \<Rightarrow> 'w \<Rightarrow> bool"
where
  "put_explained d ctx q B w resp w' \<longleftrightarrow>
     abs_view d w' = put_effect q (abs_view d w) \<and>
     (\<exists>q' raw prev. staged_put (shard_count d) (dp_blobs d w) q q' \<and>
        asked d ctx (KV_Put (coordinator_kv d)) q' w raw w' \<and>
        resp = RespPut (raw\<lparr>ps_PrevKv := prev\<rparr>) \<and>
        rel_option (resolved (shard_count d) B False) (ps_PrevKv raw) prev)"

definition delete_explained ::
  "('conn, 'c, 'm, 'w) deployment \<Rightarrow> 'c \<Rightarrow> DeleteRangeRequest \<Rightarrow> (nat \<Rightarrow> store) \<Rightarrow> 'w \<Rightarrow> KVResponse \<Rightarrow> 'w \<Rightarrow> bool"
where
  "delete_explained d ctx q B w resp w' \<longleftrightarrow>
     abs_view d w' = delete_effect q (abs_view d w) \<and>
     (\<exists>q' raw prevs. staged_delete q q' \<and> asked d ctx (KV_DeleteRange (coordinator_kv d)) q' w raw w' \<and>
        resp = RespDelete (raw\<lparr>ds_PrevKvs := prevs\<rparr>) \<and>
        list_all2 (resolved (shard_count d) B False) (ds_PrevKvs raw) prevs)"

definition txn_explained ::
  "('conn, 'c, 'm, 'w) deployment \<Rightarrow> 'c \<Rightarrow> TxnRequest \<Rightarrow> (nat \<Rightarrow> store) \<Rightarrow> 'w \<Rightarrow> KVResponse \<Rightarrow> 'w \<Rightarrow> bool"
where
  "txn_explained d ctx q B w resp w' \<longleftrightarrow>
     (\<exists>compare success failure raw rs branch.
        list_all2 staged_compare (txn_Compare q) compare \<and>
        list_all2 (staged_op (shard_count d) (dp_blobs d w)) (txn_Success q) success \<and>
        list_all2 (staged_op (shard_count d) (dp_blobs d w)) (txn_Failure q) failure \<and>
        asked d ctx (KV_Txn (coordinator_kv d)) (TxnRequest compare success failure) w raw w' \<and>
        branch = (if txr_Succeeded raw then txn_Success q else txn_Failure q) \<and>
        abs_view d w' = ops_effect branch (abs_view d w) \<and>
        resp = RespTxn (TxnResponse (txr_Header raw) (txr_Succeeded raw) rs) \<and>
        responses_resolved (shard_count d) B branch 0 (txr_Responses raw) rs)"

definition explains ::
  "('conn, 'c, 'm, 'w) deployment \<Rightarrow> 'c \<times> KVRequest \<Rightarrow> (nat \<Rightarrow> store) \<Rightarrow> 'w \<Rightarrow> KVResponse \<Rightarrow> 'w \<Rightarrow> bool"
where
  "explains d cr B w resp w' \<longleftrightarrow>
     (case cr of (ctx, req) \<Rightarrow>
        (case req of
           ReqRange q \<Rightarrow> range_explained d ctx q B w resp w'
         | ReqPut q \<Rightarrow> put_explained d ctx q B w resp w'
         | ReqDelete q \<Rightarrow> delete_explained d ctx q B w resp w'
         | ReqTxn q \<Rightarrow> txn_explained d ctx q B w resp w'))"

text \<open>A log as a sequential history from one map to another.\<close>

fun history ::
  "('conn, 'c, 'm, 'w) deployment \<Rightarrow> (nat \<Rightarrow> KVRequest) \<Rightarrow> store \<Rightarrow> (nat \<times> 'w \<times> 'w) list \<Rightarrow> store \<Rightarrow> bool"
where
  "history d reqs m [] m' \<longleftrightarrow> m' = m"
| "history d reqs m ((i, w, w') # log) m' \<longleftrightarrow>
     abs_view d w = m \<and> abs_view d w' \<in> request_effects (reqs i) m \<and> history d reqs (abs_view d w') log m'"

section \<open>Phases of a handler\<close>

text \<open>The random source does not repeat a token; \<open>drawn\<close> is the set of tokens it gave so far.\<close>

definition keeps :: "('w \<Rightarrow> 'v) \<Rightarrow> ('c \<Rightarrow> 'q \<Rightarrow> 'w \<Rightarrow> 'x \<times> 'w) \<Rightarrow> bool" where
  "keeps view f \<longleftrightarrow> (\<forall>ctx q w x w'. f ctx q w = (x, w') \<longrightarrow> view w' = view w)"

definition token_laws :: "('conn, 'c, 'm, 'w) deployment \<Rightarrow> ('w \<Rightarrow> bytes set) \<Rightarrow> bool" where
  "token_laws d drawn \<longleftrightarrow>
     (\<forall>n w r w'. dp_rand d n w = (r, w') \<longrightarrow>
        drawn w \<subseteq> drawn w' \<and> (\<forall>token. r = Ok token \<longrightarrow> token \<in> drawn w' - drawn w)) \<and>
     transport_laws (dp_grpc d) drawn \<and>
     (\<forall>i < length (cp_clients (dp_proxy d)).
        keeps drawn (KV_Put (cp_clients (dp_proxy d) ! i)) \<and> keeps drawn (KV_Range (cp_clients (dp_proxy d) ! i))) \<and>
     keeps drawn (KV_Range (bp_kv (cp_backend (dp_proxy d)))) \<and> keeps drawn (KV_Put (bp_kv (cp_backend (dp_proxy d)))) \<and>
     keeps drawn (KV_DeleteRange (bp_kv (cp_backend (dp_proxy d)))) \<and> keeps drawn (KV_Txn (bp_kv (cp_backend (dp_proxy d))))"

definition blob_key :: "bytes \<Rightarrow> bytes" where
  "blob_key token = CoordinatedBlobPrefix @ hex_encode token"

lemma blob_key_inj: "blob_key a = blob_key b \<longleftrightarrow> a = b"
  by (auto simp: blob_key_def dest: hex_encode_inj)

text \<open>
  A handler knows a lower bound \<open>B\<close> of the blobs and owns tokens \<open>O\<close> it drew and did not use yet. While staging
  it changes nothing but blobs of its own tokens.
\<close>

definition unused :: "('conn, 'c, 'm, 'w) deployment \<Rightarrow> bytes set \<Rightarrow> 'w \<Rightarrow> bool" where
  "unused d T w \<longleftrightarrow> (\<forall>token \<in> T. \<forall>j. dp_blobs d w j (blob_key token) = None)"

definition ready ::
  "('conn, 'c, 'm, 'w) deployment \<Rightarrow> ('w \<Rightarrow> bytes set) \<Rightarrow> (nat \<Rightarrow> store) \<Rightarrow> bytes set \<Rightarrow> 'w \<Rightarrow> bool"
where
  "ready d drawn B T w \<longleftrightarrow> grows B (dp_blobs d w) \<and> T \<subseteq> drawn w \<and> unused d T w"

definition stages ::
  "('conn, 'c, 'm, 'w) deployment \<Rightarrow> ('w \<Rightarrow> bytes set) \<Rightarrow> bytes set \<Rightarrow> 'w \<Rightarrow> bytes set \<Rightarrow> 'w \<Rightarrow> bool"
where
  "stages d drawn T w T' w' \<longleftrightarrow>
     dp_meta d w' = dp_meta d w \<and> drawn w \<subseteq> drawn w' \<and> T' \<subseteq> T \<union> (drawn w' - drawn w) \<and> unused d T' w' \<and>
     (\<forall>j k. dp_blobs d w' j k = dp_blobs d w j k \<or> (\<exists>token \<in> T. k = blob_key token))"

inductive staging ::
  "('conn, 'c, 'm, 'w) deployment \<Rightarrow> ('w \<Rightarrow> bytes set) \<Rightarrow> ('a \<Rightarrow> (nat \<Rightarrow> store) \<Rightarrow> bytes set \<Rightarrow> bool) \<Rightarrow>
   (nat \<Rightarrow> store) \<Rightarrow> bytes set \<Rightarrow> ('w, 'a) prog \<Rightarrow> bool"
  for d :: "('conn, 'c, 'm, 'w) deployment" and drawn and R :: "'a \<Rightarrow> (nat \<Rightarrow> store) \<Rightarrow> bytes set \<Rightarrow> bool"
where
  staging_Done: "(\<And>a. r = Ok a \<Longrightarrow> R a B T) \<Longrightarrow> staging d drawn R B T (Done r)"
| staging_Call: "t \<noteq> Coordinator \<Longrightarrow>
    (\<And>w p w'. ready d drawn B T w \<Longrightarrow> f w = (p, w') \<Longrightarrow>
       \<exists>T'. stages d drawn T w T' w' \<and> staging d drawn R (dp_blobs d w') T' p) \<Longrightarrow>
    staging d drawn R B T (Call t f)"

inductive settled ::
  "('conn, 'c, 'm, 'w) deployment \<Rightarrow> ('w \<Rightarrow> bytes set) \<Rightarrow> ('a \<Rightarrow> (nat \<Rightarrow> store) \<Rightarrow> bool) \<Rightarrow> (nat \<Rightarrow> store) \<Rightarrow>
   ('w, 'a) prog \<Rightarrow> bool"
  for d :: "('conn, 'c, 'm, 'w) deployment" and drawn and Q :: "'a \<Rightarrow> (nat \<Rightarrow> store) \<Rightarrow> bool"
where
  settled_Done: "(\<And>a. r = Ok a \<Longrightarrow> Q a B) \<Longrightarrow> settled d drawn Q B (Done r)"
| settled_Call: "t \<noteq> Coordinator \<Longrightarrow>
    (\<And>w p w'. grows B (dp_blobs d w) \<Longrightarrow> f w = (p, w') \<Longrightarrow>
       same_views d w w' \<and> drawn w' = drawn w \<and> settled d drawn Q (dp_blobs d w) p) \<Longrightarrow>
    settled d drawn Q B (Call t f)"

definition commits ::
  "('conn, 'c, 'm, 'w) deployment \<Rightarrow> ('w \<Rightarrow> bytes set) \<Rightarrow> 'c \<times> KVRequest \<Rightarrow> (nat \<Rightarrow> store) \<Rightarrow>
   ('w \<Rightarrow> ('w, KVResponse) prog \<times> 'w) \<Rightarrow> bool"
where
  "commits d drawn cr B f \<longleftrightarrow>
     (\<forall>w p w'. grows B (dp_blobs d w) \<longrightarrow> refs_resolve d w \<longrightarrow> f w = (p, w') \<longrightarrow>
        dp_blobs d w' = dp_blobs d w \<and> drawn w' = drawn w \<and> refs_resolve d w' \<and>
        abs_view d w' \<in> request_effects (snd cr) (abs_view d w) \<and>
        settled d drawn (\<lambda>resp B'. explains d cr B' w resp w') (dp_blobs d w) p)"

inductive unsettled ::
  "('conn, 'c, 'm, 'w) deployment \<Rightarrow> ('w \<Rightarrow> bytes set) \<Rightarrow> 'c \<times> KVRequest \<Rightarrow>
   (nat \<Rightarrow> store) \<Rightarrow> bytes set \<Rightarrow> ('w, KVResponse) prog \<Rightarrow> bool"
  for d :: "('conn, 'c, 'm, 'w) deployment" and drawn cr
where
  unsettled_Done: "\<not> accepted r \<Longrightarrow> unsettled d drawn cr B T (Done r)"
| unsettled_Call: "t \<noteq> Coordinator \<Longrightarrow>
    (\<And>w p w'. ready d drawn B T w \<Longrightarrow> f w = (p, w') \<Longrightarrow>
       \<exists>T'. stages d drawn T w T' w' \<and> unsettled d drawn cr (dp_blobs d w') T' p) \<Longrightarrow>
    unsettled d drawn cr B T (Call t f)"
| unsettled_Commit: "commits d drawn cr B f \<Longrightarrow> unsettled d drawn cr B T (Call Coordinator f)"

inductive_cases settled_CallE: "settled d drawn Q B (Call t f)"
inductive_cases settled_DoneE: "settled d drawn Q B (Done r)"
inductive_cases unsettled_CallE: "unsettled d drawn cr B T (Call t f)"
inductive_cases unsettled_DoneE: "unsettled d drawn cr B T (Done r)"

lemma settled_step:
  "settled d drawn Q B (Call t f) \<Longrightarrow> grows B (dp_blobs d w) \<Longrightarrow> f w = (p, w') \<Longrightarrow>
     t \<noteq> Coordinator \<and> same_views d w w' \<and> drawn w' = drawn w \<and> settled d drawn Q (dp_blobs d w) p"
  by (erule settled_CallE) blast

lemma unsettled_step:
  assumes "unsettled d drawn cr B T (Call t f)" and "ready d drawn B T w" "f w = (p, w')"
  obtains (stage) T' where "t \<noteq> Coordinator" "stages d drawn T w T' w'" "unsettled d drawn cr (dp_blobs d w') T' p"
  | (commit) "t = Coordinator" "commits d drawn cr B f"
  using assms(1) by (rule unsettled_CallE) (use assms(2,3) that in blast)+

section \<open>Composition\<close>

lemma staging_bind:
  assumes "staging d drawn R B T p" and "\<And>a B' T'. R a B' T' \<Longrightarrow> staging d drawn R' B' T' (k a)"
  shows "staging d drawn R' B T (pbind p k)"
  using assms(1)
proof (induction rule: staging.induct)
  case (staging_Done r B T)
  then show ?case by (cases r) (auto intro: assms(2) staging.staging_Done)
next
  case (staging_Call t B T f)
  show ?case unfolding pbind.simps
  proof (rule staging.staging_Call [OF staging_Call.hyps(1)])
    fix w q w' assume w: "ready d drawn B T w" and "(map_prod (\<lambda>p. pbind p k) id \<circ> f) w = (q, w')"
    then obtain p where "f w = (p, w')" "q = pbind p k" by (elim pbind_Call_step)
    with staging_Call.IH [OF w] show "\<exists>T'. stages d drawn T w T' w' \<and> staging d drawn R' (dp_blobs d w') T' q" by blast
  qed
qed

lemma unsettled_bind:
  assumes "staging d drawn R B T p" and "\<And>a B' T'. R a B' T' \<Longrightarrow> unsettled d drawn cr B' T' (k a)"
  shows "unsettled d drawn cr B T (pbind p k)"
  using assms(1)
proof (induction rule: staging.induct)
  case (staging_Done r B T)
  then show ?case by (cases r) (auto intro: assms(2) unsettled_Done)
next
  case (staging_Call t B T f)
  show ?case unfolding pbind.simps
  proof (rule unsettled.unsettled_Call [OF staging_Call.hyps(1)])
    fix w q w' assume w: "ready d drawn B T w" and "(map_prod (\<lambda>p. pbind p k) id \<circ> f) w = (q, w')"
    then obtain p where "f w = (p, w')" "q = pbind p k" by (elim pbind_Call_step)
    with staging_Call.IH [OF w] show "\<exists>T'. stages d drawn T w T' w' \<and> unsettled d drawn cr (dp_blobs d w') T' q" by blast
  qed
qed

lemma settled_bind:
  assumes "settled d drawn R B p" and "\<And>a B'. grows B B' \<Longrightarrow> R a B' \<Longrightarrow> settled d drawn Q B' (k a)"
  shows "settled d drawn Q B (pbind p k)"
  using assms
proof (induction rule: settled.induct)
  case (settled_Done r B)
  then show ?case by (cases r) (auto intro: settled.settled_Done)
next
  case (settled_Call t B f)
  show ?case unfolding pbind.simps
  proof (rule settled.settled_Call [OF settled_Call.hyps(1)])
    fix w q w' assume w: "grows B (dp_blobs d w)" and "(map_prod (\<lambda>p. pbind p k) id \<circ> f) w = (q, w')"
    then obtain p where "f w = (p, w')" "q = pbind p k" by (elim pbind_Call_step)
    with settled_Call.IH [OF w] settled_Call.prems grows_trans [OF w]
    show "same_views d w w' \<and> drawn w' = drawn w \<and> settled d drawn Q (dp_blobs d w) q" by blast
  qed
qed

lemma settled_call:
  assumes "t \<noteq> Coordinator"
    and "\<And>w r w'. grows B (dp_blobs d w) \<Longrightarrow> m w = (r, w') \<Longrightarrow>
      same_views d w w' \<and> drawn w' = drawn w \<and> (\<forall>a. r = Ok a \<longrightarrow> Q a (dp_blobs d w))"
  shows "settled d drawn Q B (call t m)"
  unfolding call_def using assms
  by (intro settled_Call) (auto split: prod.splits intro!: settled_Done)

text \<open>What was read stays: the results of a loop hold in the blobs at its end.\<close>

lemma settled_map:
  assumes "\<And>x B'. x \<in> set xs \<Longrightarrow> grows B B' \<Longrightarrow> settled d drawn (\<lambda>y B. Q B x y) B' (f x)"
    and mono: "\<And>x y B B'. grows B B' \<Longrightarrow> Q B x y \<Longrightarrow> Q B' x y"
  shows "settled d drawn (\<lambda>ys B. list_all2 (Q B) xs ys) B (pmap f xs)"
  using assms(1)
proof (induction xs arbitrary: B)
  case (Cons x xs)
  show ?case unfolding pmap.simps
  proof (rule settled_bind [OF Cons.prems])
    fix y B1 assume 1: "grows B B1" "Q B1 x y"
    have "settled d drawn (\<lambda>ys B. list_all2 (Q B) xs ys) B1 (pmap f xs)"
      using Cons.prems 1(1) by (intro Cons.IH) (auto intro: grows_trans)
    then show "settled d drawn (\<lambda>ys B. list_all2 (Q B) (x # xs) ys) B1 (pbind (pmap f xs) (\<lambda>ys. Done (Ok (y # ys))))"
      by (rule settled_bind) (use 1(2) mono in \<open>auto intro!: settled_Done\<close>)
  qed simp_all
qed (auto intro: settled_Done)

lemma settled_weaken:
  assumes "settled d drawn R B p" and "\<And>a B'. grows B B' \<Longrightarrow> R a B' \<Longrightarrow> Q a B'"
  shows "settled d drawn Q B p"
  using assms
proof (induction rule: settled.induct)
  case (settled_Call t B f)
  then show ?case by (blast intro: settled.settled_Call grows_trans)
qed (auto intro: settled.settled_Done)

lemma staging_call:
  assumes "t \<noteq> Coordinator"
    and "\<And>w r w'. ready d drawn B T w \<Longrightarrow> m w = (r, w') \<Longrightarrow>
      \<exists>T'. stages d drawn T w T' w' \<and> (\<forall>a. r = Ok a \<longrightarrow> R a (dp_blobs d w') T')"
  shows "staging d drawn R B T (call t m)"
  unfolding call_def
proof (rule staging_Call [OF assms(1)], goal_cases)
  case (1 w p w')
  then obtain r where r: "m w = (r, w')" "p = Done r" by (cases "m w") auto
  from assms(2) [OF 1(1) r(1)] r(2) show ?case by (auto intro: staging_Done)
qed

lemma staging_lift_bind:
  assumes "\<And>a. r = Ok a \<Longrightarrow> staging d drawn R B T (k a)"
  shows "staging d drawn R B T (pbind (Done r) k)"
  using assms by (cases r) (auto intro: staging_Done)

lemma unsettled_rejected: "\<not> accepted r \<Longrightarrow> unsettled d drawn cr B T (pbind (Done r) k)"
  by (cases r) (auto intro: unsettled_Done)

lemma unsettled_coordinator:
  assumes "\<And>w r w'. grows B (dp_blobs d w) \<Longrightarrow> refs_resolve d w \<Longrightarrow> m w = (r, w') \<Longrightarrow>
      dp_blobs d w' = dp_blobs d w \<and> drawn w' = drawn w \<and> refs_resolve d w' \<and>
      abs_view d w' \<in> request_effects (snd cr) (abs_view d w) \<and>
      (\<forall>out. r = Ok out \<longrightarrow> settled d drawn (\<lambda>resp B'. explains d cr B' w resp w') (dp_blobs d w) (k out))"
  shows "unsettled d drawn cr B T (pbind (call Coordinator m) k)"
  unfolding call_def pbind.simps
proof (rule unsettled_Commit, unfold commits_def, intro allI impI)
  fix w p w' assume w: "grows B (dp_blobs d w)" "refs_resolve d w"
    and "(map_prod (\<lambda>p. pbind p k) id \<circ> (\<lambda>w. case m w of (r, w') \<Rightarrow> (Done r, w'))) w = (p, w')"
  then obtain r where r: "m w = (r, w')" "p = pbind (Done r) k" by (cases "m w") auto
  note law = assms [OF w r(1)]
  have "settled d drawn (\<lambda>resp B'. explains d cr B' w resp w') (dp_blobs d w) p"
    using law r(2) by (cases r) (auto intro: settled_Done)
  with law show "dp_blobs d w' = dp_blobs d w \<and> drawn w' = drawn w \<and> refs_resolve d w' \<and>
        abs_view d w' \<in> request_effects (snd cr) (abs_view d w) \<and>
        settled d drawn (\<lambda>resp B'. explains d cr B' w resp w') (dp_blobs d w) p" by blast
qed

section \<open>Calls of the handlers\<close>

lemma token_lawsD:
  assumes "token_laws d drawn"
  shows "dp_rand d n w = (r, w') \<Longrightarrow> drawn w \<subseteq> drawn w'"
    "dp_rand d n w = (Ok token, w') \<Longrightarrow> token \<in> drawn w' - drawn w"
    "transport_laws (dp_grpc d) drawn"
    "i < length (cp_clients (dp_proxy d)) \<Longrightarrow> keeps drawn (KV_Put (cp_clients (dp_proxy d) ! i))"
    "i < length (cp_clients (dp_proxy d)) \<Longrightarrow> keeps drawn (KV_Range (cp_clients (dp_proxy d) ! i))"
    "keeps drawn (KV_Range (bp_kv (cp_backend (dp_proxy d))))" "keeps drawn (KV_Put (bp_kv (cp_backend (dp_proxy d))))"
    "keeps drawn (KV_DeleteRange (bp_kv (cp_backend (dp_proxy d))))" "keeps drawn (KV_Txn (bp_kv (cp_backend (dp_proxy d))))"
proof -
  note laws = assms [unfolded token_laws_def]
  show "drawn w \<subseteq> drawn w'" if "dp_rand d n w = (r, w')" using laws that by blast
  show "token \<in> drawn w' - drawn w" if "dp_rand d n w = (Ok token, w')" using laws that by blast
qed (use assms in \<open>simp_all add: token_laws_def\<close>)

lemma rpc_keeps: "keeps view f \<Longrightarrow> rpc_call f ctx q w = (r, w') \<Longrightarrow> view w' = view w"
  unfolding keeps_def by (elim rpc_call_cases) blast

lemma forward_keeps:
  assumes "token_laws d drawn" and "keeps drawn f" and "forwardUnary (dp_grpc d) ctx q f w = (r, w')"
  shows "drawn w' = drawn w"
proof -
  obtain h t w1 where "f (backendContext (dp_grpc d) ctx) q w = ((r, h, t), w1)" "drawn w' = drawn w1"
    by (rule forwardUnary_cases [OF token_lawsD(3) [OF assms(1)] assms(3)])
  with assms(2) show ?thesis unfolding keeps_def by metis
qed

lemma decode_kv_keeps:
  assumes tl: "token_laws d drawn" and dec: "decode_kv (dp_grpc d) (dp_proxy d) ctx keysOnly kv w = (r, w')"
  shows "drawn w' = drawn w"
proof -
  have "preserves (\<lambda>x. drawn x = drawn w) (rpc_call (KV_Range (cp_clients (dp_proxy d) ! nat (ref_Shard ref))) c (get_request k))"
    if "valid_ref (length (cp_clients (dp_proxy d))) v = Some ref" for ref c k v
    unfolding preserves_def
    using rpc_keeps [OF token_lawsD(5) [OF tl conjunct2 [OF valid_ref_bounds [OF that]]]] by (metis prod.collapse)
  then have "preserves (\<lambda>x. drawn x = drawn w) (decode_kv (dp_grpc d) (dp_proxy d) ctx keysOnly kv)"
    unfolding decode_kv_def Let_def by (auto intro!: preserves_intros split: option.splits)
  from preservesD [OF this _ dec] show ?thesis by simp
qed

lemma decodeKV_keeps:
  assumes tl: "token_laws d drawn" and "decodeKV (dp_grpc d) (dp_proxy d) ctx kv keysOnly w = (r, w')"
  shows "drawn w' = drawn w"
  using assms(2) decode_kv_keeps [OF tl]
  by (auto simp: decodeKV_def io_bind_def split: option.splits prod.splits result.splits)

lemma decode_same:
  assumes d: "environment d"
  shows "decode_kv (dp_grpc d) (dp_proxy d) ctx keysOnly kv w = (r, w') \<Longrightarrow> same_views d w w'"
    and "decodeKV (dp_grpc d) (dp_proxy d) ctx okv keysOnly w = (r', w') \<Longrightarrow> same_views d w w'"
proof -
  have w: "same_views d w w" by (simp add: same_views_def)
  show "decode_kv (dp_grpc d) (dp_proxy d) ctx keysOnly kv w = (r, w') \<Longrightarrow> same_views d w w'"
    by (rule preservesD [OF decode_kv_preserves [OF d] w])
  show "decodeKV (dp_grpc d) (dp_proxy d) ctx okv keysOnly w = (r', w') \<Longrightarrow> same_views d w w'"
    by (rule preservesD [OF decodeKV_preserves [OF d] w])
qed

text \<open>Decoding reads only, and reads the blobs of the references; blobs do not change afterwards.\<close>

lemma settled_decode_kv:
  assumes d: "environment d" and tl: "token_laws d drawn"
  shows "settled d drawn (\<lambda>kv' B. resolved (length (cp_clients (dp_proxy d))) B keysOnly kv kv') B
    (call DataShard (decode_kv (dp_grpc d) (dp_proxy d) ctx keysOnly kv))"
proof (rule settled_call)
  fix w r w' assume dec: "decode_kv (dp_grpc d) (dp_proxy d) ctx keysOnly kv w = (r, w')"
  have "resolved (length (cp_clients (dp_proxy d))) (dp_blobs d w) keysOnly kv kv'" if "r = Ok kv'" for kv'
    using decode_kv_Ok [OF dec [unfolded that]] decode_kv_value [OF d, of ctx kv w kv' w'] dec that
    by (auto simp: resolved_def)
  then show "same_views d w w' \<and> drawn w' = drawn w \<and>
      (\<forall>a. r = Ok a \<longrightarrow> resolved (length (cp_clients (dp_proxy d))) (dp_blobs d w) keysOnly kv a)"
    using decode_same(1) [OF d dec] decode_kv_keeps [OF tl dec] by blast
qed simp

lemma settled_decode_kvs:
  assumes d: "environment d" and tl: "token_laws d drawn"
  shows "settled d drawn (\<lambda>kvs' B. list_all2 (resolved (length (cp_clients (dp_proxy d))) B keysOnly) kvs kvs') B
    (pmap (\<lambda>kv. call DataShard (decode_kv (dp_grpc d) (dp_proxy d) ctx keysOnly kv)) kvs)"
  by (rule settled_map [OF settled_decode_kv [OF d tl] resolved_grows])

lemma settled_decodeKV:
  assumes d: "environment d" and tl: "token_laws d drawn"
  shows "settled d drawn (\<lambda>kv' B. rel_option (resolved (length (cp_clients (dp_proxy d))) B keysOnly) kv kv') B
    (call DataShard (decodeKV (dp_grpc d) (dp_proxy d) ctx kv keysOnly))"
proof (rule settled_call)
  fix w r w' assume dec: "decodeKV (dp_grpc d) (dp_proxy d) ctx kv keysOnly w = (r, w')"
  have "rel_option (resolved (length (cp_clients (dp_proxy d))) (dp_blobs d w) keysOnly) kv kv'" if "r = Ok kv'" for kv'
  proof (cases kv)
    case (Some x)
    with dec that obtain y where y: "decode_kv (dp_grpc d) (dp_proxy d) ctx keysOnly x w = (Ok y, w')" "kv' = Some y"
      by (auto simp: decodeKV_def io_bind_Ok_iff)
    with Some decode_kv_Ok [OF y(1)] decode_kv_value [OF d, of ctx x w y w'] show ?thesis by (auto simp: resolved_def)
  qed (use dec that in \<open>simp add: decodeKV_def io_return_def\<close>)
  then show "same_views d w w' \<and> drawn w' = drawn w \<and>
      (\<forall>a. r = Ok a \<longrightarrow> rel_option (resolved (length (cp_clients (dp_proxy d))) (dp_blobs d w) keysOnly) kv a)"
    using decode_same(2) [OF d dec] decodeKV_keeps [OF tl dec] by blast
qed simp

lemma settled_lift_bind:
  assumes "\<And>a. r = Ok a \<Longrightarrow> settled d drawn Q B (k a)"
  shows "settled d drawn Q B (pbind (Done r) k)"
  using assms by (cases r) (auto intro: settled_Done)

lemma branch_keysOnly_at: "branch_keysOnly branch i = Ok keysOnly \<Longrightarrow> keysOnly = keys_only_at branch i"
  by (auto simp: branch_keysOnly_def keys_only_at_def res_bind_eq_Ok index_def split: if_splits option.splits RequestOp.splits)

lemma response_resolved_grows:
  assumes "grows B B'" and "response_resolved n B keysOnly raw r"
  shows "response_resolved n B' keysOnly raw r"
proof -
  note mono = resolved_grows [OF assms(1)]
  show ?thesis
    using assms(2) unfolding response_resolved_def
    by (cases raw) (auto elim!: list_all2_mono option.rel_mono_strong intro: mono)
qed

lemma settled_decodeResponse:
  assumes d: "environment d" and tl: "token_laws d drawn"
  shows "settled d drawn (\<lambda>r B. response_resolved (length (cp_clients (dp_proxy d))) B (keys_only_at branch i) raw r) B
    (decodeResponse_prog (dp_grpc d) (dp_proxy d) ctx branch i raw)"
proof (cases raw)
  case (ResponseRange v)
  let ?n = "length (cp_clients (dp_proxy d))"
  have "settled d drawn (\<lambda>kvs B. list_all2 (resolved ?n B (keys_only_at branch i)) (rs_Kvs v) kvs) B
      (pmap (\<lambda>kv. pbind (Done (branch_keysOnly branch i))
         (\<lambda>keysOnly. call DataShard (decode_kv (dp_grpc d) (dp_proxy d) ctx keysOnly kv))) (rs_Kvs v))"
    by (rule settled_map [OF settled_lift_bind resolved_grows])
      (use settled_decode_kv [OF d tl] branch_keysOnly_at in blast)
  then show ?thesis
    by (auto simp: decodeResponse_prog_def ResponseRange response_resolved_def intro!: settled_bind settled_Done)
next
  case (ResponsePut v)
  then show ?thesis
    by (auto simp: decodeResponse_prog_def response_resolved_def intro!: settled_bind [OF settled_decodeKV [OF d tl]] settled_Done)
next
  case (ResponseDeleteRange v)
  then show ?thesis
    by (auto simp: decodeResponse_prog_def response_resolved_def intro!: settled_bind [OF settled_decode_kvs [OF d tl]] settled_Done)
qed (auto simp: decodeResponse_prog_def response_resolved_def intro!: settled_Done)

lemma settled_decodeResponses:
  assumes d: "environment d" and tl: "token_laws d drawn"
  shows "settled d drawn (\<lambda>rs B. responses_resolved (length (cp_clients (dp_proxy d))) B branch i raws rs) B
    (decodeResponses_prog (dp_grpc d) (dp_proxy d) ctx branch i raws)"
proof (induction raws arbitrary: i B)
  case (Cons raw raws)
  show ?case unfolding decodeResponses_prog.simps
    by (rule settled_bind [OF settled_decodeResponse [OF d tl]], rule settled_bind [OF Cons.IH])
      (auto intro!: settled_Done intro: response_resolved_grows)
qed (auto intro: settled_Done)

section \<open>Staging\<close>

text \<open>What staging leaves: no token of its own, and more blobs, in which the staged request resolves.\<close>

definition staged_at :: "(nat \<Rightarrow> store) \<Rightarrow> ((nat \<Rightarrow> store) \<Rightarrow> bool) \<Rightarrow> (nat \<Rightarrow> store) \<Rightarrow> bytes set \<Rightarrow> bool" where
  "staged_at B P B' T' \<longleftrightarrow> T' = {} \<and> grows B B' \<and> P B'"

lemma draw_staging:
  assumes d: "environment d" and tl: "token_laws d drawn"
  shows "staging d drawn (\<lambda>token B' T'. T' = {token} \<and> grows B B') B {} (call Random (dp_rand d n))"
proof (rule staging_call)
  fix w r w' assume w: "ready d drawn B {} w" and r: "dp_rand d n w = (r, w')"
  from r environmentD(6) [OF d] have same: "dp_meta d w' = dp_meta d w" "dp_blobs d w' = dp_blobs d w"
    and fresh: "\<And>token i. r = Ok token \<Longrightarrow> dp_blobs d w i (blob_key token) = None"
    unfolding rand_laws_def blob_key_def by blast+
  let ?T = "case r of Ok token \<Rightarrow> {token} | _ \<Rightarrow> {}"
  have "?T \<subseteq> drawn w' - drawn w" using token_lawsD(2) [OF tl] r by (auto split: result.splits)
  moreover have "unused d ?T w'" using fresh same by (auto simp: unused_def split: result.splits)
  ultimately have "stages d drawn {} w ?T w'" using same token_lawsD(1) [OF tl r] by (simp add: stages_def)
  moreover have "\<forall>token. r = Ok token \<longrightarrow> ?T = {token} \<and> grows B (dp_blobs d w')" using w same by (auto simp: ready_def)
  ultimately show "\<exists>T'. stages d drawn {} w T' w' \<and> (\<forall>a. r = Ok a \<longrightarrow> T' = {a} \<and> grows B (dp_blobs d w'))" by blast
qed simp

lemma blob_staging:
  assumes d: "environment d" and tl: "token_laws d drawn" and i: "i < length (cp_clients (dp_proxy d))"
  shows "staging d drawn (\<lambda>_. staged_at B (\<lambda>B'. B' i (blob_key token) = Some v)) B {token}
    (call DataShard (rpc_call (KV_Put (cp_clients (dp_proxy d) ! i)) ctx (put_request (blob_key token) v)))"
proof (rule staging_call)
  fix w r w' assume w: "ready d drawn B {token} w"
    and call: "rpc_call (KV_Put (cp_clients (dp_proxy d) ! i)) ctx (put_request (blob_key token) v) w = (r, w')"
  from call obtain h t where "KV_Put (cp_clients (dp_proxy d) ! i) ctx (put_request (blob_key token) v) w = ((r, h, t), w')"
    by (rule rpc_call_cases)
  with environmentD(4) [OF d] i have m: "dp_meta d w' = dp_meta d w"
    and b: "dp_blobs d w' = (dp_blobs d w)(i := (dp_blobs d w i)(blob_key token \<mapsto> v)) \<or>
      dp_blobs d w' = dp_blobs d w \<and> \<not> accepted r"
    unfolding shard_laws_def by blast+
  have "stages d drawn {token} w {} w'"
    using m b rpc_keeps [OF token_lawsD(4) [OF tl i] call] by (auto simp: stages_def unused_def)
  moreover have "grows B (dp_blobs d w')"
    using w b grows_update [of "dp_blobs d w" i "blob_key token" v] by (auto simp: ready_def unused_def intro: grows_trans)
  ultimately show "\<exists>T'. stages d drawn {token} w T' w' \<and>
      (\<forall>a. r = Ok a \<longrightarrow> staged_at B (\<lambda>B'. B' i (blob_key token) = Some v) (dp_blobs d w') T')"
    using b by (auto simp: staged_at_def)
qed simp

lemma stagePut_staging:
  assumes d: "environment d" and tl: "token_laws d drawn" and key: "pr_Key q \<noteq> []"
  shows "staging d drawn (\<lambda>q'. staged_at B (\<lambda>B'. staged_put (length (cp_clients (dp_proxy d))) B' q q')) B {}
    (stagePut_prog (dp_grpc d) (dp_rand d) (dp_proxy d) ctx q)"
proof -
  let ?p = "dp_proxy d" and ?n = "length (cp_clients (dp_proxy d))"
  note V = environmentD(1) [OF d]
  obtain i where i: "shard ?p (pr_Key q) = Ok i" "i < ?n" by (rule shard_Ok [OF V, of "pr_Key q"])
  have keys: "coordinatedKeys (pr_Key q) [] = Ok (CoordinatedMetadataPrefix @ pr_Key q, [])" using key by simp
  have eq: "stagePut_prog (dp_grpc d) (dp_rand d) ?p ctx q =
    (if pr_IgnoreValue q then Done (Ok (q\<lparr>pr_Key := CoordinatedMetadataPrefix @ pr_Key q\<rparr>))
     else pbind (call Random (dp_rand d 32)) (\<lambda>token.
       pbind (call DataShard (rpc_call (KV_Put (cp_clients ?p ! i)) (backendContext (dp_grpc d) ctx)
           (put_request (blob_key token) (pr_Value q)))) (\<lambda>_.
         Done (Ok (q\<lparr>pr_Key := CoordinatedMetadataPrefix @ pr_Key q,
           pr_Value := Marshal_ref \<lparr>ref_Shard = int i, ref_Key = blob_key token\<rparr>\<rparr>)))))"
    using i by (simp add: stagePut_prog_def keys Let_def blob_key_def del: coordinatedKeys_Ok)
  have publish: "staged_put ?n B' q (q\<lparr>pr_Key := CoordinatedMetadataPrefix @ pr_Key q,
           pr_Value := Marshal_ref \<lparr>ref_Shard = int i, ref_Key = blob_key token\<rparr>\<rparr>)"
    if "B' i (blob_key token) = Some (pr_Value q)" "\<not> pr_IgnoreValue q" for B' token
    using that valid_ref_Marshal [OF i(2) environmentD(2) [OF d], of token] Marshal_ref_nonempty
    by (simp add: staged_put_def blob_of_def blob_key_def)
  show ?thesis
  proof (cases "pr_IgnoreValue q")
    case True
    then show ?thesis by (auto simp: eq staged_put_def staged_at_def intro!: staging_Done)
  next
    case False
    have "staging d drawn (\<lambda>q'. staged_at B (\<lambda>B'. staged_put ?n B' q q')) B {}
     (pbind (call Random (dp_rand d 32)) (\<lambda>token.
       pbind (call DataShard (rpc_call (KV_Put (cp_clients ?p ! i)) (backendContext (dp_grpc d) ctx)
           (put_request (blob_key token) (pr_Value q)))) (\<lambda>_.
         Done (Ok (q\<lparr>pr_Key := CoordinatedMetadataPrefix @ pr_Key q,
           pr_Value := Marshal_ref \<lparr>ref_Shard = int i, ref_Key = blob_key token\<rparr>\<rparr>)))))"
    proof (rule staging_bind [OF draw_staging [OF d tl]], elim conjE)
      fix token :: bytes and B' T' assume T': "T' = {token}" and B': "grows B B'"
      show "staging d drawn (\<lambda>q'. staged_at B (\<lambda>B'. staged_put ?n B' q q')) B' T'
        (pbind (call DataShard (rpc_call (KV_Put (cp_clients ?p ! i)) (backendContext (dp_grpc d) ctx)
           (put_request (blob_key token) (pr_Value q)))) (\<lambda>_.
         Done (Ok (q\<lparr>pr_Key := CoordinatedMetadataPrefix @ pr_Key q,
           pr_Value := Marshal_ref \<lparr>ref_Shard = int i, ref_Key = blob_key token\<rparr>\<rparr>))))"
        unfolding T'
        by (rule staging_bind [OF blob_staging [OF d tl i(2)]])
          (use B' publish False in \<open>auto simp: staged_at_def intro!: staging_Done intro: grows_trans\<close>)
    qed
    with False show ?thesis by (simp add: eq)
  qed
qed

lemma stageOp_staging:
  assumes d: "environment d" and tl: "token_laws d drawn" and v: "accepted (validateOp (dp_proxy d) op)"
  shows "staging d drawn (\<lambda>op'. staged_at B (\<lambda>B'. staged_op (length (cp_clients (dp_proxy d))) B' op op')) B {}
    (stageOp_prog (dp_grpc d) (dp_rand d) (dp_proxy d) ctx op)"
proof (cases "\<exists>q. op = Some (RequestPut (Some q))")
  case True
  then obtain q where q: "op = Some (RequestPut (Some q))" by blast
  with v have key: "pr_Key q \<noteq> []"
    by (auto simp: validateOp_def accepted_def res_bind_eq_Ok validateCoordinatedPut_Ok)
  have "staging d drawn (\<lambda>op'. staged_at B (\<lambda>B'. staged_op (length (cp_clients (dp_proxy d))) B' op op')) B {}
    (pbind (stagePut_prog (dp_grpc d) (dp_rand d) (dp_proxy d) ctx q) (\<lambda>r. Done (Ok (Some (RequestPut (Some r))))))"
    by (rule staging_bind [OF stagePut_staging [OF d tl key]])
      (auto simp: staged_at_def staged_op_def q intro!: staging_Done)
  then show ?thesis by (simp add: stageOp_prog_def q deref_def)
next
  case False
  with v show ?thesis
    by (auto simp: validateOp_def accepted_def res_bind_eq_Ok validateCoordinatedPut_Ok stageOp_prog_def
        staged_op_def staged_at_def dest: rangeRequest_staged coordinatedDelete_staged simp del: coordinatedKeys_Ok
        split: option.splits RequestOp.splits intro!: staging_lift_bind staging_Done)
qed

lemma stageOps_staging:
  assumes d: "environment d" and tl: "token_laws d drawn"
    and "\<And>op. op \<in> set ops \<Longrightarrow> accepted (validateOp (dp_proxy d) op)"
  shows "staging d drawn (\<lambda>ops'. staged_at B (\<lambda>B'. list_all2 (staged_op (length (cp_clients (dp_proxy d))) B') ops ops')) B {}
    (pmap (stageOp_prog (dp_grpc d) (dp_rand d) (dp_proxy d) ctx) ops)"
  using assms(3)
proof (induction ops arbitrary: B)
  case (Cons op ops)
  let ?n = "length (cp_clients (dp_proxy d))"
  have v: "accepted (validateOp (dp_proxy d) op)" using Cons.prems by simp
  show ?case unfolding pmap.simps
  proof (rule staging_bind [OF stageOp_staging [OF d tl v]])
    fix op' B' T' assume s: "staged_at B (\<lambda>B'. staged_op ?n B' op op') B' T'"
    then have T': "T' = {}" and B': "grows B B'" "staged_op ?n B' op op'" by (simp_all add: staged_at_def)
    have "staging d drawn (\<lambda>ops'. staged_at B' (\<lambda>B'. list_all2 (staged_op ?n B') ops ops')) B' {}
        (pmap (stageOp_prog (dp_grpc d) (dp_rand d) (dp_proxy d) ctx) ops)"
      using Cons by simp
    then show "staging d drawn (\<lambda>ops'. staged_at B (\<lambda>B'. list_all2 (staged_op ?n B') (op # ops) ops')) B' T'
        (pbind (pmap (stageOp_prog (dp_grpc d) (dp_rand d) (dp_proxy d) ctx) ops) (\<lambda>ys. Done (Ok (op' # ys))))"
      unfolding T'
      by (rule staging_bind)
        (use B' in \<open>auto simp: staged_at_def intro!: staging_Done intro: grows_trans staged_op_grows\<close>)
  qed
qed (auto simp: staged_at_def intro!: staging_Done)

section \<open>Handlers\<close>

text \<open>The coordinator's calls do not touch the blobs.\<close>

lemma coordinator_blobs:
  assumes d: "environment d"
  shows "forwardUnary (dp_grpc d) ctx q1 (KV_Put (bp_kv (cp_backend (dp_proxy d)))) w = (r1, w') \<Longrightarrow> dp_blobs d w' = dp_blobs d w"
    and "forwardUnary (dp_grpc d) ctx q2 (KV_DeleteRange (bp_kv (cp_backend (dp_proxy d)))) w = (r2, w') \<Longrightarrow> dp_blobs d w' = dp_blobs d w"
    and "forwardUnary (dp_grpc d) ctx q3 (KV_Range (bp_kv (cp_backend (dp_proxy d)))) w = (r3, w') \<Longrightarrow> same_views d w w'"
    and "forwardUnary (dp_grpc d) ctx q4 (KV_Txn (bp_kv (cp_backend (dp_proxy d)))) w = (r4, w') \<Longrightarrow>
      list_all flat_op (txn_Success q4) \<Longrightarrow> list_all flat_op (txn_Failure q4) \<Longrightarrow> dp_blobs d w' = dp_blobs d w"
proof -
  note laws = environmentD(5) [OF d, unfolded coordinator_laws_def] and cases = forwardUnary_cases [OF environmentD(3) [OF d]]
  show "dp_blobs d w' = dp_blobs d w" if "forwardUnary (dp_grpc d) ctx q1 (KV_Put (bp_kv (cp_backend (dp_proxy d)))) w = (r1, w')"
    using that by (rule cases) (metis laws prod.inject)
  show "dp_blobs d w' = dp_blobs d w" if "forwardUnary (dp_grpc d) ctx q2 (KV_DeleteRange (bp_kv (cp_backend (dp_proxy d)))) w = (r2, w')"
    using that by (rule cases) (metis laws prod.inject)
  show "same_views d w w'" if "forwardUnary (dp_grpc d) ctx q3 (KV_Range (bp_kv (cp_backend (dp_proxy d)))) w = (r3, w')"
    using that by (rule cases) (unfold same_views_def, metis laws prod.inject)
  show "dp_blobs d w' = dp_blobs d w" if "forwardUnary (dp_grpc d) ctx q4 (KV_Txn (bp_kv (cp_backend (dp_proxy d)))) w = (r4, w')"
    "list_all flat_op (txn_Success q4)" "list_all flat_op (txn_Failure q4)"
    using that(1) by (rule cases) (metis laws prod.inject that(2,3))
qed

lemma forward_asked:
  assumes "environment d" and "forwardUnary (dp_grpc d) ctx q f w = (Ok out, w')"
  shows "asked d ctx f q w out w'"
  using forwardUnary_cases [OF environmentD(3) [OF assms(1)] assms(2)]
  unfolding asked_def same_views_def by (metis prod.inject)

lemma Put_unsettled:
  assumes d: "environment d" and tl: "token_laws d drawn"
  shows "unsettled d drawn (ctx, ReqPut q) B {} (handler d (ctx, ReqPut q))"
proof (cases "validateCoordinatedPut (Some q) = Ok ()")
  case False
  then have "\<not> accepted (validateCoordinatedPut (Some q))" by (auto simp: accepted_def)
  then show ?thesis by (simp add: handler_def Put_prog_def pbind_assoc unsettled_rejected)
next
  case True
  then have key: "pr_Key q \<noteq> []" by (auto simp: validateCoordinatedPut_Ok)
  let ?n = "length (cp_clients (dp_proxy d))"
  let ?publish = "\<lambda>r. pbind (call Coordinator (forwardUnary (dp_grpc d) ctx r (KV_Put (bp_kv (cp_backend (dp_proxy d)))))) (\<lambda>out.
      pbind (call DataShard (decodeKV (dp_grpc d) (dp_proxy d) ctx (ps_PrevKv out) False)) (\<lambda>prev.
        Done (Ok (RespPut (out\<lparr>ps_PrevKv := prev\<rparr>)))))"
  have "unsettled d drawn (ctx, ReqPut q) B {} (pbind (stagePut_prog (dp_grpc d) (dp_rand d) (dp_proxy d) ctx q) ?publish)"
  proof (rule unsettled_bind [OF stagePut_staging [OF d tl key]], rule unsettled_coordinator, goal_cases)
    case (1 q' B' T' w r w')
    then have st: "staged_put ?n (dp_blobs d w) q q'" by (auto simp: staged_at_def intro: staged_put_grows)
    from coordinator_Put [OF d 1(3) this 1(4)] have out: "outcome d (put_effect q) w r w'" .
    have "settled d drawn (\<lambda>resp B. explains d (ctx, ReqPut q) B w resp w') (dp_blobs d w)
        (pbind (call DataShard (decodeKV (dp_grpc d) (dp_proxy d) ctx (ps_PrevKv o') False)) (\<lambda>prev.
          Done (Ok (RespPut (o'\<lparr>ps_PrevKv := prev\<rparr>)))))" if "r = Ok o'" for o'
      using out that st forward_asked [OF d 1(4) [unfolded that]]
      by (intro settled_bind [OF settled_decodeKV [OF d tl]] settled_Done) (auto simp: explains_def put_explained_def outcome_def)
    with out coordinator_blobs(1) [OF d 1(4)] forward_keeps [OF tl token_lawsD(7) [OF tl] 1(4)] show ?case
      by (auto simp: outcome_def request_effects_def)
  qed
  then show ?thesis by (simp add: handler_def Put_prog_def True pbind_assoc deref_def)
qed

lemma DeleteRange_unsettled:
  assumes d: "environment d" and tl: "token_laws d drawn"
  shows "unsettled d drawn (ctx, ReqDelete q) B {} (handler d (ctx, ReqDelete q))"
proof (rule mutationShard_cases [OF environmentD(1) [OF d], of "dr_Key q" "dr_RangeEnd q"])
  fix msg assume "mutationShard (dp_proxy d) (dr_Key q) (dr_RangeEnd q) = Err (Status InvalidArgument msg)"
  then show ?thesis by (simp add: handler_def DeleteRange_prog_def unsettled_Done)
next
  fix i assume i: "mutationShard (dp_proxy d) (dr_Key q) (dr_RangeEnd q) = Ok i" "dr_Key q \<noteq> []"
  then obtain k e where ke: "coordinatedKeys (dr_Key q) (dr_RangeEnd q) = Ok (k, e)" by auto
  let ?q = "q\<lparr>dr_Key := k, dr_RangeEnd := e\<rparr>"
  have st: "staged_delete q ?q" using ke by (simp add: staged_delete_def coordinatedKeys_prefixed del: coordinatedKeys_Ok)
  have "unsettled d drawn (ctx, ReqDelete q) B {}
    (pbind (call Coordinator (forwardUnary (dp_grpc d) ctx ?q (KV_DeleteRange (bp_kv (cp_backend (dp_proxy d)))))) (\<lambda>out.
       pbind (pmap (\<lambda>kv. call DataShard (decode_kv (dp_grpc d) (dp_proxy d) ctx False kv)) (ds_PrevKvs out)) (\<lambda>prevs.
         Done (Ok (RespDelete (out\<lparr>ds_PrevKvs := prevs\<rparr>))))))"
  proof (rule unsettled_coordinator, goal_cases)
    case (1 w r w')
    from coordinator_DeleteRange [OF d 1(2) st 1(3)] have out: "outcome d (delete_effect q) w r w'" .
    have "settled d drawn (\<lambda>resp B. explains d (ctx, ReqDelete q) B w resp w') (dp_blobs d w)
        (pbind (pmap (\<lambda>kv. call DataShard (decode_kv (dp_grpc d) (dp_proxy d) ctx False kv)) (ds_PrevKvs o')) (\<lambda>prevs.
          Done (Ok (RespDelete (o'\<lparr>ds_PrevKvs := prevs\<rparr>)))))" if "r = Ok o'" for o'
      using out that st forward_asked [OF d 1(3) [unfolded that]]
      by (intro settled_bind [OF settled_decode_kvs [OF d tl]] settled_Done) (auto simp: explains_def delete_explained_def outcome_def)
    with out coordinator_blobs(2) [OF d 1(3)] forward_keeps [OF tl token_lawsD(8) [OF tl] 1(3)] show ?case
      by (auto simp: outcome_def request_effects_def)
  qed
  then show ?thesis
    by (simp add: handler_def DeleteRange_prog_def i(1) coordinatedDelete_def ke pbind_assoc del: coordinatedKeys_Ok)
qed

text \<open>The references of a linearizable answer resolve already, so later reads of their blobs give the same values.\<close>

lemma linearizable_reads:
  assumes keys: "coordinatedKeys (rr_Key q) (rr_RangeEnd q) = Ok (k, e)" and w: "refs_resolve d w"
    and ans: "range_answer (q\<lparr>rr_Key := k, rr_RangeEnd := e\<rparr>) (dp_meta d w) kvs" and B: "grows (dp_blobs d w) B"
    and res: "list_all2 (resolved (length (cp_clients (dp_proxy d))) B (rr_KeysOnly q)) kvs kvs'"
  shows "range_answer q (abs_view d w) kvs'"
proof (rule range_answer_abs [OF keys ans _ w])
  let ?n = "length (cp_clients (dp_proxy d))"
  have "reads d w (rr_KeysOnly q) kv kv'" if kv: "kv \<in> set kvs" and r: "resolved ?n B (rr_KeysOnly q) kv kv'" for kv kv'
  proof -
    from kv ans obtain v where v: "in_range (kv_Key kv) k e" "dp_meta d w (kv_Key kv) = Some v"
      "kv_Value kv = (if rr_KeysOnly q then [] else v)" by (auto simp: range_answer_def)
    then obtain u where "kv_Key kv = CoordinatedMetadataPrefix @ u" using coordinatedKeys_in_range [OF keys] by auto
    with v w have "rr_KeysOnly q \<or> (\<exists>x. blob_of ?n (dp_blobs d w) (kv_Value kv) = Some x)"
      by (auto simp: refs_resolve_def resolves_def)
    with r blob_of_grows [OF B] show ?thesis by (fastforce simp: reads_def resolved_def)
  qed
  with res show "list_all2 (reads d w (rr_KeysOnly q)) kvs kvs'" by (blast intro: list.rel_mono_strong)
qed

lemma Range_unsettled:
  assumes d: "environment d" and tl: "token_laws d drawn"
  shows "unsettled d drawn (ctx, ReqRange q) B {} (handler d (ctx, ReqRange q))"
proof (cases "\<exists>r. rangeRequest (Some q) = Ok r")
  case False
  then have "\<not> accepted (rangeRequest (Some q))" by (auto simp: accepted_def)
  then show ?thesis by (simp add: handler_def Range_prog_def pbind_assoc unsettled_rejected)
next
  case True
  then obtain k e where keys: "coordinatedKeys (rr_Key q) (rr_RangeEnd q) = Ok (k, e)"
    and q': "rangeRequest (Some q) = Ok (q\<lparr>rr_Key := k, rr_RangeEnd := e\<rparr>)"
    by (auto simp: rangeRequest_def res_bind_eq_Ok simp del: coordinatedKeys_Ok split: if_splits)
  let ?q = "q\<lparr>rr_Key := k, rr_RangeEnd := e\<rparr>"
  let ?dec = "\<lambda>kv. call DataShard (decode_kv (dp_grpc d) (dp_proxy d) ctx (rr_KeysOnly q) kv)"
  have st: "staged_range q ?q" using rangeRequest_staged [OF q'] by simp
  have "unsettled d drawn (ctx, ReqRange q) B {}
    (pbind (call Coordinator (forwardUnary (dp_grpc d) ctx ?q (KV_Range (bp_kv (cp_backend (dp_proxy d)))))) (\<lambda>out.
       pbind (pmap ?dec (rs_Kvs out)) (\<lambda>kvs. Done (Ok (RespRange (out\<lparr>rs_Kvs := kvs\<rparr>))))))"
  proof (rule unsettled_coordinator, goal_cases)
    case (1 w r w')
    have sv: "same_views d w w'" by (rule coordinator_blobs(3) [OF d 1(3)])
    have "settled d drawn (\<lambda>resp B. explains d (ctx, ReqRange q) B w resp w') (dp_blobs d w)
        (pbind (pmap ?dec (rs_Kvs o')) (\<lambda>kvs. Done (Ok (RespRange (o'\<lparr>rs_Kvs := kvs\<rparr>)))))" if ok: "r = Ok o'" for o'
    proof (rule settled_bind [OF settled_decode_kvs [OF d tl]], rule settled_Done)
      fix kvs B a
      assume B: "grows (dp_blobs d w) B" and a: "Ok (RespRange (o'\<lparr>rs_Kvs := kvs\<rparr>)) = Ok a"
        and res: "list_all2 (resolved (length (cp_clients (dp_proxy d))) B (rr_KeysOnly q)) (rs_Kvs o') kvs"
      have "range_answer q (abs_view d w) kvs" if "linearizable q"
        using coordinator_Range(2) [OF d 1(3) [unfolded ok]] that
        by (intro linearizable_reads [OF keys 1(2) _ B res]) simp
      moreover have "abs_view d w' = abs_view d w" using sv by (simp add: same_views_def abs_view_def)
      ultimately show "explains d (ctx, ReqRange q) B w a w'"
        using res a st forward_asked [OF d 1(3) [unfolded ok]] by (auto simp: explains_def range_explained_def)
    qed
    with 1(2) sv forward_keeps [OF tl token_lawsD(6) [OF tl] 1(3)] show ?case
      by (auto simp: same_views_def refs_resolve_def abs_view_def request_effects_def)
  qed
  then show ?thesis by (simp add: handler_def Range_prog_def q' pbind_assoc deref_def)
qed

lemma staged_ops_grows:
  "grows B B' \<Longrightarrow> list_all2 (staged_op n B) ops ops' \<Longrightarrow> list_all2 (staged_op n B') ops ops'"
  by (erule list_all2_mono) (rule staged_op_grows)

text \<open>The coordinator call of a transaction, and the decoding of its answer.\<close>

lemma Txn_commit:
  assumes d: "environment d" and tl: "token_laws d drawn" and w: "refs_resolve d w"
    and cs: "rewriteCompares (txn_Compare q) = Ok cs"
    and s: "list_all2 (staged_op (length (cp_clients (dp_proxy d))) (dp_blobs d w)) (txn_Success q) success"
    and f: "list_all2 (staged_op (length (cp_clients (dp_proxy d))) (dp_blobs d w)) (txn_Failure q) failure"
    and c: "forwardUnary (dp_grpc d) ctx (TxnRequest cs success failure) (KV_Txn (bp_kv (cp_backend (dp_proxy d)))) w = (Ok out, w')"
    and branch: "branch = (if txr_Succeeded out then txn_Success q else txn_Failure q)"
  shows "settled d drawn (\<lambda>resp B. explains d (ctx, ReqTxn q) B w resp w') (dp_blobs d w)
    (pbind (decodeResponses_prog (dp_grpc d) (dp_proxy d) ctx branch 0 (txr_Responses out)) (\<lambda>responses.
       Done (Ok (RespTxn (TxnResponse (txr_Header out) (txr_Succeeded out) responses)))))"
proof (rule settled_bind [OF settled_decodeResponses [OF d tl]], rule settled_Done)
  fix responses B a
  assume res: "responses_resolved (length (cp_clients (dp_proxy d))) B branch 0 (txr_Responses out) responses"
    and a: "Ok (RespTxn (TxnResponse (txr_Header out) (txr_Succeeded out) responses)) = Ok a"
  have "abs_view d w' = ops_effect branch (abs_view d w)"
    using coordinator_Txn [OF d w s f c] branch by (simp add: txn_outcome_def)
  with res a branch rewriteCompares_staged [OF cs] s f forward_asked [OF d c]
  show "explains d (ctx, ReqTxn q) B w a w'" unfolding explains_def txn_explained_def prod.case KVRequest.case by blast
qed

lemma Txn_unsettled:
  assumes d: "environment d" and tl: "token_laws d drawn"
  shows "unsettled d drawn (ctx, ReqTxn q) B {} (handler d (ctx, ReqTxn q))"
proof (cases "txn_valid (dp_proxy d) q")
  case False
  then have "\<not> accepted (rewriteCompares (txn_Compare q)) \<or>
    (\<exists>cs. rewriteCompares (txn_Compare q) = Ok cs \<and> (\<not> accepted (validateOps (dp_proxy d) (-1) (txn_Success q)) \<or>
      (\<exists>m. validateOps (dp_proxy d) (-1) (txn_Success q) = Ok m \<and> \<not> accepted (validateOps (dp_proxy d) m (txn_Failure q)))))"
    by (auto simp: txn_valid_def accepted_def res_bind_eq_Ok)
  then show ?thesis by (auto simp: handler_def Txn_prog_def pbind_assoc unsettled_rejected)
next
  case True
  then obtain cs m m' where
    v: "rewriteCompares (txn_Compare q) = Ok cs" "validateOps (dp_proxy d) (-1) (txn_Success q) = Ok m"
      "validateOps (dp_proxy d) m (txn_Failure q) = Ok m'"
    by (auto simp: txn_valid_def accepted_def res_bind_eq_Ok)
  let ?n = "length (cp_clients (dp_proxy d))"
  let ?stage = "pmap (stageOp_prog (dp_grpc d) (dp_rand d) (dp_proxy d) ctx)"
  let ?decode = "\<lambda>out. pbind (decodeResponses_prog (dp_grpc d) (dp_proxy d) ctx
      (if txr_Succeeded out then txn_Success q else txn_Failure q) 0 (txr_Responses out)) (\<lambda>responses.
        Done (Ok (RespTxn (TxnResponse (txr_Header out) (txr_Succeeded out) responses))))"
  have "unsettled d drawn (ctx, ReqTxn q) B {}
    (pbind (?stage (txn_Success q)) (\<lambda>success. pbind (?stage (txn_Failure q)) (\<lambda>failure.
       pbind (call Coordinator (forwardUnary (dp_grpc d) ctx (TxnRequest cs success failure)
         (KV_Txn (bp_kv (cp_backend (dp_proxy d)))))) ?decode)))"
  proof (rule unsettled_bind [OF stageOps_staging [OF d tl validateOps_accepted [OF v(2)]]], assumption, goal_cases)
    case (1 success B1 T1)
    then have T1: "T1 = {}" and s: "list_all2 (staged_op ?n B1) (txn_Success q) success" by (simp_all add: staged_at_def)
    show ?case unfolding T1
    proof (rule unsettled_bind [OF stageOps_staging [OF d tl validateOps_accepted [OF v(3)]]], assumption,
        rule unsettled_coordinator, goal_cases)
      case (1 failure B2 T2 w r w')
      from 1(1) have "grows B1 B2" and f: "list_all2 (staged_op ?n B2) (txn_Failure q) failure" by (simp_all add: staged_at_def)
      have s': "list_all2 (staged_op ?n (dp_blobs d w)) (txn_Success q) success"
        by (rule staged_ops_grows [OF grows_trans [OF \<open>grows B1 B2\<close> 1(2)] s])
      have f': "list_all2 (staged_op ?n (dp_blobs d w)) (txn_Failure q) failure" by (rule staged_ops_grows [OF 1(2) f])
      from coordinator_Txn [OF d 1(3) s' f' 1(4)] have out: "txn_outcome d q w r w'" .
      have blobs: "dp_blobs d w' = dp_blobs d w"
        by (rule coordinator_blobs(4) [OF d 1(4)]) (use staged_flat [OF s'] staged_flat [OF f'] in simp_all)
      have "settled d drawn (\<lambda>resp B. explains d (ctx, ReqTxn q) B w resp w') (dp_blobs d w) (?decode o')" if "r = Ok o'" for o'
        by (rule Txn_commit [OF d tl 1(3) v(1) s' f' 1(4) [unfolded that] refl])
      with out blobs forward_keeps [OF tl token_lawsD(9) [OF tl] 1(4)] show ?case
        by (cases r) (auto simp: txn_outcome_def request_effects_def)
    qed
  qed
  then show ?thesis by (simp add: handler_def Txn_prog_def v pbind_assoc Let_def)
qed

lemma handler_unsettled:
  assumes "environment d" and "token_laws d drawn"
  shows "unsettled d drawn cr B {} (handler d cr)"
proof (cases cr)
  case (Pair ctx req)
  then show ?thesis
    using Range_unsettled [OF assms] Put_unsettled [OF assms] DeleteRange_unsettled [OF assms] Txn_unsettled [OF assms]
    by (cases req) simp_all
qed

section \<open>The log is a linearization\<close>

lemma history_append:
  "history d reqs m log m1 \<Longrightarrow> abs_view d w = m1 \<Longrightarrow> abs_view d w' \<in> request_effects (reqs i) m1 \<Longrightarrow>
     history d reqs m (log @ [(i, w, w')]) (abs_view d w')"
  by (induction log arbitrary: m) auto

lemma explains_grows:
  assumes "grows B B'" and "explains d cr B w resp w'"
  shows "explains d cr B' w resp w'"
proof -
  let ?n = "length (cp_clients (dp_proxy d))"
  note mono = resolved_grows [OF assms(1), of ?n]
  have lists: "list_all2 (resolved ?n B ko) xs ys \<Longrightarrow> list_all2 (resolved ?n B' ko) xs ys" for ko xs ys
    by (erule list_all2_mono) (rule mono)
  have opts: "rel_option (resolved ?n B ko) x y \<Longrightarrow> rel_option (resolved ?n B' ko) x y" for ko x y
    by (erule option.rel_mono_strong) (rule mono)
  have resps: "responses_resolved ?n B br i raws rs \<Longrightarrow> responses_resolved ?n B' br i raws rs" for br i raws rs
    by (induction raws arbitrary: i rs) (auto intro: response_resolved_grows [OF assms(1)])
  have "range_explained d ctx q B w resp w' \<Longrightarrow> range_explained d ctx q B' w resp w'" for ctx q
    unfolding range_explained_def using lists by blast
  moreover have "put_explained d ctx q B w resp w' \<Longrightarrow> put_explained d ctx q B' w resp w'" for ctx q
    unfolding put_explained_def using opts by blast
  moreover have "delete_explained d ctx q B w resp w' \<Longrightarrow> delete_explained d ctx q B' w resp w'" for ctx q
    unfolding delete_explained_def using lists by blast
  moreover have "txn_explained d ctx q B w resp w' \<Longrightarrow> txn_explained d ctx q B' w resp w'" for ctx q
    unfolding txn_explained_def using resps by blast
  ultimately show ?thesis
    using assms(2) unfolding explains_def by (auto split: prod.splits KVRequest.splits)
qed

text \<open>
  A thread that did not call the coordinator has no entry; one that did has an entry that explains any answer it
  can still give.
\<close>

definition committed ::
  "('conn, 'c, 'm, 'w) deployment \<Rightarrow> ('w \<Rightarrow> bytes set) \<Rightarrow> 'c \<times> KVRequest \<Rightarrow> (nat \<times> 'w \<times> 'w) list \<Rightarrow> nat \<Rightarrow>
   (nat \<Rightarrow> store) \<Rightarrow> ('w, KVResponse) prog \<Rightarrow> bool"
where
  "committed d drawn cr log i B p \<longleftrightarrow>
     (\<exists>xs v v' ys. log = xs @ (i, v, v') # ys \<and> settled d drawn (\<lambda>resp B'. explains d cr B' v resp v') B p)"

definition thread_ok ::
  "('conn, 'c, 'm, 'w) deployment \<Rightarrow> ('w \<Rightarrow> bytes set) \<Rightarrow> 'c \<times> KVRequest \<Rightarrow> 'w \<Rightarrow> (nat \<times> 'w \<times> 'w) list \<Rightarrow> nat \<Rightarrow>
   bytes set \<Rightarrow> 'w thread \<Rightarrow> bool"
where
  "thread_ok d drawn cr w log i T th \<longleftrightarrow>
     (case th of
        Idle \<Rightarrow> i \<notin> fst ` set log
      | Running p \<Rightarrow> (\<exists>B. grows B (dp_blobs d w) \<and>
          (i \<notin> fst ` set log \<and> unsettled d drawn cr B T p \<or> committed d drawn cr log i B p)))"

text \<open>The tokens each thread owns.\<close>

definition owners ::
  "('conn, 'c, 'm, 'w) deployment \<Rightarrow> ('w \<Rightarrow> bytes set) \<Rightarrow> (nat \<Rightarrow> 'c \<times> KVRequest) \<Rightarrow> 'w conc \<Rightarrow>
   (nat \<Rightarrow> bytes set) \<Rightarrow> bool"
where
  "owners d drawn reqs s own \<longleftrightarrow>
     (\<forall>i j. i \<noteq> j \<longrightarrow> own i \<inter> own j = {}) \<and>
     (\<forall>i. own i \<subseteq> drawn (cc_world s) \<and> unused d (own i) (cc_world s) \<and>
        thread_ok d drawn (reqs i) (cc_world s) (cc_log s) i (own i) (cc_threads s i))"

definition linear ::
  "('conn, 'c, 'm, 'w) deployment \<Rightarrow> ('w \<Rightarrow> bytes set) \<Rightarrow> (nat \<Rightarrow> 'c \<times> KVRequest) \<Rightarrow> store \<Rightarrow> 'w conc \<Rightarrow> bool"
where
  "linear d drawn reqs m0 s \<longleftrightarrow>
     environment d \<and> token_laws d drawn \<and> refs_resolve d (cc_world s) \<and>
     history d (snd \<circ> reqs) m0 (cc_log s) (abs_view d (cc_world s)) \<and> distinct (map fst (cc_log s)) \<and>
     (\<exists>own. owners d drawn reqs s own)"

lemma ownersD:
  assumes "owners d drawn reqs s own"
  shows "i \<noteq> j \<Longrightarrow> own i \<inter> own j = {}" "own j \<subseteq> drawn (cc_world s)" "unused d (own j) (cc_world s)"
    "thread_ok d drawn (reqs j) (cc_world s) (cc_log s) j (own j) (cc_threads s j)"
  using assms unfolding owners_def by blast+

lemma linearD:
  assumes "linear d drawn reqs m0 s"
  shows "environment d" "token_laws d drawn" "refs_resolve d (cc_world s)"
    "history d (snd \<circ> reqs) m0 (cc_log s) (abs_view d (cc_world s))" "distinct (map fst (cc_log s))"
    "\<exists>own. owners d drawn reqs s own"
  using assms by (simp_all add: linear_def)

lemma thread_ok_unsettled:
  "grows B (dp_blobs d w) \<Longrightarrow> i \<notin> fst ` set log \<Longrightarrow> unsettled d drawn cr B T p \<Longrightarrow>
     thread_ok d drawn cr w log i T (Running p)"
  by (auto simp: thread_ok_def)

lemma thread_ok_committed:
  "grows B (dp_blobs d w) \<Longrightarrow> committed d drawn cr log i B p \<Longrightarrow> thread_ok d drawn cr w log i T (Running p)"
  unfolding thread_ok_def by auto

lemma thread_ok_other:
  assumes "thread_ok d drawn cr w log j T th" and "grows (dp_blobs d w) (dp_blobs d w')"
    and "j \<notin> fst ` set ext"
  shows "thread_ok d drawn cr w' (log @ ext) j T th"
proof (cases th)
  case Idle
  with assms(1,3) show ?thesis by (auto simp: thread_ok_def)
next
  case (Running p)
  with assms(1) obtain B where B: "grows B (dp_blobs d w)"
    "j \<notin> fst ` set log \<and> unsettled d drawn cr B T p \<or> committed d drawn cr log j B p"
    by (auto simp: thread_ok_def)
  have "committed d drawn cr (log @ ext) j B p" if "committed d drawn cr log j B p"
    using that unfolding committed_def by (metis append_Cons append_assoc)
  with B assms(3) Running grows_trans [OF B(1) assms(2)] show ?thesis by (auto simp: thread_ok_def)
qed

lemma stages_grows:
  assumes "unused d T w" and "stages d drawn T w T' w'"
  shows "grows (dp_blobs d w) (dp_blobs d w')"
  unfolding grows_def map_le_def
proof (intro allI ballI)
  fix j k assume "k \<in> dom (dp_blobs d w j)"
  with assms(1) have "\<not> (\<exists>token \<in> T. k = blob_key token)" by (auto simp: unused_def)
  with assms(2) show "dp_blobs d w j k = dp_blobs d w' j k" unfolding stages_def by metis
qed

text \<open>Staging on a thread keeps the tokens of the others unused.\<close>

lemma stages_unused:
  assumes "stages d drawn T w T' w'" and "T \<inter> U = {}" "unused d U w"
  shows "unused d U w'"
  unfolding unused_def
proof (intro ballI allI)
  fix token j assume t: "token \<in> U"
  with assms(2) have "\<not> (\<exists>x \<in> T. blob_key token = blob_key x)" by (auto simp: blob_key_inj)
  with assms(1,3) t show "dp_blobs d w' j (blob_key token) = None" by (auto simp: stages_def unused_def) (metis)
qed

text \<open>A step of thread \<open>i\<close> that keeps the invariant: what has to hold of the new thread and its tokens.\<close>

definition next_state :: "'w conc \<Rightarrow> nat \<Rightarrow> 'w \<Rightarrow> ('w, KVResponse) prog \<Rightarrow> (nat \<times> 'w \<times> 'w) list \<Rightarrow> 'w conc" where
  "next_state s i w p ext = s\<lparr>cc_world := w, cc_threads := (cc_threads s)(i := Running p), cc_log := cc_log s @ ext\<rparr>"

lemma linear_update:
  assumes lin: "linear d drawn reqs m0 s" and own: "owners d drawn reqs s own"
    and w': "drawn (cc_world s) \<subseteq> drawn w'" "grows (dp_blobs d (cc_world s)) (dp_blobs d w')" "refs_resolve d w'"
      "\<And>j. j \<noteq> i \<Longrightarrow> unused d (own j) w'"
    and T': "T' \<subseteq> own i \<union> (drawn w' - drawn (cc_world s))" "unused d T' w'"
    and log: "fst ` set ext \<subseteq> {i}" "history d (snd \<circ> reqs) m0 (cc_log s @ ext) (abs_view d w')" "distinct (map fst (cc_log s @ ext))"
    and th: "thread_ok d drawn (reqs i) w' (cc_log s @ ext) i T' (Running p)"
  shows "linear d drawn reqs m0 (next_state s i w' p ext)"
proof -
  note O = ownersD [OF own]
  let ?own = "own(i := T')"
  have other: "T' \<inter> own j = {}" if "j \<noteq> i" for j
    using that O(1) [of i j] O(2) [of j] T'(1) by blast
  have 1: "?own a \<inter> ?own b = {}" if "a \<noteq> b" for a b
    using that O(1) [of a b] other [of a] other [of b] by (auto simp: Int_commute)
  have 2: "?own j \<subseteq> drawn w'" for j
    using O(2) w'(1) T'(1) by (auto split: if_splits)
  have 3: "unused d (?own j) w'" for j
    using w'(4) T'(2) by simp
  have 4: "thread_ok d drawn (reqs j) w' (cc_log s @ ext) j (?own j) (((cc_threads s)(i := Running p)) j)" for j
    using th thread_ok_other [OF O(4) w'(2)] log(1) by auto
  have "owners d drawn reqs (next_state s i w' p ext) ?own"
    using 1 2 3 4 by (simp add: owners_def next_state_def)
  with linearD(1,2) [OF lin] w'(3) log(2,3) show ?thesis by (auto simp: linear_def next_state_def)
qed

lemma linear_stage:
  assumes lin: "linear d drawn reqs m0 s" and own: "owners d drawn reqs s own"
    and new: "i \<notin> fst ` set (cc_log s)"
    and st: "stages d drawn (own i) (cc_world s) T' w'" and u: "unsettled d drawn (reqs i) (dp_blobs d w') T' p"
  shows "linear d drawn reqs m0 (next_state s i w' p [])"
proof -
  note O = ownersD [OF own] and D = linearD [OF lin]
  note g = stages_grows [OF O(3) st]
  have w': "refs_resolve d w' \<and> abs_view d w' = abs_view d (cc_world s)"
    using st g by (intro staged_outcome [OF D(3)]) (auto simp: stages_def)
  have th: "thread_ok d drawn (reqs i) w' (cc_log s @ []) i T' (Running p)"
    using new by (intro thread_ok_unsettled [OF _ _ u]) simp_all
  show ?thesis
    by (rule linear_update [OF lin own _ g _ _ _ _ _ _ _ th])
      (use st w' D stages_unused [OF st O(1) O(3)] in \<open>auto simp: stages_def\<close>)
qed

lemma linear_commit:
  assumes lin: "linear d drawn reqs m0 s" and own: "owners d drawn reqs s own"
    and new: "i \<notin> fst ` set (cc_log s)" and B: "grows B (dp_blobs d (cc_world s))"
    and com: "commits d drawn (reqs i) B f" and f: "f (cc_world s) = (p, w')"
  shows "linear d drawn reqs m0 (next_state s i w' p [(i, cc_world s, w')])"
proof -
  let ?w = "cc_world s" and ?cr = "reqs i"
  note O = ownersD [OF own] and D = linearD [OF lin]
  from com B D(3) f have c: "dp_blobs d w' = dp_blobs d ?w" "drawn w' = drawn ?w" "refs_resolve d w'"
    "abs_view d w' \<in> request_effects (snd ?cr) (abs_view d ?w)"
    "settled d drawn (\<lambda>resp B'. explains d ?cr B' ?w resp w') (dp_blobs d ?w) p"
    unfolding commits_def by blast+
  have "committed d drawn ?cr (cc_log s @ [(i, cc_world s, w')]) i (dp_blobs d ?w) p"
    unfolding committed_def using c(5) by blast
  then have th: "thread_ok d drawn ?cr w' (cc_log s @ [(i, cc_world s, w')]) i (own i) (Running p)"
    by (rule thread_ok_committed [rotated]) (simp add: c(1))
  have hist: "history d (snd \<circ> reqs) m0 (cc_log s @ [(i, cc_world s, w')]) (abs_view d w')"
    by (rule history_append [OF D(4) refl]) (use c(4) in simp)
  show ?thesis
    by (rule linear_update [OF lin own _ _ _ _ _ _ _ hist _ th])
      (use c D(5) new O(3) in \<open>auto simp: unused_def\<close>)
qed

lemma linear_read:
  assumes lin: "linear d drawn reqs m0 s" and own: "owners d drawn reqs s own"
    and B: "grows B (dp_blobs d (cc_world s))" and com: "committed d drawn (reqs i) (cc_log s) i B p"
    and same: "same_views d (cc_world s) w'" "drawn w' = drawn (cc_world s)"
  shows "linear d drawn reqs m0 (next_state s i w' p [])"
proof -
  note O = ownersD [OF own] and D = linearD [OF lin]
  have th: "thread_ok d drawn (reqs i) w' (cc_log s @ []) i (own i) (Running p)"
    using B com same(1) by (intro thread_ok_committed) (simp_all add: same_views_def)
  show ?thesis
    by (rule linear_update [OF lin own _ _ _ _ _ _ _ _ _ th])
      (use same D O(3) in \<open>auto simp: unused_def same_views_def refs_resolve_def abs_view_def\<close>)
qed

lemma linear_Invoke:
  assumes lin: "linear d drawn reqs m0 s" and st: "conc_step d reqs (Invoke i) s = Some s'"
  shows "linear d drawn reqs m0 s'"
proof -
  note D = linearD [OF lin]
  obtain own where own: "owners d drawn reqs s own" using D(6) ..
  from st have idle: "cc_threads s i = Idle" and s': "s' = next_state s i (cc_world s) (handler d (reqs i)) []"
    by (auto simp: next_state_def split: thread.splits)
  have "i \<notin> fst ` set (cc_log s)" using ownersD(4) [OF own, of i] idle by (simp add: thread_ok_def)
  then show ?thesis
    unfolding s' by (rule linear_stage [OF lin own _ _ handler_unsettled [OF D(1,2)]]) (simp add: stages_def unused_def)
qed

lemma linear_Advance:
  assumes lin: "linear d drawn reqs m0 s" and st: "conc_step d reqs (Advance i) s = Some s'"
  shows "linear d drawn reqs m0 s'"
proof -
  obtain own where own: "owners d drawn reqs s own" using linearD(6) [OF lin] ..
  note O = ownersD [OF own]
  let ?w = "cc_world s" and ?cr = "reqs i"
  from st obtain t f p w' where run: "cc_threads s i = Running (Call t f)" and f: "f ?w = (p, w')"
    and s': "s' = next_state s i w' p (if t = Coordinator then [(i, cc_world s, w')] else [])"
    by (auto simp: next_state_def split: thread.splits prog.splits prod.splits)
  from O(4) [of i] run obtain B where B: "grows B (dp_blobs d ?w)"
    and cases: "i \<notin> fst ` set (cc_log s) \<and> unsettled d drawn ?cr B (own i) (Call t f) \<or>
      committed d drawn ?cr (cc_log s) i B (Call t f)"
    by (auto simp: thread_ok_def)
  from cases show ?thesis
  proof (elim disjE conjE)
    assume new: "i \<notin> fst ` set (cc_log s)" and u: "unsettled d drawn ?cr B (own i) (Call t f)"
    have "ready d drawn B (own i) ?w" using B O(2,3) by (simp add: ready_def)
    with u show ?thesis using f
    proof (cases rule: unsettled_step)
      case (stage T')
      then show ?thesis using linear_stage [OF lin own new stage(2,3)] s' by simp
    next
      case commit
      then show ?thesis using linear_commit [OF lin own new B commit(2) f] s' by simp
    qed
  next
    assume "committed d drawn ?cr (cc_log s) i B (Call t f)"
    then obtain xs v v' ys where log: "cc_log s = xs @ (i, v, v') # ys"
      and "settled d drawn (\<lambda>resp B'. explains d ?cr B' v resp v') B (Call t f)"
      by (auto simp: committed_def)
    from settled_step [OF this(2) B f] have c: "t \<noteq> Coordinator" "same_views d ?w w'" "drawn w' = drawn ?w"
      "settled d drawn (\<lambda>resp B'. explains d ?cr B' v resp v') (dp_blobs d ?w) p" by simp_all
    with log have "committed d drawn ?cr (cc_log s) i (dp_blobs d ?w) p" unfolding committed_def by blast
    from linear_read [OF lin own grows_refl this c(2,3)] c(1) s' show ?thesis by simp
  qed
qed

interpretation linear: machine_invariant
  "\<lambda>s. environment d \<and> token_laws d drawn \<and> refs_resolve d (cc_world s) \<and> m0 = abs_view d (cc_world s) \<and> s = conc_start (cc_world s)"
  "conc_step d reqs" "linear d drawn reqs m0"
proof
  fix s assume s: "environment d \<and> token_laws d drawn \<and> refs_resolve d (cc_world s) \<and> m0 = abs_view d (cc_world s) \<and> s = conc_start (cc_world s)"
  then have "cc_log s = []" "cc_threads s = (\<lambda>_. Idle)" by (metis conc.select_convs conc_start_def)+
  with s show "linear d drawn reqs m0 s"
    by (auto simp: linear_def owners_def thread_ok_def unused_def intro!: exI [of _ "\<lambda>_. {}"])
next
  fix s e s' assume "linear d drawn reqs m0 s" "conc_step d reqs e s = Some s'"
  then show "linear d drawn reqs m0 s'" by (cases e) (auto intro: linear_Invoke linear_Advance simp del: conc_step.simps)
qed

text \<open>What the invariant says of a request that was answered, and that the log only grows.\<close>

lemma answered_explained:
  assumes lin: "linear d drawn reqs m0 s" and fin: "cc_threads s i = Running (Done (Ok resp))"
  obtains xs v v' ys where "cc_log s = xs @ (i, v, v') # ys" "explains d (reqs i) (dp_blobs d (cc_world s)) v resp v'"
proof -
  obtain own where own: "owners d drawn reqs s own" using linearD(6) [OF lin] ..
  from ownersD(4) [OF own, of i] fin obtain B where B: "grows B (dp_blobs d (cc_world s))"
    and "unsettled d drawn (reqs i) B (own i) (Done (Ok resp)) \<or> committed d drawn (reqs i) (cc_log s) i B (Done (Ok resp))"
    unfolding thread_ok_def by auto
  moreover have "\<not> unsettled d drawn (reqs i) B (own i) (Done (Ok resp))" by (auto elim: unsettled_DoneE)
  ultimately obtain xs v v' ys where log: "cc_log s = xs @ (i, v, v') # ys"
    and st: "settled d drawn (\<lambda>resp B'. explains d (reqs i) B' v resp v') B (Done (Ok resp))"
    unfolding committed_def by blast
  have "explains d (reqs i) B v resp v'" by (rule settled_DoneE [OF st]) blast
  then show thesis by (rule that [OF log explains_grows [OF B]])
qed

lemma idle_not_logged:
  assumes "linear d drawn reqs m0 s" and "cc_threads s j = Idle"
  shows "j \<notin> fst ` set (cc_log s)"
proof -
  obtain own where own: "owners d drawn reqs s own" using linearD(6) [OF assms(1)] ..
  from ownersD(4) [OF own, of j] assms(2) show ?thesis by (simp add: thread_ok_def)
qed

lemma exec_log_grows: "exec (conc_step d reqs) es s = Some s' \<Longrightarrow> \<exists>ext. cc_log s' = cc_log s @ ext"
proof (induction es arbitrary: s)
  case (Cons e es)
  then obtain s1 where s1: "conc_step d reqs e s = Some s1" "exec (conc_step d reqs) es s1 = Some s'"
    by (auto simp: bind_eq_Some_conv)
  from s1(1) obtain ext where "cc_log s1 = cc_log s @ ext"
    by (cases e) (auto split: thread.splits prog.splits prod.splits)
  with Cons.IH [OF s1(2)] show ?case by auto
qed simp

text \<open>A running request that is left alone finishes.\<close>

lemma advance_to_end:
  assumes "cc_threads s i = Running p" and "run p (cc_world s) = (r, w)"
  shows "\<exists>k s'. exec (conc_step d reqs) (replicate k (Advance i)) s = Some s' \<and>
    cc_threads s' i = Running (Done r) \<and> cc_world s' = w \<and> (\<forall>j. j \<noteq> i \<longrightarrow> cc_threads s' j = cc_threads s j)"
  using assms
proof (induction p arbitrary: s)
  case (Done r')
  then show ?case by (intro exI [of _ 0] exI [of _ s]) (simp add: io_lift_def)
next
  case (Call t f)
  obtain p w1 where f: "f (cc_world s) = (p, w1)" by fastforce
  let ?s = "next_state s i w1 p (if t = Coordinator then [(i, cc_world s, w1)] else [])"
  have p: "p \<in> Basic_BNFs.fsts (f (cc_world s))" using f by simp
  have "cc_threads ?s i = Running p" "run p (cc_world ?s) = (r, w)"
    using Call.prems(2) f by (simp_all add: next_state_def)
  from Call.IH [OF rangeI p this] obtain k s' where
    s': "exec (conc_step d reqs) (replicate k (Advance i)) ?s = Some s'" "cc_threads s' i = Running (Done r)" "cc_world s' = w"
      "\<forall>j. j \<noteq> i \<longrightarrow> cc_threads s' j = cc_threads ?s j" by blast
  moreover have "conc_step d reqs (Advance i) s = Some ?s" using Call.prems(1) f by (simp add: next_state_def)
  ultimately have "exec (conc_step d reqs) (replicate (Suc k) (Advance i)) s = Some s'" by (simp del: conc_step.simps)
  with s' show ?case by (intro exI [of _ "Suc k"] exI [of _ s']) (simp add: next_state_def)
qed

end
