(* ===== verification/Concurrency_Theorems.thy ===== *)
theory Concurrency_Theorems
  imports Coordinated_Concurrency Coordinated_Theorems
begin

text \<open>
  What concurrent clients of the coordinated proxy see, with an application to two clients of the in-memory
  deployment whose calls interleave.
\<close>

section \<open>The in-memory deployment does not repeat tokens\<close>

definition mem_tokens :: "mem \<Rightarrow> bytes set" where
  "mem_tokens w = {replicate n (CHR 0x00) @ [char_of k] | n k :: nat. k < mem_drawn w \<and> k < 256}"

lemma mem_token_fresh:
  assumes "mem_drawn w < 256"
  shows "mem_token n w \<notin> mem_tokens w"
proof
  assume "mem_token n w \<in> mem_tokens w"
  then obtain m k where k: "k < mem_drawn w" "k < 256"
    "replicate (n - 1) (CHR 0x00) @ [char_of (mem_drawn w)] = replicate m (CHR 0x00) @ [char_of k]"
    by (auto simp: mem_tokens_def mem_token_def)
  then have "char_of (mem_drawn w) = (char_of k :: char)" by simp
  with k assms show False by (metis mod_less of_char_of less_irrefl)
qed

lemma mem_client_keeps:
  assumes "\<And>s w. mem_drawn (upd s w) = mem_drawn w"
  shows "keeps mem_tokens (KV_Put (mem_client up get upd))" "keeps mem_tokens (KV_Range (mem_client up get upd))"
    "keeps mem_tokens (KV_DeleteRange (mem_client up get upd))" "keeps mem_tokens (KV_Txn (mem_client up get upd))"
  using assms by (auto simp: keeps_def mem_client_def mem_tokens_def Let_def split: if_splits prod.splits)

lemma mem_token_laws: "token_laws mem_deployment mem_tokens"
proof -
  have draw: "mem_tokens w \<subseteq> mem_tokens w' \<and> (\<forall>token. r = Ok token \<longrightarrow> token \<in> mem_tokens w' - mem_tokens w)"
    if "mem_rand n w = (r, w')" for n w r w'
  proof (cases "w' = w")
    case True
    with that show ?thesis by (auto simp: mem_rand_def split: if_splits dest: arg_cong [of _ _ mem_drawn])
  next
    case False
    with that have w': "r = Ok (mem_token n w)" "mem_drawn w < 256" "w' = w\<lparr>mem_drawn := Suc (mem_drawn w)\<rparr>"
      by (auto simp: mem_rand_def split: if_splits)
    have "mem_token n w \<in> mem_tokens w'"
      unfolding mem_tokens_def mem_token_def using w'(2,3) by (auto intro!: exI [of _ "n - 1"] exI [of _ "mem_drawn w"])
    moreover have "k < mem_drawn w'" if "k < mem_drawn w" for k using that w'(3) by simp
    then have "mem_tokens w \<subseteq> mem_tokens w'" unfolding mem_tokens_def by blast
    ultimately show ?thesis using w'(1) mem_token_fresh [OF w'(2)] by auto
  qed
  have client: "cp_clients mem_proxy ! i = mem_shard i" if "i < 2" for i
    using that by (auto simp: mem_proxy_def less_Suc_eq numeral_2_eq_2)
  have "length (cp_clients mem_proxy) = 2" by (simp add: mem_proxy_def)
  with draw client show ?thesis
    by (simp add: token_laws_def mem_transport mem_backend)
      (simp add: mem_shard_def mem_coordinator_def mem_client_keeps)
qed

section \<open>Two clients\<close>

text \<open>Client 0 writes \<open>b\<close>, client 1 reads it.\<close>

definition mem_reqs :: "nat \<Rightarrow> unit \<times> KVRequest" where
  "mem_reqs i = ((), if i = 0 then ReqPut (put_request ''b'' ''v1'') else ReqRange (get_request ''b''))"

lemma request_runs:
  assumes "cc_threads s i = Idle" and "run (handler d (reqs i)) (cc_world s) = (r, w)"
  shows "\<exists>es s'. exec (conc_step d reqs) es s = Some s' \<and> cc_threads s' i = Running (Done r) \<and> cc_world s' = w \<and>
    (\<forall>j. j \<noteq> i \<longrightarrow> cc_threads s' j = cc_threads s j)"
proof -
  let ?started = "s\<lparr>cc_threads := (cc_threads s)(i := Running (handler d (reqs i)))\<rparr>"
  have "conc_step d reqs (Invoke i) s = Some ?started" using assms(1) by simp
  moreover obtain k s' where "exec (conc_step d reqs) (replicate k (Advance i)) ?started = Some s'"
    "cc_threads s' i = Running (Done r)" "cc_world s' = w" "\<forall>j. j \<noteq> i \<longrightarrow> cc_threads s' j = cc_threads ?started j"
    using advance_to_end [of ?started i "handler d (reqs i)" r w d reqs] assms(2) by auto
  ultimately show ?thesis by (intro exI [of _ "Invoke i # replicate k (Advance i)"] exI [of _ s']) (simp del: conc_step.simps)
qed

lemma mem_write_runs: "run (handler mem_deployment (mem_reqs 0)) mem_empty = (Ok (RespPut \<lparr>ps_Header = None, ps_PrevKv = None\<rparr>), mem_b)"
  by (simp add: handler_def mem_reqs_def io_bind_step mem_b_Put io_lift_def)

lemma mem_read_runs: "\<exists>out w'. run (handler mem_deployment (mem_reqs 1)) mem_b = (Ok (RespRange out), w')"
proof -
  obtain out w' where "CoordinatedProxy_Range mem_grpc mem_proxy () (Some (get_request ''b'')) mem_b = (Ok out, w')"
    by (rule mem_read)
  then show ?thesis by (auto simp: handler_def mem_reqs_def io_bind_step io_lift_def)
qed

text \<open>The write, then the read: an execution that ends with both answered.\<close>

lemma mem_write_read:
  obtains es es' s1 s2 resp resp' where
    "exec (conc_step mem_deployment mem_reqs) es (conc_start mem_empty) = Some s1"
    "exec (conc_step mem_deployment mem_reqs) es' s1 = Some s2"
    "cc_threads s1 0 = Running (Done (Ok resp))" "cc_threads s1 1 = Idle" "cc_threads s2 1 = Running (Done (Ok resp'))"
proof -
  let ?step = "conc_step mem_deployment mem_reqs" and ?init = "conc_start mem_empty"
  have "cc_threads ?init 0 = Idle" "run (handler mem_deployment (mem_reqs 0)) (cc_world ?init) =
      (Ok (RespPut \<lparr>ps_Header = None, ps_PrevKv = None\<rparr>), mem_b)"
    using mem_write_runs by (simp_all add: conc_start_def)
  from request_runs [where reqs = mem_reqs, OF this] obtain es s1 where s1: "exec ?step es ?init = Some s1"
    "cc_threads s1 0 = Running (Done (Ok (RespPut \<lparr>ps_Header = None, ps_PrevKv = None\<rparr>)))" "cc_world s1 = mem_b"
    "cc_threads s1 1 = Idle" by (auto simp: conc_start_def)
  obtain out w' where "run (handler mem_deployment (mem_reqs 1)) (cc_world s1) = (Ok (RespRange out), w')"
    using mem_read_runs s1(3) by auto
  from request_runs [where reqs = mem_reqs, OF s1(4) this] obtain es' s2 where
    "exec ?step es' s1 = Some s2" "cc_threads s2 1 = Running (Done (Ok (RespRange out)))" by blast
  with s1 that show thesis by blast
qed

section \<open>Properties\<close>

text \<open>
  C6. Concurrent requests are linearizable. Under every interleaving of the calls of any number of requests, the
  coordinator calls, in their order, form a sequential history of requests from the first user's map to the
  current one, and each request occurs at most once. Every request that was answered without an error occurs.
  At its place it asked the coordinator for its own keys under the prefix, in ranges and in comparisons, with
  references that stand for its values; the map changed there by exactly its effect (for a transaction, that of the
  branch the answer reports); and its answer is the coordinator's answer to that one call with user keys,
  and with every reference, also those of previous values and inside transactions, replaced by its blob. A
  linearizable read answers for the map at its place; serializable and historical reads answer what the
  coordinator answered.
\<close>

theorem requests_linearizable:
  assumes "environment d" and "token_laws d drawn" and "refs_resolve d w"
    and "exec (conc_step d reqs) es (conc_start w) = Some s"
  shows "history d (snd \<circ> reqs) (abs_view d w) (cc_log s) (abs_view d (cc_world s)) \<and> distinct (map fst (cc_log s)) \<and>
    refs_resolve d (cc_world s) \<and>
    (\<forall>i resp. cc_threads s i = Running (Done (Ok resp)) \<longrightarrow>
       (\<exists>xs v v' ys. cc_log s = xs @ (i, v, v') # ys \<and> explains d (reqs i) (dp_blobs d (cc_world s)) v resp v'))"
proof -
  have lin: "linear d drawn reqs (abs_view d w) s"
    by (rule linear.always_exec [OF _ assms(4)]) (use assms in \<open>simp add: conc_start_def\<close>)
  have "\<exists>xs v v' ys. cc_log s = xs @ (i, v, v') # ys \<and> explains d (reqs i) (dp_blobs d (cc_world s)) v resp v'"
    if "cc_threads s i = Running (Done (Ok resp))" for i resp
    by (rule answered_explained [OF lin that]) blast
  with linearD(3-5) [OF lin] show ?thesis by simp
qed

theorem requests_linearizable_witness:
  "\<exists>es s xs v v' ys out. exec (conc_step mem_deployment mem_reqs) es (conc_start mem_empty) = Some s \<and>
     cc_threads s 1 = Running (Done (Ok (RespRange out))) \<and> cc_log s = xs @ (1, v, v') # ys \<and>
     range_answer (get_request ''b'') (abs_view mem_deployment v) (rs_Kvs out)"
proof -
  obtain es es' s1 s2 resp where e: "exec (conc_step mem_deployment mem_reqs) es (conc_start mem_empty) = Some s1"
    "exec (conc_step mem_deployment mem_reqs) es' s1 = Some s2" "cc_threads s2 1 = Running (Done (Ok resp))"
    by (rule mem_write_read)
  then have es: "exec (conc_step mem_deployment mem_reqs) (es @ es') (conc_start mem_empty) = Some s2"
    by (simp add: exec_append)
  from requests_linearizable [OF mem_environment mem_token_laws mem_empty_resolves es,
      THEN conjunct2, THEN conjunct2, THEN conjunct2, rule_format, OF e(3)]
  obtain xs v v' ys where log: "cc_log s2 = xs @ (1, v, v') # ys"
    and "explains mem_deployment (mem_reqs 1) (dp_blobs mem_deployment (cc_world s2)) v resp v'" by blast
  moreover have "mem_reqs 1 = ((), ReqRange (get_request ''b''))" by (simp add: mem_reqs_def)
  ultimately obtain out where "resp = RespRange out" "range_answer (get_request ''b'') (abs_view mem_deployment v) (rs_Kvs out)"
    by (auto simp: explains_def range_explained_def)
  with es e(3) log show ?thesis by blast
qed

text \<open>
  C7. The linearization keeps the order of requests that do not overlap: when one was answered before
  another was invoked, its entry comes first.
\<close>

theorem linearizable_real_time:
  assumes "environment d" and "token_laws d drawn" and "refs_resolve d w"
    and "exec (conc_step d reqs) es (conc_start w) = Some s1" and "exec (conc_step d reqs) es' s1 = Some s2"
    and "cc_threads s1 i = Running (Done (Ok resp))" and "cc_threads s1 j = Idle"
    and "cc_threads s2 j = Running (Done (Ok resp'))"
  shows "\<exists>xs m ys m' zs. cc_log s2 = xs @ (i, m) # ys @ (j, m') # zs"
proof -
  have lin1: "linear d drawn reqs (abs_view d w) s1"
    by (rule linear.always_exec [OF _ assms(4)]) (use assms in \<open>simp add: conc_start_def\<close>)
  have "exec (conc_step d reqs) (es @ es') (conc_start w) = Some s2" using assms(4,5) by (simp add: exec_append)
  then have lin2: "linear d drawn reqs (abs_view d w) s2"
    by (rule linear.always_exec [rotated]) (use assms in \<open>simp add: conc_start_def\<close>)
  obtain xs m ys where i: "cc_log s1 = xs @ (i, m) # ys" by (rule answered_explained [OF lin1 assms(6)]) blast
  obtain ext where ext: "cc_log s2 = cc_log s1 @ ext" using exec_log_grows [OF assms(5)] by blast
  obtain as m' bs where "cc_log s2 = as @ (j, m') # bs" by (rule answered_explained [OF lin2 assms(8)]) blast
  then have "(j, m') \<in> set (cc_log s2)" by simp
  with ext idle_not_logged [OF lin1 assms(7)] have "(j, m') \<in> set ext" by force
  then obtain bs zs where "ext = bs @ (j, m') # zs" by (meson split_list)
  with i ext have "cc_log s2 = xs @ (i, m) # (ys @ bs) @ (j, m') # zs" by simp
  then show ?thesis by blast
qed

theorem linearizable_real_time_witness:
  "\<exists>es s xs m ys m' zs. exec (conc_step mem_deployment mem_reqs) es (conc_start mem_empty) = Some s \<and>
     cc_log s = xs @ (0, m) # ys @ (1, m') # zs"
proof -
  obtain es es' s1 s2 resp resp' where e: "exec (conc_step mem_deployment mem_reqs) es (conc_start mem_empty) = Some s1"
    "exec (conc_step mem_deployment mem_reqs) es' s1 = Some s2" "cc_threads s1 0 = Running (Done (Ok resp))"
    "cc_threads s1 1 = Idle" "cc_threads s2 1 = Running (Done (Ok resp'))"
    by (rule mem_write_read)
  then have "exec (conc_step mem_deployment mem_reqs) (es @ es') (conc_start mem_empty) = Some s2"
    by (simp add: exec_append)
  with linearizable_real_time [OF mem_environment mem_token_laws mem_empty_resolves e] show ?thesis by blast
qed

end
