(* ===== verification/Sharding.thy ===== *)
theory Sharding
  imports Etcd_Api Config
begin

text \<open>
  The routing table of the legacy sharded mode: \<open>pkg/server/shard_client.go\<close>,
  \<open>pkg/server/shard.go\<close> and \<open>pkg/server/sharding.go\<close>.

  The interface \<open>ShardingConfigs\<close> is a record of functions; what its users rely on is the locale
  \<open>sharding_contract\<close>, interpreted here for \<open>DefaultShardingConfigs\<close> over the shards of a valid
  configuration. The lemmas show that the early \<open>break\<close> of \<open>GetShardClis\<close> loses no shard, that a
  key is owned by exactly one shard, and that a range reaches exactly the shards it touches.
\<close>

section \<open>Shard clients\<close>

record ('c, 'm, 'w) ShardClientImpl =
  shardID :: int
  sc_KV :: "('c, 'm, 'w) KVClient"
  sc_Watch :: "('c, 'm, 'w) WatchClient"
  sc_Lease :: "('c, 'm, 'w) LeaseClient"

definition NewShardClientImpl ::
  "('conn, 'c, 'm, 'w) Stubs \<Rightarrow> int \<Rightarrow> string \<Rightarrow> ('w, ('c, 'm, 'w) ShardClientImpl) io"
where
  "NewShardClientImpl grpc sid address =
     io_bind (io_wrap ''failed to dial etcd server'' (grpc_Dial grpc address Insecure)) (\<lambda>conn.
       io_return \<lparr>shardID = sid, sc_KV = NewKVClient grpc conn,
                  sc_Watch = NewWatchClient grpc conn, sc_Lease = NewLeaseClient grpc conn\<rparr>)"

definition GetShardID :: "('c, 'm, 'w) ShardClientImpl \<Rightarrow> int" where
  "GetShardID s = shardID s"

section \<open>Shards\<close>

record 'cli ShardImpl =
  shard_start :: bytes
  shard_end :: bytes
  shard_cli :: 'cli

definition NewShardImpl ::
  "('conn, 'c, 'm, 'w) Stubs \<Rightarrow> int \<Rightarrow> int \<Rightarrow> Shard \<Rightarrow>
   ('w, ('c, 'm, 'w) ShardClientImpl ShardImpl) io"
where
  "NewShardImpl grpc sid totalShards conf =
     (let start = (if length (Start conf) > 0 then Start conf else StartBytes conf);
          start = (if sid = 0 then [] else start);
          end' = (if length (End conf) > 0 then End conf else EndBytes conf);
          end' = (if sid = totalShards - 1 then noEnd else end')
      in io_bind
           (io_wrap (''failed to create shard client to ['' @ Address conf @ '']'')
              (NewShardClientImpl grpc sid (Address conf)))
           (\<lambda>cli. io_return \<lparr>shard_start = start, shard_end = end', shard_cli = cli\<rparr>))"

definition Contains :: "'cli ShardImpl \<Rightarrow> bytes \<Rightarrow> bytes \<Rightarrow> bool" where
  "Contains s key rangeEnd =
     (if shard_end s \<noteq> noEnd \<and> bytes_compare key (shard_end s) \<ge> 0 then False
      else if bytes_compare key (shard_start s) \<ge> 0 then True
      else if length rangeEnd < 1 then False
      else if rangeEnd = noEnd then True
      else if bytes_compare rangeEnd (shard_start s) > 0 then True
      else False)"

definition GetClient :: "'cli ShardImpl \<Rightarrow> 'cli" where
  "GetClient s = shard_cli s"

section \<open>Routing tables\<close>

record 'cli ShardingConfigs =
  cfg_GetShardClis :: "bytes \<Rightarrow> bytes \<Rightarrow> 'cli list"
  cfg_GetShardCli :: "int \<Rightarrow> 'cli result"
  cfg_GetAllShardClis :: "'cli list"

text \<open>The loop of \<open>GetShardClis\<close>, with its \<open>findStart\<close> flag and its \<open>break\<close>.\<close>

fun GetShardClis_loop :: "'cli ShardImpl list \<Rightarrow> bytes \<Rightarrow> bytes \<Rightarrow> bool \<Rightarrow> 'cli list" where
  "GetShardClis_loop [] key rangeEnd findStart = []"
| "GetShardClis_loop (shard # shards) key rangeEnd findStart =
     (if Contains shard key rangeEnd
      then GetClient shard # GetShardClis_loop shards key rangeEnd True
      else if findStart then []
      else GetShardClis_loop shards key rangeEnd findStart)"

definition GetShardClis :: "'cli ShardImpl list \<Rightarrow> bytes \<Rightarrow> bytes \<Rightarrow> 'cli list" where
  "GetShardClis shards key rangeEnd = GetShardClis_loop shards key rangeEnd False"

definition GetShardCli :: "'cli ShardImpl list \<Rightarrow> int \<Rightarrow> 'cli result" where
  "GetShardCli shards shard = res_bind (index shards shard) (\<lambda>s. Ok (GetClient s))"

definition GetAllShardClis :: "'cli ShardImpl list \<Rightarrow> 'cli list" where
  "GetAllShardClis shards = map GetClient shards"

definition NewDefaultShardingConfigs :: "'cli ShardImpl list \<Rightarrow> 'cli ShardingConfigs" where
  "NewDefaultShardingConfigs shards =
     \<lparr>cfg_GetShardClis = GetShardClis shards, cfg_GetShardCli = GetShardCli shards,
      cfg_GetAllShardClis = GetAllShardClis shards\<rparr>"

section \<open>Well-formed shard lists\<close>

definition shard_segment :: "'cli ShardImpl \<Rightarrow> segment" where
  "shard_segment s = (shard_start s, if shard_end s = noEnd then None else Some (shard_end s))"

definition shard_owns :: "'cli ShardImpl \<Rightarrow> bytes \<Rightarrow> bool" where
  "shard_owns s k \<longleftrightarrow> seg_owns (shard_segment s) k"

definition valid_shards :: "('c, 'm, 'w) ShardClientImpl ShardImpl list \<Rightarrow> bool" where
  "valid_shards shards \<longleftrightarrow> tiles [] (map shard_segment shards) \<and>
     map (\<lambda>s. GetShardID (GetClient s)) shards = map int [0..<length shards]"

definition shard_owner :: "'cli ShardImpl list \<Rightarrow> bytes \<Rightarrow> 'cli" where
  "shard_owner shards k = GetClient (hd (filter (\<lambda>s. shard_owns s k) shards))"

lemma Contains_iff:
  "Contains s key rangeEnd \<longleftrightarrow>
     (shard_end s = noEnd \<or> key < shard_end s) \<and>
     (shard_start s \<le> key \<or> rangeEnd \<noteq> [] \<and> (rangeEnd = noEnd \<or> shard_start s < rangeEnd))"
  by (auto simp: Contains_def not_le)

lemma Contains_single: "Contains s key [] = shard_owns s key"
  by (auto simp: Contains_iff shard_owns_def seg_owns_def shard_segment_def)

text \<open>
  A shard that owns a key of the range contains the range; a shard that contains a range which is
  not empty owns one of its keys.
\<close>

lemma Contains_if_owns_in_range:
  assumes "shard_owns s k" and "in_range k key rangeEnd"
  shows "Contains s key rangeEnd"
  using assms
  by (auto simp: Contains_iff shard_owns_def seg_owns_def shard_segment_def in_range_def
      split: if_splits)

lemma owns_in_range_if_Contains:
  assumes "Contains s key rangeEnd" and "in_range key key rangeEnd"
    and "shard_end s = noEnd \<or> shard_start s < shard_end s"
  shows "\<exists>k. in_range k key rangeEnd \<and> shard_owns s k"
proof (cases "shard_start s \<le> key")
  case True
  with assms show ?thesis
    by (intro exI [of _ key]) (auto simp: Contains_iff shard_owns_def seg_owns_def shard_segment_def)
next
  case False
  with assms show ?thesis
    by (intro exI [of _ "shard_start s"])
      (auto simp: Contains_iff shard_owns_def seg_owns_def shard_segment_def in_range_def
        split: if_splits)
qed

lemma in_range_key: "in_range k key rangeEnd \<Longrightarrow> in_range key key rangeEnd"
  by (auto simp: in_range_def split: if_splits)

section \<open>The early exit is sound\<close>

lemma shards_Cons_cases:
  assumes "tiles b (map shard_segment (s # ss))"
  obtains "ss = []" "shard_start s = b" "shard_end s = noEnd"
  | "shard_start s = b" "shard_end s \<noteq> noEnd" "b < shard_end s"
    "tiles (shard_end s) (map shard_segment ss)"
  using assms unfolding list.map
  by (cases rule: tiles_Cons_cases) (auto simp: shard_segment_def split: if_splits)

lemma no_later_shard:
  assumes "tiles b (map shard_segment ss)"
    and "rangeEnd = [] \<or> rangeEnd \<noteq> noEnd \<and> rangeEnd \<le> b" and "key < b"
  shows "filter (\<lambda>s. Contains s key rangeEnd) ss = []"
proof -
  have "b \<le> shard_start s" if "s \<in> set ss" for s
    using tiles_starts_ge [OF assms(1), of "shard_segment s"] that
    by (auto simp: shard_segment_def)
  with assms(2,3) show ?thesis
    unfolding filter_empty_conv
    by (auto simp: Contains_iff not_le not_less intro: order_trans
        dest: order.strict_trans1 order.strict_trans2)
qed

lemma GetShardClis_loop_started:
  assumes "tiles b (map shard_segment ss)" and "key < b"
  shows "GetShardClis_loop ss key rangeEnd True =
    map GetClient (filter (\<lambda>s. Contains s key rangeEnd) ss)"
  using assms
proof (induction ss arbitrary: b)
  case (Cons s ss)
  from Cons.prems(1) show ?case
  proof (cases rule: shards_Cons_cases)
    case 2
    then have key: "key < shard_end s" using Cons.prems(2) by simp
    show ?thesis
    proof (cases "Contains s key rangeEnd")
      case True
      with Cons.IH [OF 2(4) key] show ?thesis by simp
    next
      case False
      with key 2 Cons.prems(2) have "rangeEnd = [] \<or> rangeEnd \<noteq> noEnd \<and> rangeEnd \<le> shard_end s"
        by (auto simp: Contains_iff not_less)
      with False no_later_shard [OF 2(4) _ key] show ?thesis by simp
    qed
  qed auto
qed simp

lemma GetShardClis_loop_filter:
  assumes "tiles b (map shard_segment ss)" and "b \<le> key"
  shows "GetShardClis_loop ss key rangeEnd False =
    map GetClient (filter (\<lambda>s. Contains s key rangeEnd) ss)"
  using assms
proof (induction ss arbitrary: b)
  case (Cons s ss)
  from Cons.prems(1) show ?case
  proof (cases rule: shards_Cons_cases)
    case 2
    show ?thesis
    proof (cases "Contains s key rangeEnd")
      case True
      then have "key < shard_end s" using 2 by (simp add: Contains_iff)
      with True GetShardClis_loop_started [OF 2(4)] show ?thesis by simp
    next
      case False
      then have "shard_end s \<le> key" using 2 Cons.prems(2) by (auto simp: Contains_iff)
      with False Cons.IH [OF 2(4)] show ?thesis by simp
    qed
  qed auto
qed simp

lemma GetShardClis_filter:
  assumes "valid_shards shards"
  shows "GetShardClis shards key rangeEnd =
    map GetClient (filter (\<lambda>s. Contains s key rangeEnd) shards)"
  using assms GetShardClis_loop_filter [of "[]" shards key rangeEnd]
  by (simp add: GetShardClis_def valid_shards_def)

lemma valid_shards_bounds:
  assumes "tiles b (map shard_segment shards)" and "s \<in> set shards"
  shows "shard_end s = noEnd \<or> shard_start s < shard_end s"
  using assms
proof (induction shards arbitrary: b)
  case (Cons t ts)
  from Cons.prems(1) show ?case
    by (cases rule: shards_Cons_cases) (use Cons in auto)
qed simp

section \<open>Exactly one owner\<close>

lemma valid_shards_nonempty: "valid_shards shards \<Longrightarrow> shards \<noteq> []"
  by (auto simp: valid_shards_def)

lemma filter_single:
  assumes "i < length xs" "P (xs ! i)" "\<And>j. j < length xs \<Longrightarrow> P (xs ! j) \<Longrightarrow> j = i"
  shows "filter P xs = [xs ! i]"
  using assms
proof (induction xs arbitrary: i)
  case (Cons x xs)
  show ?case
  proof (cases i)
    case 0
    have "\<not> P (xs ! j)" if "j < length xs" for j
      using Cons.prems(3) [of "Suc j"] that 0 by auto
    with 0 Cons.prems(2) show ?thesis by (auto simp: filter_empty_conv in_set_conv_nth)
  next
    case (Suc n)
    have "\<not> P x" using Cons.prems(3) [of 0] Suc by auto
    moreover have "filter P xs = [xs ! n]"
    proof (rule Cons.IH)
      show "n < length xs" "P (xs ! n)" using Cons.prems(1,2) Suc by auto
      show "j = n" if "j < length xs" "P (xs ! j)" for j
        using Cons.prems(3) [of "Suc j"] that Suc by simp
    qed
    ultimately show ?thesis using Suc by simp
  qed
qed simp

lemma shard_owner_unique:
  assumes "valid_shards shards"
  obtains i where "i < length shards" "shard_owns (shards ! i) k"
    "filter (\<lambda>s. shard_owns s k) shards = [shards ! i]"
    "shard_owner shards k = GetClient (shards ! i)"
    "GetShardID (GetClient (shards ! i)) = int i"
proof -
  have tiles: "tiles [] (map shard_segment shards)" using assms by (simp add: valid_shards_def)
  then obtain i where i: "i < length shards" "shard_owns (shards ! i) k"
    using tiles_owner [OF tiles, of k] by (auto simp: shard_owns_def)
  have f: "filter (\<lambda>s. shard_owns s k) shards = [shards ! i]"
  proof (rule filter_single [where P = "\<lambda>s. shard_owns s k", OF i])
    show "j = i" if "j < length shards" "shard_owns (shards ! j) k" for j
      using tiles_owner_unique [OF tiles, of j i k] that i by (simp add: shard_owns_def)
  qed
  have "map (\<lambda>s. GetShardID (GetClient s)) shards ! i = int i"
    using assms i(1) by (simp add: valid_shards_def)
  with i f show ?thesis by (intro that [of i]) (auto simp: shard_owner_def)
qed

lemma shard_owner_eq:
  assumes "valid_shards shards" "s \<in> set shards" "shard_owns s k"
  shows "shard_owner shards k = GetClient s"
proof -
  obtain i where "filter (\<lambda>s. shard_owns s k) shards = [shards ! i]"
    "shard_owner shards k = GetClient (shards ! i)"
    using shard_owner_unique [OF assms(1)] by metis
  moreover have "s \<in> set (filter (\<lambda>s. shard_owns s k) shards)" using assms by simp
  ultimately show ?thesis by simp
qed

section \<open>What the proxies rely on\<close>

text \<open>
  The contract of \<open>ShardingConfigs\<close>: every key has one owner, a single-key lookup returns it, a
  range lookup returns the owners of its keys and no other shard, and clients are found by the
  identifier they carry.
\<close>

locale sharding_contract =
  fixes invar :: "'cfg \<Rightarrow> bool"
    and configs :: "'cfg \<Rightarrow> ('c, 'm, 'w) ShardClientImpl ShardingConfigs"
    and owner :: "'cfg \<Rightarrow> bytes \<Rightarrow> ('c, 'm, 'w) ShardClientImpl"
  assumes single_key: "invar d \<Longrightarrow> cfg_GetShardClis (configs d) key [] = [owner d key]"
    and range_owners:
      "invar d \<Longrightarrow> in_range key key e \<Longrightarrow>
         set (cfg_GetShardClis (configs d) key e) = {owner d k | k. in_range k key e}"
    and range_nonempty: "invar d \<Longrightarrow> cfg_GetShardClis (configs d) key e \<noteq> []"
    and by_id: "invar d \<Longrightarrow>
         cfg_GetShardCli (configs d) (GetShardID (owner d k)) = Ok (owner d k)"
    and first_by_id: "invar d \<Longrightarrow>
         cfg_GetShardCli (configs d) 0 = Ok (hd (cfg_GetAllShardClis (configs d)))"
    and all_owners: "invar d \<Longrightarrow> owner d k \<in> set (cfg_GetAllShardClis (configs d))"
begin

lemma range_reaches_owner:
  assumes "invar d" and "in_range k key e"
  shows "owner d k \<in> set (cfg_GetShardClis (configs d) key e)"
  using assms range_owners [OF assms(1) in_range_key [OF assms(2)]] by blast

lemma range_only_owners:
  assumes "invar d" and "in_range key key e" and "cli \<in> set (cfg_GetShardClis (configs d) key e)"
  obtains k where "in_range k key e" "cli = owner d k"
  using assms range_owners [OF assms(1,2)] by blast

lemma configured: "invar d \<Longrightarrow> cfg_GetAllShardClis (configs d) \<noteq> []"
  using all_owners [of d] by auto

end

lemma valid_range_owners:
  assumes "valid_shards shards" and "in_range key key e"
  shows "set (GetShardClis shards key e) = {shard_owner shards k | k. in_range k key e}"
proof -
  have tiles: "tiles [] (map shard_segment shards)" using assms by (simp add: valid_shards_def)
  have "\<exists>k. in_range k key e \<and> shard_owner shards k = GetClient s"
    if "s \<in> set shards" "Contains s key e" for s
    using owns_in_range_if_Contains [OF that(2) assms(2) valid_shards_bounds [OF tiles that(1)]]
      shard_owner_eq [OF assms(1) that(1)] by blast
  moreover have "\<exists>s \<in> set shards. Contains s key e \<and> GetClient s = shard_owner shards k"
    if "in_range k key e" for k
    using shard_owner_unique [OF assms(1), of k] Contains_if_owns_in_range [OF _ that]
    by (metis nth_mem)
  ultimately show ?thesis
    unfolding GetShardClis_filter [OF assms(1)] by (auto simp: image_iff) metis+
qed

lemma GetShardClis_single:
  assumes "valid_shards shards"
  shows "GetShardClis shards key [] = [shard_owner shards key]"
  by (rule shard_owner_unique [OF assms, of key])
    (simp add: GetShardClis_filter [OF assms] Contains_single)

lemma GetShardClis_nonempty:
  assumes "valid_shards shards"
  shows "GetShardClis shards key e \<noteq> []"
proof -
  obtain i where i: "i < length shards" "shard_owns (shards ! i) key"
    using shard_owner_unique [OF assms, of key] by metis
  then have "Contains (shards ! i) key e"
    by (auto simp: Contains_iff shard_owns_def seg_owns_def shard_segment_def split: if_splits)
  with i(1) show ?thesis
    by (auto simp: GetShardClis_filter [OF assms] filter_empty_conv)
qed

lemma GetShardCli_owner:
  assumes "valid_shards shards"
  shows "GetShardCli shards (GetShardID (shard_owner shards k)) = Ok (shard_owner shards k)"
  by (rule shard_owner_unique [OF assms, of k]) (simp add: GetShardCli_def)

lemma shard_owner_in_all:
  "valid_shards shards \<Longrightarrow> shard_owner shards k \<in> set (GetAllShardClis shards)"
  by (erule shard_owner_unique [of _ k]) (simp add: GetAllShardClis_def)

lemma GetShardCli_first:
  "valid_shards shards \<Longrightarrow> GetShardCli shards 0 = Ok (hd (GetAllShardClis shards))"
  using valid_shards_nonempty [of shards]
  by (cases shards) (auto simp: GetShardCli_def GetAllShardClis_def)

interpretation default_configs:
  sharding_contract valid_shards NewDefaultShardingConfigs shard_owner
  by unfold_locales
    (simp_all add: NewDefaultShardingConfigs_def GetShardClis_single GetShardClis_nonempty
      valid_range_owners GetShardCli_owner GetShardCli_first shard_owner_in_all)

text \<open>
  The identifier of the shard a single key is sent to, \<open>GetShardClis(key, nil)[0].GetShardID()\<close>, is a
  router of the partition the shards describe.
\<close>

definition key_shard :: "('c, 'm, 'w) ShardClientImpl ShardImpl list \<Rightarrow> bytes \<Rightarrow> nat result" where
  "key_shard shards key =
     res_bind (index (GetShardClis shards key []) 0) (\<lambda>cli. Ok (nat (GetShardID cli)))"

interpretation legacy: key_router valid_shards "map shard_segment" key_shard
proof unfold_locales
  fix shards :: "('a, 'b, 'c) ShardClientImpl ShardImpl list" and k
  assume v: "valid_shards shards"
  then show "tiles [] (map shard_segment shards)" by (simp add: valid_shards_def)
  show "\<exists>i < length (map shard_segment shards).
      key_shard shards k = Ok i \<and> seg_owns (map shard_segment shards ! i) k"
    by (rule shard_owner_unique [OF v, of k])
      (auto simp: key_shard_def GetShardClis_single [OF v] shard_owns_def)
qed

section \<open>Shards of a valid configuration\<close>

lemma NewShardImpl_Ok:
  assumes "NewShardImpl grpc sid n conf w = (Ok s, w')"
  shows "shard_start s = (if sid = 0 then [] else conf_start conf)"
    and "shard_end s = (if sid = n - 1 then noEnd else conf_end conf)"
    and "GetShardID (GetClient s) = sid"
  using assms
  by (auto simp: NewShardImpl_def NewShardClientImpl_def io_bind_Ok_iff Let_def conf_start_def
      conf_end_def GetShardID_def GetClient_def)

end
