(* ===== verification/Response_Filters.thy ===== *)
theory Response_Filters
  imports Etcd_Api
begin

text \<open>
  \<open>pkg/server/response_filter.go\<close>: merging the answers of several shards in the legacy mode. The
  responses are pointers, so an entry may be nil; reading through it panics.

  What the merge guarantees (\<open>FilterRange_loop_unlimited\<close>, \<open>FilterDeleteRange_loop_Some\<close>) and where it does not
  do what a range or delete over one store would: the answer of the first shard with keys is
  duplicated when the shards before it had none, a limit is not respected, previous values of
  every shard but the first are dropped.
\<close>

section \<open>Definitions\<close>

record ResponseFilter =
  rf_FilterRange :: "RangeRequest \<Rightarrow> RangeResponse option list \<Rightarrow> RangeResponse option result"
  rf_FilterDeleteRange :: "DeleteRangeResponse option list \<Rightarrow> DeleteRangeResponse option result"

text \<open>One iteration of the loop of \<open>FilterRange\<close>, after its limit check.\<close>

definition FilterRange_merge ::
  "RangeResponse option \<Rightarrow> RangeResponse option \<Rightarrow> RangeResponse option result"
where
  "FilterRange_merge ret resp =
     deref resp (\<lambda>r.
       res_bind
         (if rs_Count r > 0
          then deref ret (\<lambda>t.
            let t = (if rs_Kvs t = [] then t\<lparr>rs_Kvs := rs_Kvs r\<rparr> else t);
                t = t\<lparr>rs_Count := add64 (rs_Count t) (rs_Count r)\<rparr>;
                t = t\<lparr>rs_Kvs := rs_Kvs t @ rs_Kvs r\<rparr>
            in Ok (Some t))
          else Ok ret)
         (\<lambda>ret. if rs_More r then deref ret (\<lambda>t. Ok (Some (t\<lparr>rs_More := True\<rparr>))) else Ok ret))"

fun FilterRange_loop ::
  "RangeRequest \<Rightarrow> RangeResponse option \<Rightarrow> RangeResponse option list \<Rightarrow> RangeResponse option result"
where
  "FilterRange_loop req ret [] = Ok ret"
| "FilterRange_loop req ret (resp # resps) =
     (let continue = res_bind (FilterRange_merge ret resp) (\<lambda>ret. FilterRange_loop req ret resps) in
      if rr_Limit req > 0
      then deref ret (\<lambda>t.
             if rs_Count t \<ge> rr_Limit req then Ok (Some (t\<lparr>rs_More := True\<rparr>)) else continue)
      else continue)"

definition FilterRange ::
  "RangeRequest \<Rightarrow> RangeResponse option list \<Rightarrow> RangeResponse option result"
where
  "FilterRange req resps =
     (if length resps < 2 then index resps 0
      else FilterRange_loop req (hd resps) (tl resps))"

fun FilterDeleteRange_loop ::
  "DeleteRangeResponse option \<Rightarrow> DeleteRangeResponse option list \<Rightarrow> DeleteRangeResponse option result"
where
  "FilterDeleteRange_loop ret [] = Ok ret"
| "FilterDeleteRange_loop ret (resp # resps) =
     deref resp (\<lambda>r. deref ret (\<lambda>t.
       FilterDeleteRange_loop (Some (t\<lparr>ds_Deleted := add64 (ds_Deleted t) (ds_Deleted r)\<rparr>)) resps))"

definition FilterDeleteRange ::
  "DeleteRangeResponse option list \<Rightarrow> DeleteRangeResponse option result"
where
  "FilterDeleteRange resps =
     (case resps of
        [] \<Rightarrow> Err (Errorf ''no response'')
      | ret # rest \<Rightarrow> FilterDeleteRange_loop ret rest)"

definition DefaultResponseFilter :: ResponseFilter where
  "DefaultResponseFilter =
     \<lparr>rf_FilterRange = FilterRange, rf_FilterDeleteRange = FilterDeleteRange\<rparr>"

section \<open>What the key-value proxy relies on\<close>

text \<open>
  A filter leaves the answer of a single shard alone, and the number of deleted keys is the sum
  over the shards (in 64-bit arithmetic).
\<close>

locale response_filter =
  fixes rf :: ResponseFilter
  assumes single_range: "rf_FilterRange rf req [r] = Ok r"
    and single_delete: "rf_FilterDeleteRange rf [p] = Ok p"
    and deleted_sum:
      "rf_FilterDeleteRange rf (map Some (d # ds)) = Ok (Some d') \<Longrightarrow>
         ds_Deleted d' = fold (\<lambda>x n. add64 n (ds_Deleted x)) ds (ds_Deleted d)"
    and delete_total: "\<exists>d'. rf_FilterDeleteRange rf (map Some (d # ds)) = Ok (Some d')"

lemma FilterDeleteRange_loop_Some:
  "FilterDeleteRange_loop (Some d) (map Some ds) =
     Ok (Some (d\<lparr>ds_Deleted := fold (\<lambda>x n. add64 n (ds_Deleted x)) ds (ds_Deleted d)\<rparr>))"
  by (induction ds arbitrary: d) auto

interpretation default_filter: response_filter DefaultResponseFilter
  by unfold_locales
    (auto simp: DefaultResponseFilter_def FilterRange_def FilterDeleteRange_def
      FilterDeleteRange_loop_Some)

section \<open>Merging range answers\<close>

lemma FilterRange_merge_empty:
  "rs_Count r \<le> 0 \<Longrightarrow>
     FilterRange_merge (Some t) (Some r) = Ok (Some (t\<lparr>rs_More := rs_More t \<or> rs_More r\<rparr>))"
  by (simp add: FilterRange_merge_def)

lemma FilterRange_merge_append:
  "rs_Kvs t \<noteq> [] \<Longrightarrow> 0 < rs_Count r \<Longrightarrow>
     FilterRange_merge (Some t) (Some r) =
       Ok (Some (t\<lparr>rs_Kvs := rs_Kvs t @ rs_Kvs r, rs_More := rs_More t \<or> rs_More r,
                   rs_Count := add64 (rs_Count t) (rs_Count r)\<rparr>))"
  by (simp add: FilterRange_merge_def)

lemma FilterRange_merge_double:
  "rs_Kvs t = [] \<Longrightarrow> 0 < rs_Count r \<Longrightarrow>
     FilterRange_merge (Some t) (Some r) =
       Ok (Some (t\<lparr>rs_Kvs := rs_Kvs r @ rs_Kvs r, rs_More := rs_More t \<or> rs_More r,
                   rs_Count := add64 (rs_Count t) (rs_Count r)\<rparr>))"
  by (simp add: FilterRange_merge_def)

lemmas FilterRange_merge_simps =
  FilterRange_merge_empty FilterRange_merge_append FilterRange_merge_double

text \<open>The number of keys a list of answers reports, in 64-bit arithmetic.\<close>

definition range_count :: "int \<Rightarrow> RangeResponse list \<Rightarrow> int" where
  "range_count n rs = fold (\<lambda>r n. add64 n (rs_Count r)) (filter (\<lambda>r. 0 < rs_Count r) rs) n"

definition range_kvs :: "RangeResponse list \<Rightarrow> KeyValue list" where
  "range_kvs rs = concat (map rs_Kvs (filter (\<lambda>r. 0 < rs_Count r) rs))"

lemma FilterRange_loop_unlimited:
  assumes "rr_Limit req \<le> 0" and "rs_Kvs t \<noteq> []"
  shows "FilterRange_loop req (Some t) (map Some rs) =
    Ok (Some (t\<lparr>rs_Kvs := rs_Kvs t @ range_kvs rs,
                rs_More := rs_More t \<or> (\<exists>r \<in> set rs. rs_More r),
                rs_Count := range_count (rs_Count t) rs\<rparr>))"
  using assms(2)
proof (induction rs arbitrary: t)
  case Nil
  then show ?case by (simp add: range_kvs_def range_count_def)
next
  case (Cons r rs)
  show ?case
  proof (cases "0 < rs_Count r")
    case True
    with Cons assms(1) show ?thesis
      by (simp add: FilterRange_merge_simps range_kvs_def range_count_def disj_assoc)
  next
    case False
    with Cons assms(1) show ?thesis
      by (simp add: FilterRange_merge_simps range_kvs_def range_count_def disj_assoc)
  qed
qed

lemma FilterRange_loop_limited:
  "0 < rr_Limit req \<Longrightarrow> rr_Limit req \<le> rs_Count t \<Longrightarrow>
     FilterRange_loop req (Some t) (r # rs) = Ok (Some (t\<lparr>rs_More := True\<rparr>))"
  by simp

end
