(* ===== verification/Group_Runner.thy ===== *)
theory Group_Runner
  imports Etcd_Api
begin

text \<open>
  \<open>pkg/server/group_runner.go\<close> and the goroutines that \<open>KVProxy.Range\<close> and \<open>KVProxy.DeleteRange\<close>
  start on it (\<open>pkg/server/proxy_kv.go\<close>). A \<open>GroupRunner\<close> is an \<open>errgroup.Group\<close>: \<open>Go\<close> starts a
  function in a goroutine, \<open>Wait\<close> returns when all have returned and reports the first error that
  was not nil.

  Every goroutine has two steps. The call stores the answer of its shard in \<open>rets[index]\<close> and the
  error of the call in the variable \<open>err\<close>, which the handler declares once and all goroutines
  share. The return then reads \<open>err\<close> and hands it to the group. A schedule is the order in which
  the goroutines take these steps; a complete schedule lets every goroutine return.
\<close>

datatype pc = Idle | Called | Returned

datatype sched_event = CallShard nat | ReturnShard nat

record ('r, 'w) group =
  g_pc :: "pc list"
  g_rets :: "'r option list"
  g_err :: "error option"      \<comment> \<open>the shared variable \<open>err\<close>\<close>
  g_first :: "error option"    \<comment> \<open>the first error the group has seen\<close>
  g_world :: 'w

definition GetGroupRunner :: "nat \<Rightarrow> 'w \<Rightarrow> ('r, 'w) group" where
  "GetGroupRunner n w =
     \<lparr>g_pc = replicate n Idle, g_rets = replicate n None, g_err = None, g_first = None,
      g_world = w\<rparr>"

text \<open>
  The step of one goroutine; \<^const>\<open>None\<close> where the schedule names a goroutine that does not exist
  or cannot take that step. \<open>calls\<close> are the shard calls, \<open>msg i\<close> the message goroutine \<open>i\<close> wraps
  its error with. \<open>errors.Wrapf\<close> of a nil error is nil.
\<close>

fun group_step ::
  "('w, 'r) io list \<Rightarrow> (nat \<Rightarrow> string) \<Rightarrow> sched_event \<Rightarrow> ('r, 'w) group \<Rightarrow> ('r, 'w) group option"
where
  "group_step calls msg (CallShard i) g =
     (if i < length calls \<and> i < length (g_pc g) \<and> g_pc g ! i = Idle
      then case (calls ! i) (g_world g) of
          (Ok r, w) \<Rightarrow>
            Some (g\<lparr>g_pc := (g_pc g)[i := Called], g_rets := (g_rets g)[i := Some r],
                    g_err := None, g_world := w\<rparr>)
        | (Err e, w) \<Rightarrow>
            Some (g\<lparr>g_pc := (g_pc g)[i := Called], g_rets := (g_rets g)[i := None],
                    g_err := Some e, g_world := w\<rparr>)
        | (Panic s, w) \<Rightarrow> None
      else None)"
| "group_step calls msg (ReturnShard i) g =
     (if i < length (g_pc g) \<and> g_pc g ! i = Called
      then Some (g\<lparr>g_pc := (g_pc g)[i := Returned],
                   g_first := (case g_first g of
                       Some e \<Rightarrow> Some e
                     | None \<Rightarrow> map_option (Wrap (msg i)) (g_err g))\<rparr>)
      else None)"

fun group_run ::
  "('w, 'r) io list \<Rightarrow> (nat \<Rightarrow> string) \<Rightarrow> sched_event list \<Rightarrow> ('r, 'w) group \<Rightarrow> ('r, 'w) group option"
where
  "group_run calls msg [] g = Some g"
| "group_run calls msg (ev # evs) g =
     Option.bind (group_step calls msg ev g) (group_run calls msg evs)"

text \<open>
  \<open>Wait\<close>: the group's error, or the slice of answers; \<^const>\<open>None\<close> when the schedule does not run
  every goroutine to its end.
\<close>

definition group_wait ::
  "('w, 'r) io list \<Rightarrow> (nat \<Rightarrow> string) \<Rightarrow> sched_event list \<Rightarrow> 'w \<Rightarrow> ('r option list result \<times> 'w) option"
where
  "group_wait calls msg sched w =
     (case group_run calls msg sched (GetGroupRunner (length calls) w) of
        None \<Rightarrow> None
      | Some g \<Rightarrow>
          if list_all (\<lambda>p. p = Returned) (g_pc g)
          then Some (case g_first g of None \<Rightarrow> Ok (g_rets g) | Some e \<Rightarrow> Err e, g_world g)
          else None)"

text \<open>The schedule in which every goroutine returns before the next one calls.\<close>

definition serial :: "nat \<Rightarrow> sched_event list" where
  "serial n = concat (map (\<lambda>i. [CallShard i, ReturnShard i]) [0..<n])"

section \<open>Runs in which every call succeeds\<close>

text \<open>
  If every shard call answers, no schedule produces an error, and every slot of a goroutine past
  its call holds an answer of its shard.
\<close>

definition answered :: "('w, 'r) io list \<Rightarrow> ('r, 'w) group \<Rightarrow> bool" where
  "answered calls g \<longleftrightarrow>
     length (g_pc g) = length calls \<and> length (g_rets g) = length calls \<and>
     g_err g = None \<and> g_first g = None \<and>
     (\<forall>i < length calls. g_pc g ! i \<noteq> Idle \<longrightarrow>
        (\<exists>r. g_rets g ! i = Some r \<and> answer_of (calls ! i) r))"

lemma answered_start: "answered calls (GetGroupRunner (length calls) w)"
  by (simp add: answered_def GetGroupRunner_def)

lemma answered_step:
  assumes "answered calls g" and "group_step calls msg ev g = Some g'"
    and ok: "\<forall>c \<in> set calls. answers c"
  shows "answered calls g'"
proof (cases ev)
  case (CallShard i)
  with assms(2) have i: "i < length calls" by (auto split: if_splits)
  obtain r w' where call: "(calls ! i) (g_world g) = (Ok r, w')"
    using ok nth_mem [OF i] unfolding answers_def by meson
  then have "answer_of (calls ! i) r" by (rule answer_ofI)
  with call assms(1,2) CallShard show ?thesis
    by (auto simp: answered_def nth_list_update split: if_splits)
next
  case (ReturnShard i)
  with assms(1,2) show ?thesis
    by (auto simp: answered_def nth_list_update split: if_splits)
qed

lemma answered_run:
  assumes "answered calls g" and "group_run calls msg evs g = Some g'"
    and "\<forall>c \<in> set calls. answers c"
  shows "answered calls g'"
  using assms(1,2)
proof (induction evs arbitrary: g)
  case (Cons ev evs)
  then obtain g1 where "group_step calls msg ev g = Some g1" "group_run calls msg evs g1 = Some g'"
    by (auto simp: bind_eq_Some_conv)
  with Cons answered_step [OF _ _ assms(3)] show ?case by blast
qed simp

lemma group_wait_all_answer:
  assumes "group_wait calls msg sched w = Some (res, w')"
    and "\<forall>c \<in> set calls. answers c"
  obtains rs where "res = Ok (map Some rs)" "length rs = length calls"
    "\<And>i. i < length calls \<Longrightarrow> answer_of (calls ! i) (rs ! i)"
proof -
  obtain g where g: "group_run calls msg sched (GetGroupRunner (length calls) w) = Some g"
    "list_all (\<lambda>p. p = Returned) (g_pc g)"
    "res = (case g_first g of None \<Rightarrow> Ok (g_rets g) | Some e \<Rightarrow> Err e)"
    using assms(1) by (auto simp: group_wait_def split: option.splits if_splits)
  have inv: "answered calls g" by (rule answered_run [OF answered_start g(1) assms(2)])
  define rs where "rs = map the (g_rets g)"
  have fin: "g_pc g ! i \<noteq> Idle" if "i < length calls" for i
    using g(2) inv that by (auto simp: list_all_length answered_def)
  with inv have each: "\<exists>r. g_rets g ! i = Some r \<and> answer_of (calls ! i) r"
    if "i < length calls" for i using that by (auto simp: answered_def)
  have len: "length (g_rets g) = length calls" using inv by (simp add: answered_def)
  have "g_rets g = map Some rs"
    using each len by (intro nth_equalityI) (auto simp: rs_def dest!: each)
  moreover have "g_first g = None" using inv by (simp add: answered_def)
  moreover have "answer_of (calls ! i) (rs ! i)" if "i < length calls" for i
    using each [OF that] that len by (auto simp: rs_def)
  ultimately show ?thesis using g(3) len by (intro that [of rs]) (auto simp: rs_def)
qed

section \<open>Serial runs\<close>

text \<open>
  When every goroutine returns before the next one calls, the group is complete and an empty slot
  is never reported as success.
\<close>

lemma group_run_append:
  "group_run calls msg (xs @ ys) g = Option.bind (group_run calls msg xs g) (group_run calls msg ys)"
  by (induction xs arbitrary: g) (auto split: bind_splits)

lemma serial_Suc: "serial (Suc n) = serial n @ [CallShard n, ReturnShard n]"
  by (simp add: serial_def)

definition serial_inv :: "nat \<Rightarrow> ('w, 'r) io list \<Rightarrow> ('r, 'w) group \<Rightarrow> bool" where
  "serial_inv k calls g \<longleftrightarrow>
     length (g_pc g) = length calls \<and> length (g_rets g) = length calls \<and>
     (\<forall>j < length calls. g_pc g ! j = (if j < k then Returned else Idle)) \<and>
     (\<forall>j < k. g_rets g ! j = None \<longrightarrow> g_first g \<noteq> None)"

lemma serial_inv_step:
  assumes "serial_inv k calls g" and "k < length calls"
    and "\<forall>c \<in> set calls. no_panic c"
  shows "\<exists>g'. group_run calls msg [CallShard k, ReturnShard k] g = Some g' \<and>
    serial_inv (Suc k) calls g'"
proof -
  obtain res w' where call: "(calls ! k) (g_world g) = (res, w')" by fastforce
  with assms(3) nth_mem [OF assms(2)] have "\<And>s. res \<noteq> Panic s"
    by (fastforce simp: no_panic_def)
  with call assms(1,2) show ?thesis
    by (cases res) (auto simp: serial_inv_def nth_list_update less_Suc_eq split: option.splits)
qed

lemma serial_run:
  assumes "\<forall>c \<in> set calls. no_panic c" and "k \<le> length calls"
  shows "\<exists>g. group_run calls msg (serial k) (GetGroupRunner (length calls) w) = Some g \<and>
    serial_inv k calls g"
  using assms(2)
proof (induction k)
  case 0
  then show ?case by (simp add: serial_def serial_inv_def GetGroupRunner_def)
next
  case (Suc k)
  then obtain g where "group_run calls msg (serial k) (GetGroupRunner (length calls) w) = Some g"
    "serial_inv k calls g" by auto
  with serial_inv_step [OF _ _ assms(1), of k g msg] Suc.prems show ?case
    by (simp add: serial_Suc group_run_append)
qed

lemma group_wait_serial:
  assumes "\<forall>c \<in> set calls. no_panic c"
  obtains res w' where "group_wait calls msg (serial (length calls)) w = Some (res, w')"
    "\<And>rs. res = Ok rs \<Longrightarrow> length rs = length calls \<and> None \<notin> set rs"
proof -
  obtain g where g: "group_run calls msg (serial (length calls))
      (GetGroupRunner (length calls) w) = Some g" "serial_inv (length calls) calls g"
    using serial_run [OF assms, of "length calls"] by blast
  then have "list_all (\<lambda>p. p = Returned) (g_pc g)"
    by (simp add: serial_inv_def list_all_length)
  with g show ?thesis
    by (intro that [of "case g_first g of None \<Rightarrow> Ok (g_rets g) | Some e \<Rightarrow> Err e" "g_world g"])
      (auto simp: group_wait_def serial_inv_def in_set_conv_nth split: option.splits)
qed

end
