(* ===== verification/KV_Proxy.thy ===== *)
theory KV_Proxy
  imports Sharding Response_Filters Group_Runner
begin

text \<open>
  \<open>pkg/server/proxy_kv.go\<close>: the key-value service of the legacy sharded mode. A request that
  reaches several shards is answered by one goroutine per shard, so \<open>Range\<close> and \<open>DeleteRange\<close> take
  the schedule of the goroutines and return \<^const>\<open>None\<close> when the schedule is not a complete run of
  them.

  The lemmas show where each request goes (single keys to their owner, transactions to the owner
  of their first operation's key, ranges to all owners of their keys), that a complete run whose
  shard calls all answer never fails in the group, and that the shared error variable of the
  goroutines can lose the error of a shard.
\<close>

section \<open>Definitions\<close>

record ('c, 'm, 'w) KVProxy =
  kvp_configs :: "('c, 'm, 'w) ShardClientImpl ShardingConfigs"
  kvp_respFilter :: ResponseFilter

definition NewKVProxy ::
  "('c, 'm, 'w) ShardClientImpl ShardingConfigs \<Rightarrow> ResponseFilter \<Rightarrow> ('c, 'm, 'w) KVProxy"
where
  "NewKVProxy cfgs respFilter = \<lparr>kvp_configs = cfgs, kvp_respFilter = respFilter\<rparr>"

definition range_msg :: "('c, 'm, 'w) ShardClientImpl \<Rightarrow> string" where
  "range_msg cli = ''failed to do range in shard['' @ itoi (GetShardID cli) @ '']''"

definition KVProxy_Range ::
  "('c, 'm, 'w) KVProxy \<Rightarrow> sched_event list \<Rightarrow> 'c \<Rightarrow> RangeRequest \<Rightarrow> 'w \<Rightarrow>
   (RangeResponse option result \<times> 'w) option"
where
  "KVProxy_Range s sched ctx req w =
     (let shardClis = cfg_GetShardClis (kvp_configs s) (rr_Key req) (rr_RangeEnd req);
          call = (\<lambda>cli. rpc_call (KV_Range (sc_KV cli)) ctx req);
          rets =
            (if length shardClis > 1
             then group_wait (map call shardClis) (\<lambda>i. range_msg (shardClis ! i)) sched w
             else Some
               (io_bind (io_lift (index shardClis 0)) (\<lambda>cli.
                  io_bind (io_wrap (range_msg cli) (call cli)) (\<lambda>r. io_return [Some r])) w))
      in map_option
           (\<lambda>(rets, w'). (res_bind rets (\<lambda>rets.
               res_wrap ''failed to filter range response''
                 (rf_FilterRange (kvp_respFilter s) req rets)), w'))
           rets)"

definition KVProxy_Put ::
  "('c, 'm, 'w) KVProxy \<Rightarrow> 'c \<Rightarrow> PutRequest \<Rightarrow> ('w, PutResponse) io"
where
  "KVProxy_Put s ctx req =
     io_bind (io_lift (index (cfg_GetShardClis (kvp_configs s) (pr_Key req) []) 0)) (\<lambda>shardCli.
       rpc_call (KV_Put (sc_KV shardCli)) ctx req)"

definition delete_msg :: "('c, 'm, 'w) ShardClientImpl \<Rightarrow> string" where
  "delete_msg cli = ''failed to do delete range in shard['' @ itoi (GetShardID cli) @ '']''"

definition KVProxy_DeleteRange ::
  "('c, 'm, 'w) KVProxy \<Rightarrow> sched_event list \<Rightarrow> 'c \<Rightarrow> DeleteRangeRequest \<Rightarrow> 'w \<Rightarrow>
   (DeleteRangeResponse option result \<times> 'w) option"
where
  "KVProxy_DeleteRange s sched ctx req w =
     (let shardClis = cfg_GetShardClis (kvp_configs s) (dr_Key req) (dr_RangeEnd req);
          call = (\<lambda>cli. rpc_call (KV_DeleteRange (sc_KV cli)) ctx req);
          rets =
            (if length shardClis > 1
             then group_wait (map call shardClis) (\<lambda>i. delete_msg (shardClis ! i)) sched w
             else Some
               (io_bind (io_lift (index shardClis 0)) (\<lambda>cli.
                  io_bind (io_wrap (delete_msg cli) (call cli)) (\<lambda>r. io_return [Some r])) w))
      in map_option
           (\<lambda>(rets, w'). (res_bind rets (\<lambda>rets.
               res_wrap ''failed to filter delete range response''
                 (rf_FilterDeleteRange (kvp_respFilter s) rets)), w'))
           rets)"

text \<open>
  \<open>getShardID\<close> and its local function \<open>getShardIDByOp\<close>: the first operation decides. The getters of
  a nil or unset operation return nil, and so does the getter of an operation with a nil body.
\<close>

fun getShardID ::
  "('c, 'm, 'w) ShardClientImpl ShardingConfigs \<Rightarrow> TxnRequest option \<Rightarrow> int result"
and getShardIDByOp ::
  "('c, 'm, 'w) ShardClientImpl ShardingConfigs \<Rightarrow> RequestOp option \<Rightarrow> int result"
where
  "getShardID cfgs None = Panic ''nil pointer dereference''"
| "getShardID cfgs (Some (TxnRequest cmps (op # ops) failure)) = getShardIDByOp cfgs op"
| "getShardID cfgs (Some (TxnRequest cmps [] (op # ops))) = getShardIDByOp cfgs op"
| "getShardID cfgs (Some (TxnRequest cmps [] [])) = Ok 0"
| "getShardIDByOp cfgs (Some (RequestRange (Some rangeOp))) =
     res_bind (index (cfg_GetShardClis cfgs (rr_Key rangeOp) []) 0) (\<lambda>cli. Ok (GetShardID cli))"
| "getShardIDByOp cfgs (Some (RequestPut (Some putOp))) =
     res_bind (index (cfg_GetShardClis cfgs (pr_Key putOp) []) 0) (\<lambda>cli. Ok (GetShardID cli))"
| "getShardIDByOp cfgs (Some (RequestDeleteRange (Some deleteOp))) =
     res_bind (index (cfg_GetShardClis cfgs (dr_Key deleteOp) []) 0) (\<lambda>cli. Ok (GetShardID cli))"
| "getShardIDByOp cfgs (Some (RequestTxn txn)) = getShardID cfgs txn"
| "getShardIDByOp cfgs _ = getShardID cfgs None"

definition KVProxy_Txn ::
  "('c, 'm, 'w) KVProxy \<Rightarrow> 'c \<Rightarrow> TxnRequest \<Rightarrow> ('w, TxnResponse) io"
where
  "KVProxy_Txn s ctx req =
     io_bind (io_lift (getShardID (kvp_configs s) (Some req))) (\<lambda>sid.
       io_bind (io_lift (cfg_GetShardCli (kvp_configs s) sid)) (\<lambda>cli.
         rpc_call (KV_Txn (sc_KV cli)) ctx req))"

definition ErrNotSupported :: error where
  "ErrNotSupported = Errorf ''not supported''"

definition KVProxy_Compact ::
  "('c, 'm, 'w) KVProxy \<Rightarrow> 'c \<Rightarrow> CompactionRequest \<Rightarrow> ('w, CompactionResponse) io"
where
  "KVProxy_Compact s ctx req = io_err ErrNotSupported"

section \<open>Where a transaction goes\<close>

text \<open>
  The key that decides: that of the first operation of the success branch, or of the failure
  branch when there is no other, looking into nested transactions. \<open>Some None\<close> is a transaction
  without operations, \<^const>\<open>None\<close> one whose first operation has no body.
\<close>

fun leading_key :: "TxnRequest \<Rightarrow> bytes option option"
and leading_key_op :: "RequestOp option \<Rightarrow> bytes option option"
where
  "leading_key (TxnRequest cmps (op # ops) failure) = leading_key_op op"
| "leading_key (TxnRequest cmps [] (op # ops)) = leading_key_op op"
| "leading_key (TxnRequest cmps [] []) = Some None"
| "leading_key_op (Some (RequestRange (Some r))) = Some (Some (rr_Key r))"
| "leading_key_op (Some (RequestPut (Some p))) = Some (Some (pr_Key p))"
| "leading_key_op (Some (RequestDeleteRange (Some d))) = Some (Some (dr_Key d))"
| "leading_key_op (Some (RequestTxn (Some t))) = leading_key t"
| "leading_key_op _ = None"

section \<open>Routing, over the contracts of the routing table and the filter\<close>

context sharding_contract
begin

lemma put_goes_to_owner:
  assumes "invar d" and "kvp_configs s = configs d"
  shows "KVProxy_Put s ctx req = rpc_call (KV_Put (sc_KV (owner d (pr_Key req)))) ctx req"
  using assms by (simp add: KVProxy_Put_def single_key)

lemma op_goes_to_owner:
  assumes "invar d"
  shows "getShardID (configs d) t =
      (case t of None \<Rightarrow> Panic ''nil pointer dereference''
       | Some t \<Rightarrow> case leading_key t of
           None \<Rightarrow> Panic ''nil pointer dereference''
         | Some None \<Rightarrow> Ok 0
         | Some (Some k) \<Rightarrow> Ok (GetShardID (owner d k)))"
    and "getShardIDByOp (configs d) op =
      (case leading_key_op op of
           None \<Rightarrow> Panic ''nil pointer dereference''
         | Some None \<Rightarrow> Ok 0
         | Some (Some k) \<Rightarrow> Ok (GetShardID (owner d k)))"
  using assms
  by (induction "configs d" t and "configs d" op rule: getShardID_getShardIDByOp.induct)
    (auto simp: single_key split: option.splits)

lemma txn_goes_to_owner:
  assumes "invar d" and "kvp_configs s = configs d" and "leading_key req = Some (Some k)"
  shows "KVProxy_Txn s ctx req = rpc_call (KV_Txn (sc_KV (owner d k))) ctx req"
  using assms op_goes_to_owner(1) [OF assms(1), of "Some req"] by_id [OF assms(1)]
  by (simp add: KVProxy_Txn_def)

lemma empty_txn_goes_to_first:
  assumes "invar d" and "kvp_configs s = configs d" and "leading_key req = Some None"
  shows "KVProxy_Txn s ctx req =
    rpc_call (KV_Txn (sc_KV (hd (cfg_GetAllShardClis (configs d))))) ctx req"
  using assms op_goes_to_owner(1) [OF assms(1), of "Some req"] first_by_id [OF assms(1)]
  by (simp add: KVProxy_Txn_def)

end

context response_filter
begin

lemma range_single_shard:
  assumes "kvp_respFilter s = rf"
    and "cfg_GetShardClis (kvp_configs s) (rr_Key req) (rr_RangeEnd req) = [cli]"
  shows "KVProxy_Range s sched ctx req w =
    Some (io_bind (io_wrap (range_msg cli) (rpc_call (KV_Range (sc_KV cli)) ctx req))
            (\<lambda>r. io_return (Some r)) w)"
  using assms
  by (auto simp: KVProxy_Range_def Let_def single_range io_bind_def io_return_def
      split: prod.splits result.splits)

lemma delete_single_shard:
  assumes "kvp_respFilter s = rf"
    and "cfg_GetShardClis (kvp_configs s) (dr_Key req) (dr_RangeEnd req) = [cli]"
  shows "KVProxy_DeleteRange s sched ctx req w =
    Some (io_bind (io_wrap (delete_msg cli) (rpc_call (KV_DeleteRange (sc_KV cli)) ctx req))
            (\<lambda>r. io_return (Some r)) w)"
  using assms
  by (auto simp: KVProxy_DeleteRange_def Let_def single_delete io_bind_def io_return_def
      split: prod.splits result.splits)

text \<open>
  When several shards are reached and each of them answers, every complete run of the goroutines
  ends without an error, and the number of deleted keys is the sum of the shards' answers.
\<close>

lemma delete_sum_all_shards:
  assumes "kvp_respFilter s = rf"
    and "clis = cfg_GetShardClis (kvp_configs s) (dr_Key req) (dr_RangeEnd req)" "1 < length clis"
    and "\<forall>cli \<in> set clis. answers (rpc_call (KV_DeleteRange (sc_KV cli)) ctx req)"
    and "KVProxy_DeleteRange s sched ctx req w = Some (res, w')"
  obtains d ds d' where "res = Ok (Some d')" "length (d # ds) = length clis"
    "ds_Deleted d' = fold (\<lambda>x n. add64 n (ds_Deleted x)) ds (ds_Deleted d)"
    "\<And>i. i < length clis \<Longrightarrow>
       answer_of (rpc_call (KV_DeleteRange (sc_KV (clis ! i))) ctx req) ((d # ds) ! i)"
proof -
  let ?calls = "map (\<lambda>cli. rpc_call (KV_DeleteRange (sc_KV cli)) ctx req) clis"
  obtain rets where rets: "group_wait ?calls (\<lambda>i. delete_msg (clis ! i)) sched w = Some (rets, w')"
    "res = res_bind rets (\<lambda>rets. res_wrap ''failed to filter delete range response''
                 (rf_FilterDeleteRange rf rets))"
    using assms(1,2,3,5) by (auto simp: KVProxy_DeleteRange_def Let_def)
  obtain rs where rs: "rets = Ok (map Some rs)" "length rs = length clis"
    "\<And>i. i < length clis \<Longrightarrow> answer_of (?calls ! i) (rs ! i)"
    using group_wait_all_answer [OF rets(1)] assms(4) by auto
  then obtain d ds where d: "rs = d # ds" using assms(3) by (cases rs) auto
  obtain d' where "rf_FilterDeleteRange rf (map Some (d # ds)) = Ok (Some d')"
    using delete_total by blast
  with rets rs d deleted_sum show ?thesis by (intro that [of d' d ds]) auto
qed

end

section \<open>The shared error variable\<close>

text \<open>The interleaving of two goroutines in which both shards are called before either returns.\<close>

definition racing :: "sched_event list" where
  "racing = [CallShard 0, CallShard 1, ReturnShard 0, ReturnShard 1]"

lemma group_wait_racing:
  assumes "a w = (Err e, w1)" and "b w1 = (Ok r, w2)"
  shows "group_wait [a, b] msg racing w = Some (Ok [None, Some r], w2)"
  using assms by (simp add: group_wait_def GetGroupRunner_def racing_def numeral_2_eq_2)

end
