(* ===== verification/Id_Generator.thy ===== *)
theory Id_Generator
  imports Prelude "HOL-Library.Word"
begin

text \<open>
  \<open>pkg/server/id_generator.go\<close>: the generator of lease identifiers. All arithmetic is on 64-bit
  words, as in the source. \<open>Next\<close> returns the identifier and the generator after the atomic
  increment of its suffix. The time \<open>now\<close> is given in nanoseconds since the epoch.

  \<open>draw\<close> lists the lease identifiers of successive calls of \<open>NextInt64\<close>. The lemmas show that they repeat only
  after \<open>2 ^ 48\<close> draws and are never negative.
\<close>

unbundle bit_operations_syntax

section \<open>Definitions\<close>

definition tsLen :: nat where "tsLen = 5 * 8"
definition cntLen :: nat where "cntLen = 8"
definition suffixLen :: nat where "suffixLen = tsLen + cntLen"

record Generator =
  gen_prefix :: "64 word"
  gen_suffix :: "64 word"

definition lowbit :: "64 word \<Rightarrow> nat \<Rightarrow> 64 word" where
  "lowbit x n = x AND drop_bit (64 - n) (- 1)"

definition NewGenerator :: "16 word \<Rightarrow> int \<Rightarrow> Generator" where
  "NewGenerator memberID now =
     (let prefix = push_bit suffixLen (ucast memberID :: 64 word);
          unixMilli = (word_of_int now :: 64 word) div 1000000;
          suffix = push_bit cntLen (lowbit unixMilli tsLen)
      in \<lparr>gen_prefix = prefix, gen_suffix = suffix\<rparr>)"

definition Next :: "Generator \<Rightarrow> 64 word \<times> Generator" where
  "Next g =
     (let suffix = gen_suffix g + 1;
          ident = gen_prefix g OR lowbit suffix suffixLen
      in (ident, g\<lparr>gen_suffix := suffix\<rparr>))"

definition NextInt64 :: "Generator \<Rightarrow> int \<times> Generator" where
  "NextInt64 g = (case Next g of (ident, g') \<Rightarrow> (sint (ident AND (push_bit 63 1 - 1)), g'))"

fun draw :: "nat \<Rightarrow> Generator \<Rightarrow> int list" where
  "draw 0 g = []"
| "draw (Suc n) g = (case NextInt64 g of (ident, g') \<Rightarrow> ident # draw n g')"

section \<open>Lemmas\<close>

lemma suffixLen_eq [simp]: "suffixLen = 48"
  by (simp add: suffixLen_def tsLen_def cntLen_def)

lemma lowbit_take_bit: "n \<le> 64 \<Longrightarrow> lowbit x n = take_bit n x"
  unfolding lowbit_def
  by (rule bit_word_eqI) (auto simp: bit_and_iff bit_drop_bit_eq bit_take_bit_iff bit_minus_1_iff
      bit_mask_iff)

lemma lowbit_48 [simp]: "lowbit x 48 = take_bit 48 x"
  by (simp add: lowbit_take_bit)

text \<open>The prefix of a generator leaves the low 48 bits to the suffix.\<close>

definition gen_inv :: "Generator \<Rightarrow> bool" where
  "gen_inv g \<longleftrightarrow> take_bit suffixLen (gen_prefix g) = 0"

lemma NewGenerator_inv: "gen_inv (NewGenerator m now)"
  by (simp add: gen_inv_def NewGenerator_def Let_def take_bit_push_bit)

lemma Next_inv: "gen_inv g \<Longrightarrow> gen_inv (snd (Next g))"
  by (simp add: gen_inv_def Next_def Let_def)

text \<open>The mask of the low 63 bits keeps the suffix.\<close>

lemma NextInt64_eq: "NextInt64 g = (uint (take_bit 63 (fst (Next g))), snd (Next g))"
proof -
  have m: "push_bit 63 1 - 1 = (mask 63 :: 64 word)" by (simp add: mask_eq_exp_minus_1 push_bit_eq_mult)
  show ?thesis
    by (simp add: NextInt64_def m split_beta take_bit_eq_mask [symmetric] sint_uint unsigned_take_bit_eq
        signed_take_bit_take_bit del: push_bit_of_1)
qed

lemma draw_nth:
  "k < n \<Longrightarrow> draw n g ! k = uint (take_bit 63 (gen_prefix g OR take_bit 48 (gen_suffix g + of_nat (Suc k))))"
proof (induction n arbitrary: g k)
  case (Suc n)
  show ?case
  proof (cases k)
    case 0
    then show ?thesis by (simp add: NextInt64_eq Next_def Let_def)
  next
    case (Suc j)
    with Suc.IH [of j "snd (Next g)"] Suc.prems show ?thesis
      by (simp add: NextInt64_eq Next_def Let_def add.assoc)
  qed
qed simp

lemma length_draw [simp]: "length (draw n g) = n"
  by (induction n arbitrary: g) (auto simp: NextInt64_eq)

lemma draw_suffix:
  assumes "gen_inv g" and "k < n"
  shows "take_bit 48 (draw n g ! k) = uint (take_bit 48 (gen_suffix g + of_nat (Suc k)))"
  using assms by (simp add: draw_nth gen_inv_def unsigned_take_bit_eq [symmetric] take_bit_or del: of_nat_Suc)

lemma take_bit_48_add_cancel:
  fixes s :: "64 word"
  assumes "take_bit 48 (s + of_nat a) = take_bit 48 (s + of_nat b)" and "a < b + 2 ^ 48" "b < a + 2 ^ 48"
  shows "a = b"
proof -
  have u: "uint (take_bit 48 (s + of_nat k)) = (uint s + int k) mod 2 ^ 48" for k
  proof -
    have "uint (s + of_nat k) = take_bit 64 (uint s + int k)"
      by (simp add: uint_word_ariths unsigned_of_nat take_bit_eq_mod mod_simps zmod_int)
    then have "uint (take_bit 48 (s + of_nat k)) = take_bit 48 (take_bit 64 (uint s + int k))"
      by (simp only: unsigned_take_bit_eq)
    also have "\<dots> = (uint s + int k) mod 2 ^ 48"
      by (simp add: take_bit_take_bit) (simp add: take_bit_eq_mod)
    finally show ?thesis .
  qed
  have "(uint s + int a) mod 2 ^ 48 = (uint s + int b) mod 2 ^ 48"
    using arg_cong [OF assms(1), of uint] unfolding u .
  then have "2 ^ 48 dvd int a - int b"
    by (simp add: mod_eq_dvd_iff)
  moreover have "\<bar>int a - int b\<bar> < 2 ^ 48" using assms(2,3) by simp
  ultimately show ?thesis
    using dvd_imp_le_int [of "int a - int b" "2 ^ 48"] by linarith
qed

lemma draw_distinct:
  assumes "gen_inv g" and "n \<le> 2 ^ 48"
  shows "distinct (draw n g)"
  unfolding distinct_conv_nth length_draw
proof (intro allI impI)
  fix i j assume i: "i < n" and j: "j < n" and "i \<noteq> j"
  show "draw n g ! i \<noteq> draw n g ! j"
  proof
    assume "draw n g ! i = draw n g ! j"
    with draw_suffix [OF assms(1) i] draw_suffix [OF assms(1) j]
    have "take_bit 48 (gen_suffix g + of_nat (Suc i)) = take_bit 48 (gen_suffix g + of_nat (Suc j))"
      by (simp only: word_uint_eq_iff)
    then have "Suc i = Suc j"
      by (rule take_bit_48_add_cancel) (use i j assms(2) in simp_all)
    with \<open>i \<noteq> j\<close> show False by simp
  qed
qed

lemma uint_take_bit_63: "uint (take_bit 63 (x :: 64 word)) < 2 ^ 63"
  unfolding unsigned_take_bit_eq by (simp add: take_bit_eq_mod)

lemma draw_range: "ident \<in> set (draw n g) \<Longrightarrow> 0 \<le> ident \<and> ident < 2 ^ 63"
proof (induction n arbitrary: g)
  case (Suc n)
  from Suc.prems consider "ident = uint (take_bit 63 (fst (Next g)))" | "ident \<in> set (draw n (snd (Next g)))"
    by (auto simp: NextInt64_eq)
  then show ?case by cases (use uint_take_bit_63 Suc.IH in auto)
qed simp

end
