(* ===== verification/Lease_Proxy.thy ===== *)
theory Lease_Proxy
  imports Sharding Id_Generator Group_Runner
begin

text \<open>
  \<open>pkg/server/proxy_lease.go\<close>: the lease service of the legacy sharded mode. A lease is granted on
  every shard under one identifier; the calls run one after the other and stop at the first
  error. The process-wide identifier generator is threaded beside the world.

  \<open>SingleLeaseKeepAliveProxy.Run\<close> is driven by the sequence of events its \<open>select\<close> observes: a
  request or an error of the client stream, or the end of the context. It returns \<^const>\<open>None\<close>
  while it waits for a further event. The lemmas show which shards hold a lease after a grant, and
  that the remaining time to live reported to the client is the least of all shards.
\<close>

section \<open>Unary calls\<close>

record ('c, 'm, 'w) LeaseProxy =
  lp_configs :: "('c, 'm, 'w) ShardClientImpl ShardingConfigs"

definition NewLeaseProxy :: "('c, 'm, 'w) ShardClientImpl ShardingConfigs \<Rightarrow> ('c, 'm, 'w) LeaseProxy" where
  "NewLeaseProxy configs = \<lparr>lp_configs = configs\<rparr>"

text \<open>The loop that calls every shard and keeps the first response.\<close>

fun broadcast :: "('cli \<Rightarrow> ('w, 'r) io) \<Rightarrow> 'cli list \<Rightarrow> 'r option \<Rightarrow> ('w, 'r option) io" where
  "broadcast call [] ret = io_return ret"
| "broadcast call (shardCli # clis) ret =
     io_bind (call shardCli) (\<lambda>resp.
       broadcast call clis (if ret = None then Some resp else ret))"

definition LeaseGrant ::
  "('c, 'm, 'w) LeaseProxy \<Rightarrow> 'c \<Rightarrow> LeaseGrantRequest \<Rightarrow>
   ('w \<times> Generator, LeaseGrantResponse option) io"
where
  "LeaseGrant p ctx req = (\<lambda>(w, g).
     let (req, g) =
           (if lgr_ID req = 0
            then case NextInt64 g of (ident, g') \<Rightarrow> (req\<lparr>lgr_ID := ident\<rparr>, g')
            else (req, g));
         (r, w') = broadcast (\<lambda>cli. rpc_call (Lease_Grant (sc_Lease cli)) ctx req)
                     (cfg_GetAllShardClis (lp_configs p)) None w
     in (r, (w', g)))"

definition LeaseRevoke ::
  "('c, 'm, 'w) LeaseProxy \<Rightarrow> 'c \<Rightarrow> LeaseRevokeRequest \<Rightarrow> ('w, LeaseRevokeResponse option) io"
where
  "LeaseRevoke p ctx req =
     broadcast (\<lambda>cli. rpc_call (Lease_Revoke (sc_Lease cli)) ctx req)
       (cfg_GetAllShardClis (lp_configs p)) None"

definition merge_ttl ::
  "LeaseTimeToLiveResponse option \<Rightarrow> LeaseTimeToLiveResponse \<Rightarrow> LeaseTimeToLiveResponse"
where
  "merge_ttl ret resp =
     (let ret = (case ret of
            None \<Rightarrow> \<lparr>lts_Header = lts_Header resp, lts_ID = lts_ID resp, lts_TTL = lts_TTL resp,
                     lts_GrantedTTL = lts_GrantedTTL resp, lts_Keys = []\<rparr>
          | Some ret \<Rightarrow> ret);
          ret = (if lts_TTL resp < lts_TTL ret then ret\<lparr>lts_TTL := lts_TTL resp\<rparr> else ret)
      in ret\<lparr>lts_Keys := lts_Keys ret @ lts_Keys resp\<rparr>)"

fun LeaseTimeToLive_loop ::
  "('cli \<Rightarrow> ('w, LeaseTimeToLiveResponse) io) \<Rightarrow> 'cli list \<Rightarrow> LeaseTimeToLiveResponse option \<Rightarrow>
   ('w, LeaseTimeToLiveResponse option) io"
where
  "LeaseTimeToLive_loop call [] ret = io_return ret"
| "LeaseTimeToLive_loop call (shardCli # clis) ret =
     io_bind (call shardCli) (\<lambda>resp. LeaseTimeToLive_loop call clis (Some (merge_ttl ret resp)))"

definition LeaseTimeToLive ::
  "('c, 'm, 'w) LeaseProxy \<Rightarrow> 'c \<Rightarrow> LeaseTimeToLiveRequest \<Rightarrow>
   ('w, LeaseTimeToLiveResponse option) io"
where
  "LeaseTimeToLive p ctx req =
     LeaseTimeToLive_loop (\<lambda>cli. rpc_call (Lease_TimeToLive (sc_Lease cli)) ctx req)
       (cfg_GetAllShardClis (lp_configs p)) None"

definition LeaseLeases ::
  "('c, 'm, 'w) LeaseProxy \<Rightarrow> 'c \<Rightarrow> LeaseLeasesRequest \<Rightarrow> ('w, LeaseLeasesResponse) io"
where
  "LeaseLeases p ctx req =
     (case cfg_GetAllShardClis (lp_configs p) of
        shardCli # _ \<Rightarrow> rpc_call (Lease_Leases (sc_Lease shardCli)) ctx req
      | [] \<Rightarrow> io_err (Status Unavailable ''no lease shards configured''))"

section \<open>Keep-alive streams\<close>

type_synonym ('m, 'w) keepalive_stream =
  "('w, 'm, LeaseKeepAliveRequest, LeaseKeepAliveResponse) ClientStream"

datatype keepalive_event =
  Received LeaseKeepAliveRequest | ReceivedErr error | CtxDone error

definition closed_error :: error where
  "closed_error = Status Unavailable ''lease shard closed keepalive stream''"

text \<open>
  Sending one request to one shard. \<open>Send\<close> reports EOF when the server has ended the stream; the
  terminal status then comes from \<open>Recv\<close>.
\<close>

definition keepalive_send ::
  "('m, 'w) keepalive_stream \<Rightarrow> LeaseKeepAliveRequest \<Rightarrow> ('w, unit) io"
where
  "keepalive_send stream req = (\<lambda>w.
     case cs_SendMsg stream req w of
       (Err EOF, w1) \<Rightarrow>
         (case cs_RecvMsg stream w1 of
            (Ok _, w2) \<Rightarrow> (Err closed_error, w2)
          | (Err EOF, w2) \<Rightarrow> (Err closed_error, w2)
          | (Err e, w2) \<Rightarrow> (Err e, w2)
          | (Panic s, w2) \<Rightarrow> (Panic s, w2))
     | r \<Rightarrow> r)"

text \<open>
  Sending to every shard, opening its stream first if need be. \<open>opens\<close> are the shards'
  \<open>LeaseKeepAlive(ctx)\<close> calls, \<open>streams\<close> the streams opened so far.
\<close>

fun keepalive_send_all ::
  "('w, ('m, 'w) keepalive_stream) io list \<Rightarrow> ('m, 'w) keepalive_stream option list \<Rightarrow>
   LeaseKeepAliveRequest \<Rightarrow> ('w, ('m, 'w) keepalive_stream list) io"
where
  "keepalive_send_all (open # opens) (st # streams) req =
     io_bind (case st of None \<Rightarrow> open | Some s \<Rightarrow> io_return s) (\<lambda>s.
       io_bind (keepalive_send s req) (\<lambda>_.
         io_bind (keepalive_send_all opens streams req) (\<lambda>ss. io_return (s # ss))))"
| "keepalive_send_all _ _ req = io_return []"

definition keepalive_recv ::
  "('m, 'w) keepalive_stream \<Rightarrow> LeaseKeepAliveRequest \<Rightarrow> ('w, LeaseKeepAliveResponse) io"
where
  "keepalive_recv backend req = (\<lambda>w.
     case cs_RecvMsg backend w of
       (Err EOF, w1) \<Rightarrow> (Err closed_error, w1)
     | (Ok resp, w1) \<Rightarrow>
         if lks_ID resp \<noteq> lkr_ID req
         then (Err (Status Internal ''unexpected lease keepalive response ID''), w1)
         else (Ok resp, w1)
     | r \<Rightarrow> r)"

fun keepalive_recv_all ::
  "('m, 'w) keepalive_stream list \<Rightarrow> LeaseKeepAliveRequest \<Rightarrow> LeaseKeepAliveResponse option \<Rightarrow>
   ('w, LeaseKeepAliveResponse option) io"
where
  "keepalive_recv_all [] req response = io_return response"
| "keepalive_recv_all (backend # backends) req response =
     io_bind (keepalive_recv backend req) (\<lambda>resp.
       keepalive_recv_all backends req
         (case response of
            None \<Rightarrow> Some resp
          | Some r \<Rightarrow> if lks_TTL resp < lks_TTL r then Some resp else Some r))"

text \<open>One turn of the loop of \<open>Run\<close>: \<open>send\<close> is \<open>p.stream.Send\<close>.\<close>

definition keepalive_turn ::
  "('w, ('m, 'w) keepalive_stream) io list \<Rightarrow> (LeaseKeepAliveResponse option \<Rightarrow> ('w, unit) io) \<Rightarrow>
   ('m, 'w) keepalive_stream option list \<Rightarrow> LeaseKeepAliveRequest \<Rightarrow>
   ('w, ('m, 'w) keepalive_stream list) io"
where
  "keepalive_turn opens send streams req =
     io_bind (keepalive_send_all opens streams req) (\<lambda>ss.
       io_bind (keepalive_recv_all ss req None) (\<lambda>response.
         io_bind (send response) (\<lambda>_. io_return ss)))"

fun keepalive_loop ::
  "('w, ('m, 'w) keepalive_stream) io list \<Rightarrow> (LeaseKeepAliveResponse option \<Rightarrow> ('w, unit) io) \<Rightarrow>
   ('m, 'w) keepalive_stream option list \<Rightarrow> keepalive_event list \<Rightarrow> 'w \<Rightarrow> (unit result \<times> 'w) option"
where
  "keepalive_loop opens send streams [] w = None"
| "keepalive_loop opens send streams (CtxDone e # evs) w = Some (Err e, w)"
| "keepalive_loop opens send streams (ReceivedErr e # evs) w =
     Some (if e = EOF then Ok () else Err e, w)"
| "keepalive_loop opens send streams (Received req # evs) w =
     (case keepalive_turn opens send streams req w of
        (Ok ss, w') \<Rightarrow> keepalive_loop opens send (map Some ss) evs w'
      | (Err e, w') \<Rightarrow> Some (Err e, w')
      | (Panic s, w') \<Rightarrow> Some (Panic s, w'))"

definition Run ::
  "('c, 'm, 'w) LeaseProxy \<Rightarrow> 'c \<Rightarrow> (LeaseKeepAliveResponse option \<Rightarrow> ('w, unit) io) \<Rightarrow>
   keepalive_event list \<Rightarrow> 'w \<Rightarrow> (unit result \<times> 'w) option"
where
  "Run p ctx send evs w =
     (let shards = cfg_GetAllShardClis (lp_configs p) in
      if length shards = 0
      then Some (Err (Status Unavailable ''no lease shards configured''), w)
      else keepalive_loop (map (\<lambda>shard. Lease_KeepAlive (sc_Lease shard) ctx) shards) send
             (replicate (length shards) None) evs w)"

text \<open>The handler creates the stream proxy with its configuration and runs it.\<close>

definition LeaseProxy_LeaseKeepAlive ::
  "('c, 'm, 'w) LeaseProxy \<Rightarrow> 'c \<Rightarrow> (LeaseKeepAliveResponse option \<Rightarrow> ('w, unit) io) \<Rightarrow>
   keepalive_event list \<Rightarrow> 'w \<Rightarrow> (unit result \<times> 'w) option"
where
  "LeaseProxy_LeaseKeepAlive p ctx send evs w = Run (NewLeaseProxy (lp_configs p)) ctx send evs w"

section \<open>Grant and revoke reach every shard\<close>

text \<open>
  \<open>holds w cli\<close> is a fact about one shard, such as holding a lease: a successful call establishes
  it at its shard, and no call to any shard removes it.
\<close>

definition establishes ::
  "('w \<Rightarrow> 'cli \<Rightarrow> bool) \<Rightarrow> ('cli \<Rightarrow> ('w, 'r) io) \<Rightarrow> 'cli list \<Rightarrow> bool"
where
  "establishes holds call clis \<longleftrightarrow>
     (\<forall>cli \<in> set clis. \<forall>w r w'. call cli w = (Ok r, w') \<longrightarrow> holds w' cli) \<and>
     (\<forall>cli \<in> set clis. \<forall>other w. holds w other \<longrightarrow> holds (snd (call cli w)) other)"

lemma establishesD:
  assumes "establishes holds call clis" and "cli \<in> set clis"
  shows "call cli w = (Ok r, w') \<Longrightarrow> holds w' cli"
    and "call cli w = (x, w') \<Longrightarrow> holds w other \<Longrightarrow> holds w' other"
  using assms unfolding establishes_def by (blast, metis snd_conv)

lemma broadcast_establishes:
  assumes "establishes holds call clis" and "broadcast call clis ret w = (Ok res, w')"
  shows "(\<forall>cli \<in> set clis. holds w' cli) \<and> (\<forall>other. holds w other \<longrightarrow> holds w' other)"
  using assms
proof (induction clis arbitrary: ret w)
  case (Cons cli clis)
  from Cons.prems(2) obtain resp w1 ret' where
    call: "call cli w = (Ok resp, w1)" and rest: "broadcast call clis ret' w1 = (Ok res, w')"
    by (auto simp: io_bind_Ok_iff)
  have "establishes holds call clis" using Cons.prems(1) by (auto simp: establishes_def)
  from Cons.IH [OF this rest] establishesD [OF Cons.prems(1) _ call] show ?case by auto
qed simp

lemma broadcast_first:
  assumes "broadcast call clis ret w = (Ok res, w')"
  shows "ret \<noteq> None \<Longrightarrow> res = ret"
    and "ret = None \<Longrightarrow> clis \<noteq> [] \<Longrightarrow> \<exists>r w1. call (hd clis) w = (Ok r, w1) \<and> res = Some r"
proof -
  have later: "res = ret" if "broadcast call clis ret w = (Ok res, w')" "ret \<noteq> None" for clis ret w
    using that by (induction clis arbitrary: w) (auto simp: io_bind_Ok_iff)
  show "ret \<noteq> None \<Longrightarrow> res = ret" using later assms by blast
  show "\<exists>r w1. call (hd clis) w = (Ok r, w1) \<and> res = Some r" if "ret = None" "clis \<noteq> []"
    using that assms later by (cases clis) (fastforce simp: io_bind_Ok_iff)+
qed

lemma broadcast_error:
  assumes "broadcast call clis ret w = (Err e, w')"
  shows "\<exists>cli \<in> set clis. \<exists>v v'. call cli v = (Err e, v')"
  using assms
proof (induction clis arbitrary: ret w)
  case (Cons cli clis)
  then show ?case
    by (fastforce simp: io_bind_def split: prod.splits result.splits)
qed simp

section \<open>The least time to live\<close>

lemma merge_ttl_None [simp]:
  "lts_TTL (merge_ttl None r) = lts_TTL r" "lts_Keys (merge_ttl None r) = lts_Keys r"
  "lts_ID (merge_ttl None r) = lts_ID r" "lts_GrantedTTL (merge_ttl None r) = lts_GrantedTTL r"
  by (simp_all add: merge_ttl_def)

lemma merge_ttl_Some [simp]:
  "lts_TTL (merge_ttl (Some t) r) = min (lts_TTL t) (lts_TTL r)"
  "lts_Keys (merge_ttl (Some t) r) = lts_Keys t @ lts_Keys r"
  "lts_ID (merge_ttl (Some t) r) = lts_ID t"
  "lts_GrantedTTL (merge_ttl (Some t) r) = lts_GrantedTTL t"
  by (simp_all add: merge_ttl_def Let_def min_def)

lemma LeaseTimeToLive_loop_merge:
  assumes "LeaseTimeToLive_loop call clis (Some t) w = (Ok res, w')"
  obtains rs t' where "res = Some t'" "list_all2 (\<lambda>cli r. answer_of (call cli) r) clis rs"
    "lts_TTL t' = fold (\<lambda>r n. min n (lts_TTL r)) rs (lts_TTL t)"
    "lts_Keys t' = lts_Keys t @ concat (map lts_Keys rs)"
    "lts_ID t' = lts_ID t" "lts_GrantedTTL t' = lts_GrantedTTL t"
proof -
  have "\<exists>rs t'. res = Some t' \<and> list_all2 (\<lambda>cli r. answer_of (call cli) r) clis rs \<and>
    lts_TTL t' = fold (\<lambda>r n. min n (lts_TTL r)) rs (lts_TTL t) \<and>
    lts_Keys t' = lts_Keys t @ concat (map lts_Keys rs) \<and>
    lts_ID t' = lts_ID t \<and> lts_GrantedTTL t' = lts_GrantedTTL t"
    using assms
  proof (induction clis arbitrary: t w)
    case Nil
    then show ?case by (intro exI [of _ "[]"]) auto
  next
    case (Cons cli clis)
    from Cons.prems obtain r w1 where r: "call cli w = (Ok r, w1)"
      and rest: "LeaseTimeToLive_loop call clis (Some (merge_ttl (Some t) r)) w1 = (Ok res, w')"
      by (auto simp: io_bind_Ok_iff)
    from Cons.IH [OF rest] obtain rs t' where
      IH: "res = Some t'" "list_all2 (\<lambda>cli r. answer_of (call cli) r) clis rs"
      "lts_TTL t' = fold (\<lambda>r n. min n (lts_TTL r)) rs (min (lts_TTL t) (lts_TTL r))"
      "lts_Keys t' = (lts_Keys t @ lts_Keys r) @ concat (map lts_Keys rs)"
      "lts_ID t' = lts_ID t" "lts_GrantedTTL t' = lts_GrantedTTL t"
      by auto
    with answer_ofI [where c = "call cli", OF r] show ?case by (intro exI [of _ "r # rs"]) auto
  qed
  then show ?thesis using that by blast
qed

lemma fold_min_eq_Min:
  "fold (\<lambda>r n. min n (f r)) rs (n :: int) = Min (set (n # map f rs))"
proof -
  have "fold (\<lambda>r n. min n (f r)) rs n = fold min (map f rs) n"
    by (induction rs arbitrary: n) (auto simp: min.commute)
  then show ?thesis by (simp only: Min.set_eq_fold)
qed

section \<open>Answers of a keep-alive turn\<close>

lemma keepalive_recv_Ok:
  "keepalive_recv backend req w = (Ok resp, w') \<Longrightarrow>
     cs_RecvMsg backend w = (Ok resp, w') \<and> lks_ID resp = lkr_ID req"
  by (auto simp: keepalive_recv_def split: prod.splits result.splits error.splits if_splits)

text \<open>
  What a successful turn does on the streams: \<open>sent_to\<close> chains the sends of the request, on the stream of each shard, opened
  before when there was none; \<open>received_from\<close> chains one receive from each stream.
\<close>

fun sent_to ::
  "('w, ('m, 'w) keepalive_stream) io list \<Rightarrow> ('m, 'w) keepalive_stream option list \<Rightarrow>
   LeaseKeepAliveRequest \<Rightarrow> 'w \<Rightarrow> ('m, 'w) keepalive_stream list \<Rightarrow> 'w \<Rightarrow> bool"
where
  "sent_to (open # opens) (st # streams) req w (s # ss) w' \<longleftrightarrow>
     (\<exists>w1 w2. (case st of None \<Rightarrow> open w = (Ok s, w1) | Some s0 \<Rightarrow> s = s0 \<and> w1 = w) \<and>
        cs_SendMsg s req w1 = (Ok (), w2) \<and> sent_to opens streams req w2 ss w')"
| "sent_to [] [] req w [] w' \<longleftrightarrow> w' = w"
| "sent_to _ _ req w _ w' \<longleftrightarrow> False"

fun received_from ::
  "('m, 'w) keepalive_stream list \<Rightarrow> 'w \<Rightarrow> LeaseKeepAliveResponse list \<Rightarrow> 'w \<Rightarrow> bool"
where
  "received_from (s # ss) w (r # rs) w' \<longleftrightarrow> (\<exists>w1. cs_RecvMsg s w = (Ok r, w1) \<and> received_from ss w1 rs w')"
| "received_from [] w [] w' \<longleftrightarrow> w' = w"
| "received_from _ w _ w' \<longleftrightarrow> False"

lemma keepalive_send_Ok: "keepalive_send s req w = (Ok u, w') \<Longrightarrow> cs_SendMsg s req w = (Ok (), w')"
  by (auto simp: keepalive_send_def split: prod.splits result.splits error.splits)

lemma keepalive_send_all_sent:
  "keepalive_send_all opens streams req w = (Ok ss, w') \<Longrightarrow> length streams = length opens \<Longrightarrow>
     sent_to opens streams req w ss w'"
proof (induction opens streams req arbitrary: w ss rule: keepalive_send_all.induct)
  case (1 op ops st sts req)
  from "1.prems"(1) obtain s w1 u w2 ss' where
    s: "(case st of None \<Rightarrow> op | Some s \<Rightarrow> io_return s) w = (Ok s, w1)" "keepalive_send s req w1 = (Ok u, w2)"
    and rest: "keepalive_send_all ops sts req w2 = (Ok ss', w')" "ss = s # ss'"
    by (auto simp: io_bind_Ok_iff)
  from "1.IH" [OF rest(1)] "1.prems"(2) have "sent_to ops sts req w2 ss' w'" by simp
  with s keepalive_send_Ok [OF s(2)] rest(2) show ?case by (cases st) auto
qed auto

lemma keepalive_recv_all_Some:
  assumes "keepalive_recv_all ss req (Some r0) w = (Ok res, w')"
  shows "\<exists>rs r. res = Some r \<and> r \<in> set (r0 # rs) \<and> (\<forall>x \<in> set rs. lks_ID x = lkr_ID req) \<and>
    received_from ss w rs w' \<and> lks_TTL r = Min (set (map lks_TTL (r0 # rs)))"
  using assms
proof (induction ss arbitrary: r0 w)
  case Nil
  then show ?case by (intro exI [of _ "[]"]) auto
next
  case (Cons s ss)
  from Cons.prems obtain x w1 where x: "keepalive_recv s req w = (Ok x, w1)"
    and rest: "keepalive_recv_all ss req
      (Some (if lks_TTL x < lks_TTL r0 then x else r0)) w1 = (Ok res, w')"
    by (auto simp: io_bind_Ok_iff if_distrib)
  note recv = keepalive_recv_Ok [OF x]
  from Cons.IH [OF rest] obtain rs r where
    IH: "res = Some r" "r \<in> set ((if lks_TTL x < lks_TTL r0 then x else r0) # rs)"
    "\<forall>x \<in> set rs. lks_ID x = lkr_ID req" "received_from ss w1 rs w'"
    "lks_TTL r = Min (set (map lks_TTL ((if lks_TTL x < lks_TTL r0 then x else r0) # rs)))"
    by blast
  have "lks_TTL r = Min (set (map lks_TTL (r0 # x # rs)))"
    unfolding IH(5) by (cases "rs = []") (auto simp: min_def)
  with IH recv show ?case by (intro exI [of _ "x # rs"]) (auto split: if_splits)
qed

lemma keepalive_recv_all_Min:
  assumes "keepalive_recv_all ss req None w = (Ok res, w')" and "ss \<noteq> []"
  obtains rs r where "res = Some r" "r \<in> set rs" "\<forall>x \<in> set rs. lks_ID x = lkr_ID req" "received_from ss w rs w'"
    "lks_TTL r = Min (lks_TTL ` set rs)"
proof -
  from assms obtain s ss' x w1 where ss: "ss = s # ss'"
    and x: "keepalive_recv s req w = (Ok x, w1)"
    and rest: "keepalive_recv_all ss' req (Some x) w1 = (Ok res, w')"
    by (cases ss) (auto simp: io_bind_Ok_iff)
  note recv = keepalive_recv_Ok [OF x]
  obtain rs r where r: "res = Some r" "r \<in> set (x # rs)" "\<forall>y \<in> set rs. lks_ID y = lkr_ID req"
    "received_from ss' w1 rs w'" "lks_TTL r = Min (set (map lks_TTL (x # rs)))"
    using keepalive_recv_all_Some [OF rest] by blast
  then show ?thesis using recv ss by (intro that [of r "x # rs"]) auto
qed

end
