(* ===== verification/Startup.thy ===== *)
theory Startup
  imports Sharding KV_Proxy Lease_Proxy Coordinated_Proxy
begin

text \<open>
  Starting the proxy: \<open>TransportCredentials\<close> (\<open>pkg/server/tls.go\<close>), \<open>buildBackends\<close>
  (\<open>cmd/proxy/main.go\<close>) and the registration of services in \<open>NewGrpcServer\<close>
  (\<open>pkg/server/server.go\<close>). Dialing, closing, reading certificates and the stub constructors are
  parameters. \<open>BackendServers\<close> is a value per operating mode; \<open>buildBackends\<close> returns it with the
  connections its close function closes.

  The theorems connect the configuration to the routing tables: a validated shard list becomes a
  well-formed list of legacy shards, and passes the range check of the coordinated mode; a failed
  start leaves no connection open.
\<close>

section \<open>Transport credentials\<close>

datatype ClientAuthType = NoClientCert | RequireAndVerifyClientCert

record ('cert, 'pool) tls_Config =
  tc_MinVersion :: nat
  tc_ServerName :: string
  tc_Certificates :: "'cert list"
  tc_ClientCAs :: "'pool option"
  tc_RootCAs :: "'pool option"
  tc_ClientAuth :: ClientAuthType

definition VersionTLS12 :: nat where
  "VersionTLS12 = 0x0303"

text \<open>The functions of \<open>crypto/tls\<close>, \<open>crypto/x509\<close> and \<open>os\<close> that are called.\<close>

record ('cert, 'pool, 'w) TlsLib =
  LoadX509KeyPair :: "string \<Rightarrow> string \<Rightarrow> ('w, 'cert) io"
  os_ReadFile :: "string \<Rightarrow> ('w, bytes) io"
  AppendCertsFromPEM :: "bytes \<Rightarrow> 'pool option"
  NewTLS :: "('cert, 'pool) tls_Config \<Rightarrow> opaque"

definition tls_config ::
  "('cert, 'pool, 'w) TlsLib \<Rightarrow> TLS \<Rightarrow> bool \<Rightarrow> ('w, ('cert, 'pool) tls_Config) io"
where
  "tls_config lib c frontend =
     (let t = \<lparr>tc_MinVersion = VersionTLS12, tc_ServerName = ServerName c, tc_Certificates = [],
               tc_ClientCAs = None, tc_RootCAs = None, tc_ClientAuth = NoClientCert\<rparr>
      in io_bind
           (if CertFile c \<noteq> []
            then io_bind (io_wrap ''load TLS certificate'' (LoadX509KeyPair lib (CertFile c) (KeyFile c)))
                   (\<lambda>cert. io_return (t\<lparr>tc_Certificates := [cert]\<rparr>))
            else io_return t) (\<lambda>t.
         io_bind
           (if CAFile c \<noteq> []
            then io_bind (io_wrap ''read TLS CA'' (os_ReadFile lib (CAFile c))) (\<lambda>pem.
                   case AppendCertsFromPEM lib pem of
                     None \<Rightarrow> io_err (Errorf ''TLS CA file contains no certificates'')
                   | Some pool \<Rightarrow>
                       io_return (if frontend then t\<lparr>tc_ClientCAs := Some pool\<rparr>
                                  else t\<lparr>tc_RootCAs := Some pool\<rparr>))
            else io_return t) (\<lambda>t.
         io_return (if frontend \<and> ClientCertAuth c
                    then t\<lparr>tc_ClientAuth := RequireAndVerifyClientCert\<rparr> else t))))"

definition TransportCredentials :: "('cert, 'pool, 'w) TlsLib \<Rightarrow> TLS \<Rightarrow> bool \<Rightarrow> ('w, Creds) io" where
  "TransportCredentials lib c frontend =
     io_bind (io_lift (TLS_Validate c frontend)) (\<lambda>_.
       if \<not> IsEnabled c then io_return Insecure
       else io_bind (tls_config lib c frontend) (\<lambda>t. io_return (TLSCreds (NewTLS lib t))))"

section \<open>Building the servers\<close>

datatype ('conn, 'c, 'm, 'w) BackendServers =
  ServeBackend "('c, 'm, 'w) BackendProxy"
| ServeCoordinated "('conn, 'c, 'm, 'w) CoordinatedProxy"
| ServeShards "('c, 'm, 'w) KVProxy" "('c, 'm, 'w) LeaseProxy" "('c, 'm, 'w) ShardClientImpl ShardingConfigs"

definition closeAll :: "('conn, 'c, 'm, 'w) Stubs \<Rightarrow> 'conn list \<Rightarrow> 'w \<Rightarrow> 'w" where
  "closeAll stubs conns w = fold (conn_Close stubs) conns w"

definition dial ::
  "('cert, 'pool, 'w) TlsLib \<Rightarrow> ('conn, 'c, 'm, 'w) Stubs \<Rightarrow> string \<Rightarrow> TLS \<Rightarrow> ('w, 'conn) io"
where
  "dial lib stubs endpoint tls =
     io_bind (TransportCredentials lib tls False) (\<lambda>creds. grpc_Dial stubs endpoint creds)"

text \<open>Shard \<open>i\<close> of \<open>n\<close> as the coordinated mode describes it, once its connection is dialed.\<close>

definition coordinated_shard :: "nat \<Rightarrow> nat \<Rightarrow> Shard \<Rightarrow> 'conn \<Rightarrow> 'conn CoordinatedShard" where
  "coordinated_shard n i s conn =
     (let start = (if Start s \<noteq> [] then Start s else StartBytes s);
          end' = (if End s \<noteq> [] then End s else EndBytes s)
      in \<lparr>csh_Start = (if i = 0 then [] else start), csh_End = (if i = n - 1 then [] else end'),
          csh_Endpoint = Address s, csh_Conn = Some conn\<rparr>)"

text \<open>
  The dialing loop from shard \<open>i\<close> on: the shards, or the error of one, with the connections opened
  so far, \<open>conns\<close> being those opened before.
\<close>

fun dial_shards ::
  "('cert, 'pool, 'w) TlsLib \<Rightarrow> ('conn, 'c, 'm, 'w) Stubs \<Rightarrow> nat \<Rightarrow> nat \<Rightarrow> 'conn list \<Rightarrow> Shard list \<Rightarrow> 'w \<Rightarrow>
   'conn CoordinatedShard list result \<times> 'conn list \<times> 'w"
where
  "dial_shards lib stubs n i conns [] w = (Ok [], conns, w)"
| "dial_shards lib stubs n i conns (s # ss) w =
     (case dial lib stubs (Address s) (shard_TLS s) w of
        (Ok conn, w1) \<Rightarrow>
          (case dial_shards lib stubs n (Suc i) (conns @ [conn]) ss w1 of
             (rest, conns', w2) \<Rightarrow>
               (res_bind rest (\<lambda>cs. Ok (coordinated_shard n i s conn # cs)), conns', w2))
      | (Err e, w1) \<Rightarrow> (Err (Wrap (''dial shard '' @ itoa i) e), conns, w1)
      | (Panic p, w1) \<Rightarrow> (Panic p, conns, w1))"

definition build_coordinated ::
  "('cert, 'pool, 'w) TlsLib \<Rightarrow> ('conn, 'c, 'm, 'w) Stubs \<Rightarrow> ('c, 'm, 'w) Grpc \<Rightarrow> (bytes \<Rightarrow> bytes) \<Rightarrow> 'c \<Rightarrow>
   Backend \<Rightarrow> Shard list \<Rightarrow> ('w, ('conn, 'c, 'm, 'w) BackendServers \<times> 'conn list) io"
where
  "build_coordinated lib stubs g sha256 ctx co shards = (\<lambda>w.
     case dial lib stubs (Endpoint co) (backend_TLS co) w of
       (Ok coordinator, w1) \<Rightarrow>
         (case dial_shards lib stubs (length shards) 0 [coordinator] shards w1 of
            (Ok cs, conns, w2) \<Rightarrow>
              (case NewCoordinatedProxy stubs g sha256 ctx (Some coordinator) cs w2 of
                 (Ok p, w3) \<Rightarrow> (Ok (ServeCoordinated p, conns), w3)
               | (Err e, w3) \<Rightarrow> (Err e, closeAll stubs conns w3)
               | (Panic s, w3) \<Rightarrow> (Panic s, w3))
          | (Err e, conns, w2) \<Rightarrow> (Err e, closeAll stubs conns w2)
          | (Panic s, conns, w2) \<Rightarrow> (Panic s, w2))
     | (Err e, w1) \<Rightarrow> (Err e, closeAll stubs [] w1)
     | (Panic s, w1) \<Rightarrow> (Panic s, w1))"

text \<open>The loop that creates the legacy shards, from shard \<open>i\<close> on.\<close>

fun new_shards ::
  "('conn, 'c, 'm, 'w) Stubs \<Rightarrow> nat \<Rightarrow> nat \<Rightarrow> Shard list \<Rightarrow>
   ('w, ('c, 'm, 'w) ShardClientImpl ShardImpl list) io"
where
  "new_shards stubs n i [] = io_return []"
| "new_shards stubs n i (s # ss) =
     io_bind (io_wrap (''create shard '' @ itoa i) (NewShardImpl stubs (int i) (int n) s)) (\<lambda>sh.
       io_bind (new_shards stubs n (Suc i) ss) (\<lambda>shs. io_return (sh # shs)))"

definition buildBackends ::
  "('cert, 'pool, 'w) TlsLib \<Rightarrow> ('conn, 'c, 'm, 'w) Stubs \<Rightarrow> ('c, 'm, 'w) Grpc \<Rightarrow> (bytes \<Rightarrow> bytes) \<Rightarrow> 'c \<Rightarrow>
   Configurations \<Rightarrow> ('w, ('conn, 'c, 'm, 'w) BackendServers \<times> 'conn list) io"
where
  "buildBackends lib stubs g sha256 ctx conf =
     io_bind (io_lift (Validate conf)) (\<lambda>_.
       case conf_Coordinator conf of
         Some co \<Rightarrow> build_coordinated lib stubs g sha256 ctx co (conf_Shards conf)
       | None \<Rightarrow>
           (case conf_Backend conf of
              Some b \<Rightarrow>
                io_bind (TransportCredentials lib (backend_TLS b) False) (\<lambda>creds.
                  io_bind (grpc_Dial stubs (Endpoint b) creds) (\<lambda>conn.
                    io_return (ServeBackend (NewBackendProxy stubs conn), [conn])))
            | None \<Rightarrow>
                io_bind (new_shards stubs (length (conf_Shards conf)) 0 (conf_Shards conf)) (\<lambda>shards.
                  let sharding = NewDefaultShardingConfigs shards in
                  io_return
                    (ServeShards (NewKVProxy sharding DefaultResponseFilter) (NewLeaseProxy sharding) sharding,
                     []))))"

section \<open>Registered services\<close>

datatype service = KV | Watch | Lease | Maintenance

text \<open>
  The services \<open>NewGrpcServer\<close> registers: the maintenance service only where a server for it was
  given.
\<close>

definition has_maintenance :: "('conn, 'c, 'm, 'w) BackendServers \<Rightarrow> bool" where
  "has_maintenance servers =
     (case servers of ServeBackend _ \<Rightarrow> True | ServeCoordinated _ \<Rightarrow> True | ServeShards _ _ _ \<Rightarrow> False)"

definition NewGrpcServer :: "('conn, 'c, 'm, 'w) BackendServers \<Rightarrow> service list" where
  "NewGrpcServer servers =
     [KV, Watch, Lease] @ (if has_maintenance servers then [Maintenance] else [])"

section \<open>From the configuration to the legacy routing table\<close>

lemma new_shards_Ok:
  assumes "new_shards stubs n i ss w = (Ok shs, w')" and "n = i + length ss"
    and "\<And>j. j < length ss \<Longrightarrow> Suc j < length ss \<Longrightarrow> conf_end (ss ! j) \<noteq> noEnd"
  shows "map shard_segment shs = conf_segments i ss \<and>
    map (\<lambda>s. GetShardID (GetClient s)) shs = map int [i..<i + length ss]"
  using assms
proof (induction ss arbitrary: i w shs)
  case (Cons s ss)
  from Cons.prems(1) obtain sh w1 shs' where sh: "NewShardImpl stubs (int i) (int n) s w = (Ok sh, w1)"
    and rest: "new_shards stubs n (Suc i) ss w1 = (Ok shs', w')" "shs = sh # shs'"
    by (auto simp: io_bind_Ok_iff)
  have "map shard_segment shs' = conf_segments (Suc i) ss \<and>
      map (\<lambda>s. GetShardID (GetClient s)) shs' = map int [Suc i..<Suc i + length ss]"
  proof (rule Cons.IH [OF rest(1)])
    show "n = Suc i + length ss" using Cons.prems(2) by simp
    show "conf_end (ss ! j) \<noteq> noEnd" if "j < length ss" "Suc j < length ss" for j
      using Cons.prems(3) [of "Suc j"] that by simp
  qed
  moreover have "shard_segment sh = (if i = 0 then [] else conf_start s, if ss = [] then None else Some (conf_end s))"
    using NewShardImpl_Ok [OF sh] Cons.prems(2) Cons.prems(3) [of 0]
    by (auto simp: shard_segment_def of_nat_diff)
  moreover have "[i..<i + length (s # ss)] = i # [Suc i..<Suc i + length ss]"
    by (subst upt_conv_Cons) simp_all
  ultimately show ?case using rest(2) NewShardImpl_Ok(3) [OF sh] by simp
qed simp

lemma validated_shards:
  assumes "Validate conf = Ok ()" and "conf_Backend conf = None"
    and "new_shards stubs (length (conf_Shards conf)) 0 (conf_Shards conf) w = (Ok shards, w')"
  shows "valid_shards shards"
proof -
  note v = Validate_shards_mode [OF assms(1,2)]
  have "map shard_segment shards = conf_segments 0 (conf_Shards conf) \<and>
    map (\<lambda>s. GetShardID (GetClient s)) shards = map int [0..<0 + length (conf_Shards conf)]"
    using Validate_shards_nth(4) [OF v(2)] by (intro new_shards_Ok [OF assms(3)]) auto
  moreover from this have "length shards = length (conf_Shards conf)"
    by (metis length_map length_upt diff_zero add_0)
  ultimately show ?thesis using Validate_tiles [OF assms(1,2)] by (simp add: valid_shards_def)
qed

section \<open>From the configuration to the coordinated routing table\<close>

lemma dial_shards_Ok:
  assumes "dial_shards lib stubs n i conns ss w = (Ok cs, conns', w')"
  shows "\<exists>new. conns' = conns @ new \<and> length new = length ss \<and> length cs = length ss \<and>
    (\<forall>j < length ss. cs ! j = coordinated_shard n (i + j) (ss ! j) (new ! j))"
  using assms
proof (induction ss arbitrary: i conns w cs)
  case (Cons s ss)
  from Cons.prems obtain conn w1 cs' where
    rest: "dial_shards lib stubs n (Suc i) (conns @ [conn]) ss w1 = (Ok cs', conns', w')"
    and cs: "cs = coordinated_shard n i s conn # cs'"
    by (auto simp: res_bind_eq_Ok split: prod.splits result.splits)
  from Cons.IH [OF rest] obtain new where
    "conns' = (conns @ [conn]) @ new" "length new = length ss" "length cs' = length ss"
    "\<forall>j < length ss. cs' ! j = coordinated_shard n (Suc i + j) (ss ! j) (new ! j)"
    by blast
  with cs show ?case by (intro exI [of _ "conn # new"]) (auto simp: nth_Cons split: nat.splits)
qed simp

text \<open>The range check of the constructor has nothing to object to in a validated configuration.\<close>

lemma coordinated_shard_sel [simp]:
  "csh_Start (coordinated_shard n i s conn) = (if i = 0 then [] else conf_start s)"
  "csh_End (coordinated_shard n i s conn) = (if i = n - 1 then [] else conf_end s)"
  "csh_Endpoint (coordinated_shard n i s conn) = Address s"
  "csh_Conn (coordinated_shard n i s conn) = Some conn"
  by (simp_all add: coordinated_shard_def conf_start_def conf_end_def Let_def)

lemma Validate_shards_adjacent:
  assumes "Validate_shards co n i pe ss = Ok ()" and "n = i + length ss" and "j < length ss"
  shows "(i + j > 0 \<longrightarrow> conf_start (ss ! j) = (if j = 0 then pe else conf_end (ss ! (j - 1)))) \<and>
    (i + j < n - 1 \<longrightarrow> conf_end (ss ! j) \<noteq> [] \<and> (if i + j = 0 then [] else conf_start (ss ! j)) < conf_end (ss ! j))"
  using assms
proof (induction ss arbitrary: i pe j)
  case (Cons s ss)
  note s = Cons.prems(1) [unfolded Validate_shards_Cons_Ok]
  show ?case
  proof (cases j)
    case 0
    with s show ?thesis by auto
  next
    case (Suc k)
    have "Validate_shards co n (Suc i) (conf_end s) ss = Ok ()" using s by blast
    from Cons.IH [OF this, of k] Cons.prems(2,3) Suc show ?thesis
      by (cases k) auto
  qed
qed simp

lemma validated_ranges:
  assumes v: "Validate_shards co (length ss) 0 [] ss = Ok ()"
    and cs: "length cs = length ss" "\<forall>j < length ss. cs ! j = coordinated_shard (length ss) j (ss ! j) (new ! j)"
    and j: "j < length ss"
  shows "\<not> range_misplaced cs j (cs ! j)"
proof -
  have "csh_End (cs ! (j - 1)) = conf_end (ss ! (j - 1))" if "0 < j"
    using cs(2) j that by (auto simp: less_diff_conv)
  with Validate_shards_adjacent [OF v _ j] cs j show ?thesis
    by (auto simp: range_misplaced_def not_le)
qed

lemma check_shards_placed:
  assumes "\<And>j. j < length shards \<Longrightarrow> \<not> range_misplaced shards j (shards ! j) \<and> csh_Conn (shards ! j) \<noteq> None"
    and "rest = drop i shards"
  shows "accepted (check_shards stubs coord shards i seen rest) \<or>
    check_shards stubs coord shards i seen rest = Err (Errorf ''coordinator and shard endpoints must be distinct'')"
  using assms(2)
proof (induction rest arbitrary: i seen)
  case (Cons s rest)
  then have i: "i < length shards" by (metis drop_all linorder_not_le list.simps(3))
  then have s: "s = shards ! i" and rest: "rest = drop (Suc i) shards"
    using Cons.prems by (metis Cons_nth_drop_Suc list.inject)+
  obtain conn where "csh_Conn s = Some conn" "\<not> range_misplaced shards i s"
    using assms(1) [OF i] s by auto
  moreover let ?ep = "if csh_Endpoint s = [] then conn_Target stubs conn else csh_Endpoint s"
  have "accepted (res_bind (check_shards stubs coord shards (Suc i) (?ep # seen) rest) (\<lambda>acc. Ok (f acc))) \<or>
      res_bind (check_shards stubs coord shards (Suc i) (?ep # seen) rest) (\<lambda>acc. Ok (f acc)) =
      Err (Errorf ''coordinator and shard endpoints must be distinct'')" for f :: "_ \<Rightarrow> ('a \<times> route) list"
    using Cons.IH [OF rest, of "?ep # seen"] by (auto simp: accepted_def res_bind_def)
  ultimately show ?case by (simp add: Let_def)
qed simp

section \<open>Connections of a failed start\<close>

text \<open>
  \<open>opened\<close> is the set of open connections: a successful dial adds one, closing removes it, no other
  call touches it.
\<close>

definition connection_laws ::
  "('cert, 'pool, 'w) TlsLib \<Rightarrow> ('conn, 'c, 'm, 'w) Stubs \<Rightarrow> ('w \<Rightarrow> 'conn set) \<Rightarrow> bool"
where
  "connection_laws lib stubs opened \<longleftrightarrow>
     (\<forall>ep creds w r w'. grpc_Dial stubs ep creds w = (r, w') \<longrightarrow>
        opened w' = (case r of Ok c \<Rightarrow> insert c (opened w) | _ \<Rightarrow> opened w)) \<and>
     (\<forall>c w. opened (conn_Close stubs c w) = opened w - {c}) \<and>
     (\<forall>cf kf w r w'. LoadX509KeyPair lib cf kf w = (r, w') \<longrightarrow> opened w' = opened w) \<and>
     (\<forall>f w r w'. os_ReadFile lib f w = (r, w') \<longrightarrow> opened w' = opened w) \<and>
     (\<forall>c ctx q w r h t w'. KV_Txn (NewKVClient stubs c) ctx q w = ((r, h, t), w') \<longrightarrow> opened w' = opened w)"

lemma opened_closeAll:
  "connection_laws lib stubs opened \<Longrightarrow> opened (closeAll stubs conns w) = opened w - set conns"
  by (induction conns arbitrary: w) (auto simp: closeAll_def connection_laws_def)

lemma preserves_wrap [preserves_intros]: "preserves P m \<Longrightarrow> preserves P (io_wrap msg m)"
  by (auto simp: preserves_def io_wrap_def split: prod.splits result.splits)

lemma opened_credentials:
  assumes "connection_laws lib stubs opened"
  shows "preserves (\<lambda>w. opened w = X) (TransportCredentials lib c frontend)"
proof -
  have "preserves (\<lambda>w. opened w = X) (LoadX509KeyPair lib cf kf)" "preserves (\<lambda>w. opened w = X) (os_ReadFile lib f)" for cf kf f
    using assms by (auto simp: connection_laws_def preserves_def) (metis prod.collapse)+
  then show ?thesis
    unfolding TransportCredentials_def tls_config_def Let_def
    by (auto intro!: preserves_intros split: option.splits)
qed

lemma opened_dial:
  assumes "connection_laws lib stubs opened" and "dial lib stubs ep tls w = (r, w')"
  shows "opened w' = (case r of Ok c \<Rightarrow> insert c (opened w) | _ \<Rightarrow> opened w)"
proof -
  obtain rc w1 where rc: "TransportCredentials lib tls False w = (rc, w1)" by fastforce
  have "opened w1 = opened w" using preservesD [OF opened_credentials [OF assms(1)] refl rc] .
  moreover have "opened w' = (case r of Ok c \<Rightarrow> insert c (opened w1) | _ \<Rightarrow> opened w1)"
    if "grpc_Dial stubs ep creds w1 = (r, w')" for creds
    using conjunct1 [OF assms(1) [unfolded connection_laws_def], rule_format, OF that] .
  ultimately show ?thesis
    using assms(2) rc by (cases rc; cases r) (auto simp: dial_def io_bind_step)
qed

lemma opened_dial_shards:
  assumes laws: "connection_laws lib stubs opened"
    and "dial_shards lib stubs n i conns ss w = (r, conns', w')" and "opened w \<subseteq> X \<union> set conns"
  shows "opened w' \<subseteq> X \<union> set conns'"
  using assms(2,3)
proof (induction ss arbitrary: i conns w r conns' w')
  case (Cons s ss)
  obtain rd w1 where d: "dial lib stubs (Address s) (shard_TLS s) w = (rd, w1)" by fastforce
  note o = opened_dial [OF laws d]
  show ?case
  proof (cases rd)
    case (Ok conn)
    obtain r2 c2 w2 where rest: "dial_shards lib stubs n (Suc i) (conns @ [conn]) ss w1 = (r2, c2, w2)"
      by (metis prod.exhaust)
    have "opened w1 \<subseteq> X \<union> set (conns @ [conn])" using o Ok Cons.prems(2) by auto
    from Cons.IH [OF rest this] Cons.prems(1) d Ok rest show ?thesis by simp
  qed (use Cons.prems d o in auto)
qed simp

lemma opened_NewCoordinatedProxy:
  assumes "connection_laws lib stubs opened"
  shows "preserves (\<lambda>w. opened w = X) (NewCoordinatedProxy stubs g sha256 ctx coordinator shards)"
proof -
  have "preserves (\<lambda>w. opened w = X) (rpc_call (KV_Txn (bp_kv (NewBackendProxy stubs c))) ctx q)" for c ctx q
    using assms by (auto simp: connection_laws_def preserves_def NewBackendProxy_def rpc_call_def split: prod.splits)
  then show ?thesis
    unfolding NewCoordinatedProxy_def Let_def
    by (auto intro!: preserves_intros split: option.splits)
qed

lemma opened_build_coordinated:
  assumes laws: "connection_laws lib stubs opened"
    and err: "build_coordinated lib stubs g sha256 ctx co shards w = (Err e, w')"
  shows "opened w' \<subseteq> opened w"
proof -
  obtain rd w1 where d: "dial lib stubs (Endpoint co) (backend_TLS co) w = (rd, w1)" by fastforce
  note o = opened_dial [OF laws d]
  show ?thesis
  proof (cases rd)
    case (Ok c)
    obtain rs conns w2 where ds: "dial_shards lib stubs (length shards) 0 [c] shards w1 = (rs, conns, w2)"
      by (metis prod.exhaust)
    have w2: "opened w2 \<subseteq> opened w \<union> set conns"
      by (rule opened_dial_shards [OF laws ds]) (use o Ok in auto)
    show ?thesis
    proof (cases rs)
      case ok: (Ok cs)
      obtain rp w3 where np: "NewCoordinatedProxy stubs g sha256 ctx (Some c) cs w2 = (rp, w3)" by fastforce
      have "opened w3 = opened w2" using preservesD [OF opened_NewCoordinatedProxy [OF laws] refl np] .
      with err d Ok ds ok np w2 show ?thesis
        by (cases rp) (auto simp: build_coordinated_def opened_closeAll [OF laws])
    qed (use err d Ok ds w2 in \<open>auto simp: build_coordinated_def opened_closeAll [OF laws]\<close>)
  qed (use err d o in \<open>auto simp: build_coordinated_def closeAll_def\<close>)
qed

end
