(* ===== verification/Sharded_Theorems.thy ===== *)
theory Sharded_Theorems
  imports Startup Memory_Cluster
begin

text \<open>
  What the configuration, the start-up and the legacy sharded mode guarantee, and where the legacy
  mode does not do what a single store would. The concrete inputs are a configuration with two
  shards and the stores of \<open>Memory_Cluster\<close> behind legacy clients.
\<close>

section \<open>Concrete inputs\<close>

definition no_tls :: TLS where
  "no_tls = \<lparr>Enabled = False, CertFile = [], KeyFile = [], CAFile = [], ServerName = [], ClientCertAuth = False\<rparr>"

definition two_shards :: Configurations where
  "two_shards =
     \<lparr>conf_Shards =
        [\<lparr>Start = [], StartBytes = [], End = ''m'', EndBytes = [], Address = ''left'', shard_TLS = no_tls\<rparr>,
         \<lparr>Start = ''m'', StartBytes = [], End = [], EndBytes = [], Address = ''right'', shard_TLS = no_tls\<rparr>],
      conf_Backend = None, conf_Coordinator = None, conf_TLS = no_tls\<rparr>"

lemma two_shards_valid: "Validate two_shards = Ok ()"
  by (simp add: Validate_def two_shards_def TLS_Validate_def no_tls_def IsEnabled_def conf_start_def conf_end_def
      noEnd_def)

definition legacy_kv :: "nat \<Rightarrow> (unit, unit, mem) KVClient" where
  "legacy_kv i =
     mem_client (\<lambda>_. True) (\<lambda>w. if i < length (mem_blobs w) then mem_blobs w ! i else [])
       (\<lambda>s w. w\<lparr>mem_blobs := (mem_blobs w)[i := s]\<rparr>)"

definition legacy_cli :: "nat \<Rightarrow> (unit, unit, mem) ShardClientImpl" where
  "legacy_cli i =
     \<lparr>shardID = int i, sc_KV = legacy_kv i, sc_Watch = \<lparr>Watch_Watch = (\<lambda>_. io_err EOF)\<rparr>, sc_Lease = no_lease\<rparr>"

definition legacy_shards :: "(unit, unit, mem) ShardClientImpl ShardImpl list" where
  "legacy_shards =
     [\<lparr>shard_start = [], shard_end = ''m'', shard_cli = legacy_cli 0\<rparr>,
      \<lparr>shard_start = ''m'', shard_end = noEnd, shard_cli = legacy_cli 1\<rparr>]"

lemma legacy_shards_valid: "valid_shards legacy_shards"
  by (simp add: valid_shards_def legacy_shards_def shard_segment_def GetClient_def GetShardID_def legacy_cli_def
      noEnd_def)

definition legacy_proxy :: "(unit, unit, mem) KVProxy" where
  "legacy_proxy = NewKVProxy (NewDefaultShardingConfigs legacy_shards) DefaultResponseFilter"

lemma legacy_proxy_sel:
  "kvp_configs legacy_proxy = NewDefaultShardingConfigs legacy_shards"
  "kvp_respFilter legacy_proxy = DefaultResponseFilter"
  by (simp_all add: legacy_proxy_def NewKVProxy_def)

lemma legacy_owner:
  "shard_owner legacy_shards ''b'' = legacy_cli 0" "shard_owner legacy_shards ''x'' = legacy_cli 1"
  by (simp_all add: shard_owner_def shard_owns_def seg_owns_def shard_segment_def legacy_shards_def GetClient_def
      noEnd_def)

section \<open>Configuration\<close>

text \<open>
  C28. The shards of a validated configuration partition the key space: every key, the empty one
  included, lies in the range of exactly one of them.
\<close>

theorem config_partitions:
  assumes "Validate c = Ok ()" and "conf_Backend c = None"
  shows "\<exists>!i. i < length (conf_Shards c) \<and> seg_owns (conf_segments 0 (conf_Shards c) ! i) k"
proof -
  note t = Validate_tiles [OF assms]
  obtain i where i: "i < length (conf_segments 0 (conf_Shards c))" "seg_owns (conf_segments 0 (conf_Shards c) ! i) k"
    using tiles_owner [OF t, of k] by auto
  with tiles_owner_unique [OF t] show ?thesis by (intro ex1I [of _ i]) auto
qed

theorem config_partitions_witness:
  "\<exists>!i. i < length (conf_Shards two_shards) \<and> seg_owns (conf_segments 0 (conf_Shards two_shards) ! i) ''q''"
  by (rule config_partitions [OF two_shards_valid]) (simp add: two_shards_def)

text \<open>
  The operating modes exclude each other: a validated configuration with a backend has an endpoint
  for it and neither shards nor a coordinator; without a backend it has shards, each with an address,
  and TLS on a shard only together with a coordinator that has an endpoint.
\<close>

theorem config_modes:
  assumes "Validate c = Ok ()"
  shows "case conf_Backend c of
      Some b \<Rightarrow> Endpoint b \<noteq> [] \<and> conf_Shards c = [] \<and> conf_Coordinator c = None
    | None \<Rightarrow> conf_Shards c \<noteq> [] \<and> (\<forall>co. conf_Coordinator c = Some co \<longrightarrow> Endpoint co \<noteq> []) \<and>
        (\<forall>s \<in> set (conf_Shards c). Address s \<noteq> [] \<and>
           (conf_Coordinator c = None \<longrightarrow> \<not> IsEnabled (shard_TLS s)))"
proof (cases "conf_Backend c")
  case None
  note v = Validate_shards_mode [OF assms None]
  have "Address s \<noteq> [] \<and> (conf_Coordinator c = None \<longrightarrow> \<not> IsEnabled (shard_TLS s))"
    if "s \<in> set (conf_Shards c)" for s
    using that Validate_shards_nth(1,3) [OF v(2)] by (metis in_set_conv_nth)
  moreover have "Endpoint co \<noteq> []" if "conf_Coordinator c = Some co" for co
    using assms None that by (auto simp: Validate_def res_bind_eq_Ok split: if_splits)
  ultimately show ?thesis using None v(1) by simp
next
  case (Some b)
  with assms show ?thesis by (auto simp: Validate_def res_bind_eq_Ok split: if_splits)
qed

theorem config_modes_witness:
  "conf_Shards two_shards \<noteq> [] \<and> Address (hd (conf_Shards two_shards)) \<noteq> []"
proof -
  have "conf_Backend two_shards = None" by (simp add: two_shards_def)
  with config_modes [OF two_shards_valid] show ?thesis by auto
qed

section \<open>Start-up\<close>

text \<open>
  Starting in the legacy mode gives the key-value and lease services one well-formed routing
  table: the ranges of its shards tile the key space and shard \<open>i\<close> carries the identifier \<open>i\<close>.
\<close>

theorem legacy_table_valid:
  assumes "buildBackends lib stubs g sha256 ctx conf w = (Ok (ServeShards kv lease sharding, conns), w')"
  shows "\<exists>shards. valid_shards shards \<and> sharding = NewDefaultShardingConfigs shards \<and>
    kvp_configs kv = sharding \<and> lp_configs lease = sharding"
proof -
  from assms have v: "Validate conf = Ok ()" and m: "conf_Coordinator conf = None" "conf_Backend conf = None"
    by (auto simp: buildBackends_def build_coordinated_def io_bind_Ok_iff
        split: option.splits prod.splits result.splits)
  with assms obtain shards where
    "new_shards stubs (length (conf_Shards conf)) 0 (conf_Shards conf) w = (Ok shards, w')"
    "sharding = NewDefaultShardingConfigs shards" "kv = NewKVProxy sharding DefaultResponseFilter"
    "lease = NewLeaseProxy sharding"
    by (auto simp: buildBackends_def io_bind_Ok_iff Let_def)
  with validated_shards [OF v m(2)] show ?thesis by (intro exI [of _ shards]) (auto simp: NewKVProxy_def NewLeaseProxy_def)
qed

definition free_dial :: "(nat, unit, unit, mem) Stubs" where
  "free_dial = mem_stubs\<lparr>grpc_Dial := (\<lambda>_ _. io_return 1)\<rparr>"

definition no_tls_lib :: "(unit, unit, mem) TlsLib" where
  "no_tls_lib =
     \<lparr>LoadX509KeyPair = (\<lambda>_ _. io_err EOF), os_ReadFile = (\<lambda>_. io_err EOF), AppendCertsFromPEM = (\<lambda>_. None),
      NewTLS = (\<lambda>_. [])\<rparr>"

lemma legacy_start:
  "\<exists>kv lease sharding w'. buildBackends no_tls_lib free_dial mem_grpc (\<lambda>_. []) () two_shards mem_empty =
     (Ok (ServeShards kv lease sharding, []), w')"
proof -
  have m: "conf_Coordinator two_shards = None" "conf_Backend two_shards = None" by (simp_all add: two_shards_def)
  have one: "\<exists>s. NewShardImpl free_dial sid n conf w = (Ok s, w)" for sid n conf w
    by (simp add: NewShardImpl_def NewShardClientImpl_def free_dial_def Let_def io_wrap_def io_bind_def io_return_def)
  have "\<exists>ss. new_shards free_dial n i confs w = (Ok ss, w)" for n i confs w
  proof (induction confs arbitrary: i)
    case (Cons c confs)
    obtain s where "NewShardImpl free_dial (int i) (int n) c w = (Ok s, w)" using one by blast
    moreover obtain ss where "new_shards free_dial n (Suc i) confs w = (Ok ss, w)" using Cons by blast
    ultimately show ?case by (simp add: io_bind_Ok_iff)
  qed simp
  then obtain ss where "new_shards free_dial (length (conf_Shards two_shards)) 0 (conf_Shards two_shards) mem_empty =
      (Ok ss, mem_empty)" by blast
  with m show ?thesis
    by (simp add: buildBackends_def two_shards_valid io_bind_step Let_def io_return_def)
qed

theorem legacy_table_valid_witness:
  "\<exists>shards kv lease sharding w'.
     buildBackends no_tls_lib free_dial mem_grpc (\<lambda>_. []) () two_shards mem_empty =
       (Ok (ServeShards kv lease sharding, []), w') \<and>
     valid_shards shards \<and> kvp_configs kv = NewDefaultShardingConfigs shards"
proof -
  obtain kv lease sharding w' where b: "buildBackends no_tls_lib free_dial mem_grpc (\<lambda>_. []) () two_shards mem_empty =
     (Ok (ServeShards kv lease sharding, []), w')" using legacy_start by blast
  from legacy_table_valid [OF b] b show ?thesis by blast
qed

text \<open>
  C29. A validated configuration is routable: whatever connections its shards get, the constructor of
  the coordinated proxy never rejects their key ranges, only endpoints that are not distinct.
\<close>

theorem coordinated_config_routable:
  assumes "Validate conf = Ok ()" and "conf_Coordinator conf = Some co"
    and "dial_shards lib stubs (length (conf_Shards conf)) 0 [coord] (conf_Shards conf) w = (Ok cs, conns, w')"
  shows "accepted (check_shards stubs coord cs 0 [] cs) \<or>
    check_shards stubs coord cs 0 [] cs = Err (Errorf ''coordinator and shard endpoints must be distinct'')"
proof -
  from assms(1,2) have b: "conf_Backend conf = None"
    by (auto simp: Validate_def res_bind_eq_Ok split: option.splits if_splits)
  note v = Validate_shards_mode(2) [OF assms(1) b]
  obtain new where new: "length cs = length (conf_Shards conf)"
    "\<forall>j < length (conf_Shards conf). cs ! j = coordinated_shard (length (conf_Shards conf)) j (conf_Shards conf ! j) (new ! j)"
    using dial_shards_Ok [OF assms(3)] by auto
  show ?thesis
    by (rule check_shards_placed) (use validated_ranges [OF v new] new in auto)
qed

definition coord_conf :: Configurations where
  "coord_conf = two_shards\<lparr>conf_Coordinator := Some \<lparr>Endpoint = ''coord'', backend_TLS = no_tls\<rparr>\<rparr>"

lemma coord_conf_valid: "Validate coord_conf = Ok ()"
  by (simp add: coord_conf_def Validate_def two_shards_def TLS_Validate_def no_tls_def IsEnabled_def conf_start_def
      conf_end_def noEnd_def)

theorem coordinated_config_routable_witness:
  "\<exists>cs conns w'. dial_shards no_tls_lib free_dial 2 0 [0] (conf_Shards two_shards) mem_empty = (Ok cs, conns, w') \<and>
     (accepted (check_shards free_dial 0 cs 0 [] cs) \<or>
      check_shards free_dial 0 cs 0 [] cs = Err (Errorf ''coordinator and shard endpoints must be distinct''))"
proof -
  have "dial no_tls_lib free_dial ep no_tls w = (Ok 1, w)" for ep w
    by (simp add: dial_def TransportCredentials_def TLS_Validate_def no_tls_def IsEnabled_def free_dial_def)
  then obtain cs conns w' where d: "dial_shards no_tls_lib free_dial 2 0 [0] (conf_Shards two_shards) mem_empty = (Ok cs, conns, w')"
    by (auto simp: two_shards_def)
  moreover have "conf_Shards coord_conf = conf_Shards two_shards" "length (conf_Shards two_shards) = 2"
    by (simp_all add: coord_conf_def two_shards_def)
  ultimately show ?thesis
    using coordinated_config_routable [OF coord_conf_valid, of _ no_tls_lib free_dial 0 mem_empty cs conns w']
    by (simp add: coord_conf_def)
qed

text \<open>
  C30. A start that fails leaves no connection open that was not open before, in the backend and the
  coordinated mode.
\<close>

theorem failed_start_closes:
  assumes "connection_laws lib stubs opened"
    and "conf_Backend conf \<noteq> None \<or> conf_Coordinator conf \<noteq> None"
    and "buildBackends lib stubs g sha256 ctx conf w = (Err e, w')"
  shows "opened w' \<subseteq> opened w"
proof (cases "Validate conf")
  case (Ok u)
  show ?thesis
  proof (cases "conf_Coordinator conf")
    case None
    then obtain b where b: "conf_Backend conf = Some b" using assms(2) by auto
    let ?d = "dial lib stubs (Endpoint b) (backend_TLS b)"
    have "buildBackends lib stubs g sha256 ctx conf =
        io_bind ?d (\<lambda>conn. io_return (ServeBackend (NewBackendProxy stubs conn), [conn]))"
      using Ok None b
      by (simp add: buildBackends_def dial_def io_bind_def fun_eq_iff split: prod.splits result.splits)
    with assms(3) have "?d w = (Err e, w')"
      by (auto simp: io_bind_def io_return_def split: prod.splits result.splits)
    from opened_dial [OF assms(1) this] show ?thesis by simp
  next
    case (Some co)
    with Ok assms(3) opened_build_coordinated [OF assms(1)] show ?thesis
      by (simp add: buildBackends_def)
  qed
qed (use assms(3) in \<open>auto simp: buildBackends_def io_bind_def io_lift_def io_err_def\<close>)

text \<open>A coordinator that can be dialed and shards that cannot.\<close>

definition failing_dial :: "(nat, unit, unit, nat set) Stubs" where
  "failing_dial =
     \<lparr>grpc_Dial = (\<lambda>ep _ w. if ep = ''coord'' then (Ok 7, insert 7 w) else (Err (Status Unavailable ''down''), w)),
      conn_Close = (\<lambda>c w. w - {c}), conn_Target = (\<lambda>_. []),
      NewKVClient = (\<lambda>_. mem_client (\<lambda>_. False) (\<lambda>_. []) (\<lambda>_ w. w)),
      NewWatchClient = (\<lambda>_. \<lparr>Watch_Watch = (\<lambda>_. io_err EOF)\<rparr>),
      NewLeaseClient = (\<lambda>_. \<lparr>Lease_Grant = (\<lambda>_ _ w. ((mem_down, (), ()), w)),
         Lease_Revoke = (\<lambda>_ _ w. ((mem_down, (), ()), w)), Lease_TimeToLive = (\<lambda>_ _ w. ((mem_down, (), ()), w)),
         Lease_Leases = (\<lambda>_ _ w. ((mem_down, (), ()), w)), Lease_KeepAlive = (\<lambda>_. io_err EOF)\<rparr>),
      NewMaintenanceClient = (\<lambda>_. (let down = (\<lambda>_ _ w. ((mem_down, (), ()), w)) in
         \<lparr>Maint_Alarm = down, Maint_Status = down, Maint_Defragment = down, Maint_Hash = down, Maint_HashKV = down,
          Maint_MoveLeader = down, Maint_Downgrade = down, Maint_Snapshot = (\<lambda>_ _. io_err EOF)\<rparr>))\<rparr>"

definition set_grpc :: "(unit, unit, nat set) Grpc" where
  "set_grpc =
     \<lparr>FromIncomingContext = (\<lambda>_. ()), FromOutgoingContext = (\<lambda>_. ()), NewOutgoingContext = (\<lambda>c _. c),
      MD_Join = (\<lambda>_ _. ()), MD_len = (\<lambda>_. 0), grpc_SetHeader = (\<lambda>_ _ w. w), grpc_SetTrailer = (\<lambda>_ _ w. w)\<rparr>"

definition set_tls_lib :: "(unit, unit, nat set) TlsLib" where
  "set_tls_lib =
     \<lparr>LoadX509KeyPair = (\<lambda>_ _. io_err EOF), os_ReadFile = (\<lambda>_. io_err EOF), AppendCertsFromPEM = (\<lambda>_. None),
      NewTLS = (\<lambda>_. [])\<rparr>"

lemma failing_dial_laws: "connection_laws set_tls_lib failing_dial (\<lambda>w. w)"
  by (auto simp: connection_laws_def set_tls_lib_def failing_dial_def mem_client_def split: if_splits)

lemma failing_start:
  "\<exists>e. buildBackends set_tls_lib failing_dial set_grpc (\<lambda>_. []) () coord_conf {} = (Err e, {})"
proof -
  have tc: "TransportCredentials set_tls_lib no_tls False w = (Ok Insecure, w)" for w
    by (simp add: TransportCredentials_def TLS_Validate_def no_tls_def IsEnabled_def)
  have "conf_Coordinator coord_conf = Some \<lparr>Endpoint = ''coord'', backend_TLS = no_tls\<rparr>"
    by (simp add: coord_conf_def)
  then show ?thesis
    by (simp add: buildBackends_def coord_conf_valid build_coordinated_def dial_def io_bind_step tc)
      (simp add: failing_dial_def coord_conf_def two_shards_def dial_def io_bind_step tc closeAll_def)
qed

theorem failed_start_closes_witness:
  "\<exists>e w'. buildBackends set_tls_lib failing_dial set_grpc (\<lambda>_. []) () coord_conf {} = (Err e, w') \<and> w' \<subseteq> {}"
proof -
  obtain e where b: "buildBackends set_tls_lib failing_dial set_grpc (\<lambda>_. []) () coord_conf {} = (Err e, {})"
    using failing_start by blast
  from failed_start_closes [OF failing_dial_laws _ b] b show ?thesis by (auto simp: coord_conf_def)
qed

text \<open>The certificate and the authorities of a TLS configuration, and the files they were read from.\<close>

definition certificate_from ::
  "('cert, 'pool, 'w) TlsLib \<Rightarrow> TLS \<Rightarrow> ('cert, 'pool) tls_Config \<Rightarrow> 'w \<Rightarrow> 'w \<Rightarrow> bool"
where
  "certificate_from lib c t w w' \<longleftrightarrow>
     (if CertFile c = [] then tc_Certificates t = [] \<and> w' = w
      else \<exists>cert. LoadX509KeyPair lib (CertFile c) (KeyFile c) w = (Ok cert, w') \<and> tc_Certificates t = [cert])"

definition authorities_from ::
  "('cert, 'pool, 'w) TlsLib \<Rightarrow> TLS \<Rightarrow> bool \<Rightarrow> ('cert, 'pool) tls_Config \<Rightarrow> 'w \<Rightarrow> 'w \<Rightarrow> bool"
where
  "authorities_from lib c frontend t w w' \<longleftrightarrow>
     (if CAFile c = [] then tc_ClientCAs t = None \<and> tc_RootCAs t = None \<and> w' = w
      else \<exists>pem pool. os_ReadFile lib (CAFile c) w = (Ok pem, w') \<and> AppendCertsFromPEM lib pem = Some pool \<and>
        (tc_ClientCAs t, tc_RootCAs t) = (if frontend then (Some pool, None) else (None, Some pool)))"

lemma tls_config_Ok:
  assumes "tls_config lib c frontend w = (Ok t, w')"
  shows "tc_MinVersion t = VersionTLS12 \<and> tc_ServerName t = ServerName c \<and>
    tc_ClientAuth t = (if frontend \<and> ClientCertAuth c then RequireAndVerifyClientCert else NoClientCert) \<and>
    (\<exists>w1. certificate_from lib c t w w1 \<and> authorities_from lib c frontend t w1 w')"
proof -
  let ?t0 = "\<lparr>tc_MinVersion = VersionTLS12, tc_ServerName = ServerName c, tc_Certificates = [],
      tc_ClientCAs = None, tc_RootCAs = None, tc_ClientAuth = NoClientCert\<rparr>"
  obtain t1 t2 w1 where
    t1: "(if CertFile c \<noteq> []
          then io_bind (io_wrap ''load TLS certificate'' (LoadX509KeyPair lib (CertFile c) (KeyFile c)))
                 (\<lambda>cert. io_return (?t0\<lparr>tc_Certificates := [cert]\<rparr>))
          else io_return ?t0) w = (Ok t1, w1)"
    and t2: "(if CAFile c \<noteq> []
          then io_bind (io_wrap ''read TLS CA'' (os_ReadFile lib (CAFile c))) (\<lambda>pem.
                 case AppendCertsFromPEM lib pem of
                   None \<Rightarrow> io_err (Errorf ''TLS CA file contains no certificates'')
                 | Some pool \<Rightarrow> io_return (if frontend then t1\<lparr>tc_ClientCAs := Some pool\<rparr>
                                         else t1\<lparr>tc_RootCAs := Some pool\<rparr>))
          else io_return t1) w1 = (Ok t2, w')"
    and t: "t = (if frontend \<and> ClientCertAuth c then t2\<lparr>tc_ClientAuth := RequireAndVerifyClientCert\<rparr> else t2)"
    using assms unfolding tls_config_def Let_def io_bind_Ok_iff [where f = "\<lambda>t. io_bind _ _"]
    by (auto simp only: io_bind_Ok_iff io_return_eq result.inject)
  have cert: "\<exists>certs. t1 = ?t0\<lparr>tc_Certificates := certs\<rparr> \<and> certificate_from lib c t1 w w1"
    using t1 by (cases "CertFile c = []") (auto simp: certificate_from_def io_bind_Ok_iff)
  have "if CAFile c = [] then t2 = t1 \<and> w' = w1
      else \<exists>pem pool. os_ReadFile lib (CAFile c) w1 = (Ok pem, w') \<and> AppendCertsFromPEM lib pem = Some pool \<and>
        t2 = (if frontend then t1\<lparr>tc_ClientCAs := Some pool\<rparr> else t1\<lparr>tc_RootCAs := Some pool\<rparr>)"
    using t2 by (cases "CAFile c = []") (auto simp: io_bind_Ok_iff split: option.splits)
  with cert have "authorities_from lib c frontend t w1 w'" "certificate_from lib c t w w1"
    "tc_MinVersion t = VersionTLS12 \<and> tc_ServerName t = ServerName c \<and>
     tc_ClientAuth t = (if frontend \<and> ClientCertAuth c then RequireAndVerifyClientCert else NoClientCert)"
    unfolding t by (auto simp: authorities_from_def certificate_from_def split: if_splits)
  then show ?thesis by blast
qed

text \<open>
  C31. Transport security is not weakened. Credentials for an enabled TLS section are never plaintext, demand at
  least TLS 1.2, carry the certificate loaded from \<open>CertFile\<close> and \<open>KeyFile\<close>, and verify the peer against the
  authorities in the contents of \<open>CAFile\<close>: clients on a listener, the server (under the configured name) on a
  backend connection. A listener always has a certificate, and when it asks for client authentication it
  requires and verifies client certificates against a configured authority.
\<close>

theorem credentials_secure:
  assumes "TransportCredentials lib c frontend w = (Ok creds, w')" and "IsEnabled c"
  shows "\<exists>t w1. creds = TLSCreds (NewTLS lib t) \<and> tc_MinVersion t = VersionTLS12 \<and> tc_ServerName t = ServerName c \<and>
    certificate_from lib c t w w1 \<and> authorities_from lib c frontend t w1 w' \<and>
    tc_ClientAuth t = (if frontend \<and> ClientCertAuth c then RequireAndVerifyClientCert else NoClientCert) \<and>
    (frontend \<longrightarrow> CertFile c \<noteq> [] \<and> (ClientCertAuth c \<longrightarrow> CAFile c \<noteq> []))"
proof -
  from assms have v: "TLS_Validate c frontend = Ok ()"
    and t: "\<exists>t. tls_config lib c frontend w = (Ok t, w') \<and> creds = TLSCreds (NewTLS lib t)"
    by (auto simp: TransportCredentials_def io_bind_Ok_iff)
  have "frontend \<longrightarrow> CertFile c \<noteq> [] \<and> (ClientCertAuth c \<longrightarrow> CAFile c \<noteq> [])"
    using v assms(2) by (auto simp: TLS_Validate_def split: if_splits)
  with t tls_config_Ok show ?thesis by metis
qed

definition mutual_tls :: TLS where
  "mutual_tls = \<lparr>Enabled = True, CertFile = ''c'', KeyFile = ''k'', CAFile = ''a'', ServerName = [], ClientCertAuth = True\<rparr>"

text \<open>Certificates are the names of their files, a pool is the file it was read from.\<close>

definition name_tls_lib :: "(string \<times> string, string, unit) TlsLib" where
  "name_tls_lib =
     \<lparr>LoadX509KeyPair = (\<lambda>c k. io_return (c, k)), os_ReadFile = io_return, AppendCertsFromPEM = Some,
      NewTLS = (\<lambda>t. if tc_ClientAuth t = RequireAndVerifyClientCert
         then concat (map fst (tc_Certificates t)) @ (case tc_ClientCAs t of None \<Rightarrow> [] | Some pool \<Rightarrow> pool) else [])\<rparr>"

theorem credentials_secure_witness:
  "TransportCredentials name_tls_lib mutual_tls True () = (Ok (TLSCreds ''ca''), ())"
proof -
  obtain creds where c: "TransportCredentials name_tls_lib mutual_tls True () = (Ok creds, ())"
    by (simp add: TransportCredentials_def TLS_Validate_def mutual_tls_def IsEnabled_def tls_config_def name_tls_lib_def
        Let_def io_bind_def io_wrap_def io_return_def io_lift_def)
  have "IsEnabled mutual_tls" by (simp add: mutual_tls_def IsEnabled_def)
  with credentials_secure [OF c] c show ?thesis
    by (auto simp: name_tls_lib_def certificate_from_def authorities_from_def mutual_tls_def)
qed

section \<open>Routing of the legacy mode\<close>

text \<open>
  C23. A range lookup returns exactly the shards that own a key of the range: the early exit of the
  loop loses none, and no other shard is asked. A single key has exactly one shard.
\<close>

theorem range_reaches_owners:
  assumes "valid_shards shards"
  shows "(in_range key key rangeEnd \<longrightarrow>
      set (GetShardClis shards key rangeEnd) = {shard_owner shards k | k. in_range k key rangeEnd}) \<and>
    GetShardClis shards key [] = [shard_owner shards key]"
  using default_configs.range_owners [OF assms, of key rangeEnd] default_configs.single_key [OF assms, of key]
  by (simp add: NewDefaultShardingConfigs_def)

theorem range_reaches_owners_witness:
  "GetShardClis legacy_shards ''x'' [] = [legacy_cli 1] \<and>
   set (GetShardClis legacy_shards ''b'' ''n'') = {shard_owner legacy_shards k | k. in_range k ''b'' ''n''}"
  using range_reaches_owners [OF legacy_shards_valid, of "''b''" "''n''"]
    range_reaches_owners [OF legacy_shards_valid, of "''x''" "[]"]
  by (simp add: legacy_owner in_range_def noEnd_def)

text \<open>
  C24. A put goes to the shard that owns its key and to no other, and a transaction goes, unchanged and
  as a whole, to the shard that owns the key of its first operation (the first shard when it has no
  operation), also when that operation is a nested transaction.
\<close>

theorem writes_go_to_owner:
  assumes "valid_shards shards" and "kvp_configs s = NewDefaultShardingConfigs shards"
  shows "KVProxy_Put s ctx put = rpc_call (KV_Put (sc_KV (shard_owner shards (pr_Key put)))) ctx put \<and>
    (leading_key txn = Some (Some k) \<longrightarrow>
       KVProxy_Txn s ctx txn = rpc_call (KV_Txn (sc_KV (shard_owner shards k))) ctx txn) \<and>
    (leading_key txn = Some None \<longrightarrow>
       KVProxy_Txn s ctx txn = rpc_call (KV_Txn (sc_KV (GetClient (hd shards)))) ctx txn)"
proof -
  have "hd (cfg_GetAllShardClis (NewDefaultShardingConfigs shards)) = GetClient (hd shards)"
    using valid_shards_nonempty [OF assms(1)]
    by (simp add: NewDefaultShardingConfigs_def GetAllShardClis_def hd_map)
  then show ?thesis
    using default_configs.put_goes_to_owner [OF assms] default_configs.txn_goes_to_owner [OF assms]
      default_configs.empty_txn_goes_to_first [OF assms] by simp
qed

theorem writes_go_to_owner_witness:
  "KVProxy_Txn legacy_proxy () (TxnRequest [] [] [Some (RequestPut (Some (put_request ''x'' ''v'')))]) =
     rpc_call (KV_Txn (legacy_kv 1)) () (TxnRequest [] [] [Some (RequestPut (Some (put_request ''x'' ''v'')))])"
  using writes_go_to_owner [OF legacy_shards_valid legacy_proxy_sel(1), of "()" _
      "TxnRequest [] [] [Some (RequestPut (Some (put_request ''x'' ''v'')))]" "''x''"]
  by (simp add: legacy_owner legacy_cli_def put_request_def)

text \<open>
  C32. A delete over several shards that all answer returns the sum of their counts, in 64-bit
  arithmetic, whatever the order in which the goroutines run.
\<close>

theorem delete_sums_shards:
  assumes "kvp_respFilter s = DefaultResponseFilter"
    and "clis = cfg_GetShardClis (kvp_configs s) (dr_Key req) (dr_RangeEnd req)" "1 < length clis"
    and "\<forall>cli \<in> set clis. answers (rpc_call (KV_DeleteRange (sc_KV cli)) ctx req)"
    and "KVProxy_DeleteRange s sched ctx req w = Some (res, w')"
  shows "\<exists>rs d'. res = Ok (Some d') \<and> length rs = length clis \<and>
    (\<forall>i < length clis. answer_of (rpc_call (KV_DeleteRange (sc_KV (clis ! i))) ctx req) (rs ! i)) \<and>
    ds_Deleted d' = fold (\<lambda>x n. add64 n (ds_Deleted x)) (tl rs) (ds_Deleted (hd rs))"
proof (rule default_filter.delete_sum_all_shards [OF assms])
  fix d ds d'
  assume "res = Ok (Some d')" "length (d # ds) = length clis"
    "ds_Deleted d' = fold (\<lambda>x n. add64 n (ds_Deleted x)) ds (ds_Deleted d)"
    "\<And>i. i < length clis \<Longrightarrow>
       answer_of (rpc_call (KV_DeleteRange (sc_KV (clis ! i))) ctx req) ((d # ds) ! i)"
  then show ?thesis by (intro exI [of _ "d # ds"] exI [of _ d']) simp
qed

definition legacy_delete :: DeleteRangeRequest where
  "legacy_delete = \<lparr>dr_Key = ''a'', dr_RangeEnd = ''z'', dr_PrevKv = False\<rparr>"

lemma legacy_both:
  "cfg_GetShardClis (kvp_configs legacy_proxy) (dr_Key legacy_delete) (dr_RangeEnd legacy_delete) =
     [legacy_cli 0, legacy_cli 1]"
  by (simp add: legacy_proxy_sel NewDefaultShardingConfigs_def GetShardClis_def legacy_shards_def Contains_iff
      legacy_delete_def GetClient_def noEnd_def)

lemma legacy_delete_answers: "answers (rpc_call (KV_DeleteRange (sc_KV (legacy_cli i))) () q)"
  by (simp add: answers_def rpc_call_def legacy_cli_def legacy_kv_def mem_client_def)

theorem delete_sums_shards_witness:
  "\<exists>w' (rs :: DeleteRangeResponse list) d'. KVProxy_DeleteRange legacy_proxy racing () legacy_delete mem_empty = Some (Ok (Some d'), w') \<and>
     length rs = 2 \<and> ds_Deleted d' = fold (\<lambda>x n. add64 n (ds_Deleted x)) (tl rs) (ds_Deleted (hd rs))"
proof -
  obtain ra wa rb wb where
    "rpc_call (KV_DeleteRange (sc_KV (legacy_cli 0))) () legacy_delete mem_empty = (Ok ra, wa)"
    "rpc_call (KV_DeleteRange (sc_KV (legacy_cli 1))) () legacy_delete wa = (Ok rb, wb)"
    using legacy_delete_answers unfolding answers_def by meson
  then obtain res w' where r: "KVProxy_DeleteRange legacy_proxy racing () legacy_delete mem_empty = Some (res, w')"
    unfolding KVProxy_DeleteRange_def legacy_both Let_def
    by (simp add: group_wait_def GetGroupRunner_def racing_def numeral_2_eq_2)
  from delete_sums_shards [OF legacy_proxy_sel(2) legacy_both [symmetric] _ _ r] legacy_delete_answers
  obtain rs :: "DeleteRangeResponse list" and d' where "res = Ok (Some d')" "length rs = 2"
    "ds_Deleted d' = fold (\<lambda>x n. add64 n (ds_Deleted x)) (tl rs) (ds_Deleted (hd rs))"
    by (auto simp: numeral_2_eq_2)
  with r show ?thesis by blast
qed

text \<open>
  C33. The goroutines of a range share one error variable: when two shards are asked, the first fails
  and the second answers, there is an interleaving in which the error is lost and the handler panics
  on the missing answer instead of returning the error.
\<close>

theorem range_error_lost:
  assumes "kvp_respFilter s = DefaultResponseFilter"
    and "cfg_GetShardClis (kvp_configs s) (rr_Key req) (rr_RangeEnd req) = [a, b]"
    and "rpc_call (KV_Range (sc_KV a)) ctx req w = (Err e, w1)"
    and "rpc_call (KV_Range (sc_KV b)) ctx req w1 = (Ok r, w2)"
    and "0 < rs_Count r \<or> rs_More r \<or> 0 < rr_Limit req"
  shows "KVProxy_Range s racing ctx req w = Some (Panic ''nil pointer dereference'', w2) \<and>
    KVProxy_Range s (serial 2) ctx req w = Some (Err (Wrap (range_msg a) e), w2)"
proof -
  let ?calls = "[rpc_call (KV_Range (sc_KV a)) ctx req, rpc_call (KV_Range (sc_KV b)) ctx req]"
  have "FilterRange req [None, Some r] = Panic ''nil pointer dereference''"
    using assms(5) by (cases "0 < rs_Count r"; cases "0 < rr_Limit req") (auto simp: FilterRange_def FilterRange_merge_def Let_def)
  then have "KVProxy_Range s racing ctx req w = Some (Panic ''nil pointer dereference'', w2)"
    using assms(1,2) group_wait_racing [where a = "rpc_call (KV_Range (sc_KV a)) ctx req"
        and b = "rpc_call (KV_Range (sc_KV b)) ctx req", OF assms(3,4)]
    by (simp add: KVProxy_Range_def DefaultResponseFilter_def)
  moreover have "group_wait ?calls (\<lambda>i. range_msg ([a, b] ! i)) (serial 2) w = Some (Err (Wrap (range_msg a) e), w2)"
    using assms(3,4) by (simp add: group_wait_def GetGroupRunner_def serial_def numeral_2_eq_2)
  ultimately show ?thesis using assms(1,2) by (simp add: KVProxy_Range_def)
qed

text \<open>A table whose first shard is down.\<close>

definition down_cli :: "(unit, unit, mem) ShardClientImpl" where
  "down_cli = (legacy_cli 0)\<lparr>sc_KV := (legacy_kv 0)\<lparr>KV_Range := (\<lambda>_ _ w. ((mem_down, (), ()), w))\<rparr>\<rparr>"

definition down_proxy :: "(unit, unit, mem) KVProxy" where
  "down_proxy =
     \<lparr>kvp_configs = \<lparr>cfg_GetShardClis = (\<lambda>_ _. [down_cli, legacy_cli 1]), cfg_GetShardCli = (\<lambda>_. Ok down_cli),
        cfg_GetAllShardClis = [down_cli, legacy_cli 1]\<rparr>, kvp_respFilter = DefaultResponseFilter\<rparr>"

theorem range_error_lost_witness:
  "\<exists>w'. KVProxy_Range down_proxy racing () ((get_request ''a'')\<lparr>rr_RangeEnd := ''z'', rr_Limit := 1\<rparr>) mem_empty =
     Some (Panic ''nil pointer dereference'', w')"
proof -
  let ?q = "(get_request ''a'')\<lparr>rr_RangeEnd := ''z'', rr_Limit := 1\<rparr>"
  have a: "rpc_call (KV_Range (sc_KV down_cli)) () ?q mem_empty = (Err (Status Unavailable ''down''), mem_empty)"
    by (simp add: rpc_call_def down_cli_def mem_down_def)
  obtain r where b: "rpc_call (KV_Range (sc_KV (legacy_cli 1))) () ?q mem_empty = (Ok r, mem_empty)"
    by (simp add: rpc_call_def legacy_cli_def legacy_kv_def mem_client_def)
  show ?thesis using range_error_lost [OF _ _ a b, of down_proxy] by (auto simp: down_proxy_def)
qed

section \<open>Merging answers\<close>

text \<open>
  Without a limit and when the first shard has keys, merging concatenates the keys of the shards
  in shard order, adds up their counts in 64-bit arithmetic, and reports more keys when any shard does.
\<close>

theorem FilterRange_concat:
  assumes "rr_Limit req \<le> 0" and "rs_Kvs r \<noteq> []"
  shows "FilterRange req (map Some (r # rs)) =
    Ok (Some (r\<lparr>rs_Kvs := rs_Kvs r @ range_kvs rs, rs_More := rs_More r \<or> (\<exists>x \<in> set rs. rs_More x),
                rs_Count := range_count (rs_Count r) rs\<rparr>))"
proof (cases rs)
  case Nil
  then show ?thesis by (simp add: FilterRange_def range_kvs_def range_count_def)
next
  case (Cons x xs)
  with FilterRange_loop_unlimited [OF assms, of rs] show ?thesis by (simp add: FilterRange_def)
qed

definition one_kv :: "string \<Rightarrow> RangeResponse" where
  "one_kv k = \<lparr>rs_Header = None, rs_Kvs = [mem_kv False (k, ''v'')], rs_More = False, rs_Count = 1\<rparr>"

definition no_kv :: RangeResponse where
  "no_kv = \<lparr>rs_Header = None, rs_Kvs = [], rs_More = False, rs_Count = 0\<rparr>"

theorem FilterRange_concat_witness:
  "FilterRange (get_request ''a'') (map Some [one_kv ''b'', no_kv, one_kv ''x'']) =
     Ok (Some \<lparr>rs_Header = None, rs_Kvs = [mem_kv False (''b'', ''v''), mem_kv False (''x'', ''v'')],
               rs_More = False, rs_Count = 2\<rparr>)"
  using FilterRange_concat [of "get_request ''a''" "one_kv ''b''" "[no_kv, one_kv ''x'']"]
  by (simp add: get_request_def one_kv_def no_kv_def range_kvs_def range_count_def add64_def wrap64_def)

text \<open>
  C35. When the first shard has no key in the range and the second has some, the keys of the second
  appear twice in the answer, while its count is right.
\<close>

theorem FilterRange_duplicates:
  assumes "rr_Limit req \<le> 0" and "rs_Kvs r = []" "rs_Count r = 0" and "0 < rs_Count x" "is_int64 (rs_Count x)"
  shows "\<exists>t. FilterRange req [Some r, Some x] = Ok (Some t) \<and> rs_Kvs t = rs_Kvs x @ rs_Kvs x \<and> rs_Count t = rs_Count x"
  using assms by (simp add: FilterRange_def FilterRange_merge_double add64_exact)

theorem FilterRange_duplicates_witness:
  "\<exists>t. FilterRange (get_request ''a'') [Some no_kv, Some (one_kv ''x'')] = Ok (Some t) \<and>
     map kv_Key (rs_Kvs t) = [''x'', ''x'']"
  using FilterRange_duplicates [of "get_request ''a''" no_kv "one_kv ''x''"]
  by (auto simp: get_request_def no_kv_def one_kv_def is_int64_def mem_kv_def)

text \<open>
  A limit is not a bound on the merged answer: the answer of a shard is appended whole whenever the
  count so far is below the limit.
\<close>

theorem FilterRange_exceeds_limit:
  assumes "rs_Count r < rr_Limit req" and "rs_Kvs r \<noteq> []" and "0 < rs_Count x"
  shows "\<exists>t. FilterRange req [Some r, Some x] = Ok (Some t) \<and>
    length (rs_Kvs t) = length (rs_Kvs r) + length (rs_Kvs x)"
  using assms by (cases "0 < rr_Limit req") (simp_all add: FilterRange_def FilterRange_merge_append Let_def)

theorem FilterRange_exceeds_limit_witness:
  "\<exists>t. FilterRange ((get_request ''a'')\<lparr>rr_Limit := 2\<rparr>)
       [Some (one_kv ''b''), Some ((one_kv ''x'')\<lparr>rs_Kvs := [mem_kv False (''x'', ''v''), mem_kv False (''y'', ''v'')], rs_Count := 2\<rparr>)] =
       Ok (Some t) \<and> length (rs_Kvs t) = 3"
  using FilterRange_exceeds_limit [of "one_kv ''b''" "(get_request ''a'')\<lparr>rr_Limit := 2\<rparr>"
      "(one_kv ''x'')\<lparr>rs_Kvs := [mem_kv False (''x'', ''v''), mem_kv False (''y'', ''v'')], rs_Count := 2\<rparr>"]
  by (auto simp: one_kv_def)

text \<open>
  Merging deletes adds up the counts in 64-bit arithmetic and keeps nothing else of the shards after
  the first: the previous values they returned are dropped.
\<close>

theorem FilterDeleteRange_sum:
  "FilterDeleteRange (map Some (d # ds)) =
     Ok (Some (d\<lparr>ds_Deleted := fold (\<lambda>x n. add64 n (ds_Deleted x)) ds (ds_Deleted d)\<rparr>))"
  by (simp add: FilterDeleteRange_def FilterDeleteRange_loop_Some)

section \<open>Leases\<close>

text \<open>
  C36. The lease identifiers one generator gives (successive calls of \<open>NextInt64\<close>) do not repeat within
  \<open>2 ^ 48\<close> draws, and every one of them is a non-negative 64-bit integer.
\<close>

theorem lease_ids_distinct:
  assumes "n \<le> 2 ^ 48"
  shows "length (draw n (NewGenerator memberID now)) = n \<and> distinct (draw n (NewGenerator memberID now)) \<and>
    (\<forall>ident \<in> set (draw n (NewGenerator memberID now)). 0 \<le> ident \<and> ident < 2 ^ 63)"
  using draw_distinct [OF NewGenerator_inv assms] draw_range by auto

theorem lease_ids_distinct_witness:
  "distinct (draw 1000 (NewGenerator 0 1700000000000000000)) \<and> 0 \<le> draw 1000 (NewGenerator 0 1700000000000000000) ! 999"
  using lease_ids_distinct [of 1000 0 1700000000000000000] by (auto intro: nth_mem)

text \<open>
  C37. A grant that succeeds was carried out by every shard, in shard order, under one identifier (the one
  asked for, or the next of the generator when it was zero), and returns the answer of the first shard.
\<close>

theorem grant_reaches_all:
  assumes "LeaseGrant p ctx req (w, g) = (Ok res, (w', g'))"
    and "req' = (if lgr_ID req = 0 then req\<lparr>lgr_ID := fst (NextInt64 g)\<rparr> else req)"
    and "establishes holds (\<lambda>cli. rpc_call (Lease_Grant (sc_Lease cli)) ctx req') (cfg_GetAllShardClis (lp_configs p))"
    and "cfg_GetAllShardClis (lp_configs p) \<noteq> []"
  shows "(\<forall>cli \<in> set (cfg_GetAllShardClis (lp_configs p)). holds w' cli) \<and>
    (\<exists>r w1. rpc_call (Lease_Grant (sc_Lease (hd (cfg_GetAllShardClis (lp_configs p))))) ctx req' w = (Ok r, w1) \<and> res = Some r)"
proof -
  have b: "broadcast (\<lambda>cli. rpc_call (Lease_Grant (sc_Lease cli)) ctx req') (cfg_GetAllShardClis (lp_configs p)) None w = (Ok res, w')"
    using assms(1,2) by (auto simp: LeaseGrant_def Let_def split_beta prod_eq_iff split: if_splits)
  from broadcast_establishes [OF assms(3) b] broadcast_first(2) [OF b refl assms(4)] show ?thesis by blast
qed

text \<open>
  C40. A successful question for the time to live of a lease was answered by every shard; the proxy reports the
  least time of these answers, and the keys of all of them, in shard order.
\<close>

theorem time_to_live_least:
  assumes "LeaseTimeToLive p ctx req w = (Ok res, w')" and "cfg_GetAllShardClis (lp_configs p) \<noteq> []"
  shows "\<exists>rs t. res = Some t \<and>
    list_all2 (\<lambda>cli r. answer_of (rpc_call (Lease_TimeToLive (sc_Lease cli)) ctx req) r)
      (cfg_GetAllShardClis (lp_configs p)) rs \<and>
    lts_TTL t = Min (lts_TTL ` set rs) \<and> lts_Keys t = concat (map lts_Keys rs) \<and> lts_ID t = lts_ID (hd rs)"
proof -
  let ?call = "\<lambda>cli. rpc_call (Lease_TimeToLive (sc_Lease cli)) ctx req"
  obtain c cs where cs: "cfg_GetAllShardClis (lp_configs p) = c # cs" using assms(2) by (cases "cfg_GetAllShardClis (lp_configs p)") auto
  with assms(1) obtain r w1 where r: "?call c w = (Ok r, w1)"
    and rest: "LeaseTimeToLive_loop ?call cs (Some (merge_ttl None r)) w1 = (Ok res, w')"
    by (auto simp: LeaseTimeToLive_def io_bind_Ok_iff)
  show ?thesis
  proof (rule LeaseTimeToLive_loop_merge [where call = ?call, OF rest])
    fix rs t assume "res = Some t" "list_all2 (\<lambda>cli r. answer_of (?call cli) r) cs rs"
      "lts_TTL t = fold (\<lambda>r n. min n (lts_TTL r)) rs (lts_TTL (merge_ttl None r))"
      "lts_Keys t = lts_Keys (merge_ttl None r) @ concat (map lts_Keys rs)" "lts_ID t = lts_ID (merge_ttl None r)"
    with cs answer_ofI [where c = "?call c", OF r] show ?thesis
      by (intro exI [of _ "r # rs"] exI [of _ t]) (auto simp: fold_min_eq_Min)
  qed
qed

text \<open>Shards that record the leases they grant, with a time to live that differs by shard.\<close>

type_synonym lease_world = "(int \<times> int) list"

definition lease_client :: "int \<Rightarrow> (unit, unit, lease_world) LeaseClient" where
  "lease_client i =
     \<lparr>Lease_Grant = (\<lambda>_ q w.
        ((Ok \<lparr>lgs_Header = None, lgs_ID = lgr_ID q, lgs_TTL = lgr_TTL q, lgs_Error = []\<rparr>, (), ()), (i, lgr_ID q) # w)),
      Lease_Revoke = (\<lambda>_ _ w. ((Ok \<lparr>lrs_Header = None\<rparr>, (), ()), w)),
      Lease_TimeToLive = (\<lambda>_ q w.
        ((Ok \<lparr>lts_Header = None, lts_ID = ltr_ID q, lts_TTL = 10 - i, lts_GrantedTTL = 10, lts_Keys = [itoi i]\<rparr>, (), ()), w)),
      Lease_Leases = (\<lambda>_ _ w. ((Ok \<lparr>lls_Header = None, lls_Leases = []\<rparr>, (), ()), w)),
      Lease_KeepAlive = (\<lambda>_. io_err EOF)\<rparr>"

definition lease_cli :: "int \<Rightarrow> (unit, unit, lease_world) ShardClientImpl" where
  "lease_cli i =
     \<lparr>shardID = i, sc_KV = mem_client (\<lambda>_. False) (\<lambda>_. []) (\<lambda>_ w. w),
      sc_Watch = \<lparr>Watch_Watch = (\<lambda>_. io_err EOF)\<rparr>, sc_Lease = lease_client i\<rparr>"

definition lease_proxy :: "(unit, unit, lease_world) LeaseProxy" where
  "lease_proxy =
     \<lparr>lp_configs = NewDefaultShardingConfigs
        [\<lparr>shard_start = [], shard_end = ''m'', shard_cli = lease_cli 0\<rparr>,
         \<lparr>shard_start = ''m'', shard_end = noEnd, shard_cli = lease_cli 1\<rparr>]\<rparr>"

lemma lease_proxy_clis: "cfg_GetAllShardClis (lp_configs lease_proxy) = [lease_cli 0, lease_cli 1]"
  by (simp add: lease_proxy_def NewDefaultShardingConfigs_def GetAllShardClis_def GetClient_def)

theorem grant_reaches_all_witness:
  "\<exists>res w' g'. LeaseGrant lease_proxy () \<lparr>lgr_TTL = 10, lgr_ID = 42\<rparr> ([], NewGenerator 0 0) = (Ok res, (w', g')) \<and>
     (0, 42) \<in> set w' \<and> (1, 42) \<in> set w'"
proof -
  let ?q = "\<lparr>lgr_TTL = 10, lgr_ID = 42\<rparr>"
  let ?call = "\<lambda>cli. rpc_call (Lease_Grant (sc_Lease cli)) () ?q"
  obtain res w' where g: "LeaseGrant lease_proxy () ?q ([], NewGenerator 0 0) = (Ok res, (w', NewGenerator 0 0))"
    by (simp add: LeaseGrant_def lease_proxy_clis rpc_call_def lease_cli_def lease_client_def io_bind_def io_return_def)
  have "establishes (\<lambda>w cli. (shardID cli, 42) \<in> set w) ?call [lease_cli 0, lease_cli 1]"
    by (simp add: establishes_def rpc_call_def lease_cli_def lease_client_def)
  then have "(\<forall>cli \<in> set [lease_cli 0, lease_cli 1]. (shardID cli, 42) \<in> set w')"
    using grant_reaches_all [OF g, of ?q "\<lambda>w cli. (shardID cli, 42) \<in> set w"] unfolding lease_proxy_clis by simp
  with g show ?thesis by (auto simp: lease_cli_def)
qed

theorem time_to_live_least_witness:
  "\<exists>t w'. LeaseTimeToLive lease_proxy () \<lparr>ltr_ID = 42, ltr_Keys = True\<rparr> [] = (Ok (Some t), w') \<and> lts_TTL t = 9"
proof -
  let ?q = "\<lparr>ltr_ID = 42, ltr_Keys = True\<rparr>"
  let ?call = "\<lambda>cli. rpc_call (Lease_TimeToLive (sc_Lease cli)) () ?q"
  obtain t where t: "LeaseTimeToLive lease_proxy () ?q [] = (Ok t, [])"
    by (simp add: LeaseTimeToLive_def lease_proxy_clis rpc_call_def lease_cli_def lease_client_def io_bind_def io_return_def)
  obtain rs t' where r: "t = Some t'" "list_all2 (\<lambda>cli r. answer_of (?call cli) r) [lease_cli 0, lease_cli 1] rs"
    "lts_TTL t' = Min (lts_TTL ` set rs)"
    using time_to_live_least [OF t] unfolding lease_proxy_clis by auto
  then obtain a b where "rs = [a, b]" "answer_of (?call (lease_cli 0)) a" "answer_of (?call (lease_cli 1)) b"
    by (auto simp: list_all2_Cons1)
  then have "lts_TTL ` set rs = {10, 9}"
    by (auto simp: answer_of_def rpc_call_def lease_cli_def lease_client_def)
  with t r show ?thesis by auto
qed

text \<open>
  C38. A keep-alive turn that succeeds has sent the client's request once on the stream of every shard, in shard order and
  opening the streams that were not open; only then it received one answer from each of these streams, all for the
  lease asked for; and it sent the client the answer with the least time to live among them.
\<close>

theorem keepalive_least:
  assumes "keepalive_turn opens send streams req w = (Ok ss, w')"
    and "opens \<noteq> []" and "length streams = length opens"
  shows "\<exists>w1 rs r v. sent_to opens streams req w ss w1 \<and> received_from ss w1 rs v \<and> send (Some r) v = (Ok (), w') \<and>
    r \<in> set rs \<and> lks_TTL r = Min (lks_TTL ` set rs) \<and> lks_ID ` set rs = {lkr_ID req}"
proof -
  from assms(1) obtain w1 response v where s: "keepalive_send_all opens streams req w = (Ok ss, w1)"
    and r: "keepalive_recv_all ss req None w1 = (Ok response, v)" and c: "send response v = (Ok (), w')"
    by (auto simp: keepalive_turn_def io_bind_Ok_iff)
  have sent: "sent_to opens streams req w ss w1" by (rule keepalive_send_all_sent [OF s assms(3)])
  then have "ss \<noteq> []" using assms(2) by (cases opens; cases streams; cases ss) simp_all
  with r show ?thesis
  proof (rule keepalive_recv_all_Min)
    fix rs x assume "response = Some x" "x \<in> set rs" "\<forall>y \<in> set rs. lks_ID y = lkr_ID req" "received_from ss w1 rs v"
      "lks_TTL x = Min (lks_TTL ` set rs)"
    moreover from this(2,3) have "lks_ID ` set rs = {lkr_ID req}" by force
    ultimately show ?thesis using sent c by blast
  qed
qed

text \<open>Two shards that record what they are sent, with times to live 7 and 5.\<close>

definition ttl_stream :: "int \<Rightarrow> (int list, unit, LeaseKeepAliveRequest, LeaseKeepAliveResponse) ClientStream" where
  "ttl_stream ttl =
     \<lparr>cs_SendMsg = (\<lambda>q w. (Ok (), lkr_ID q # w)),
      cs_RecvMsg = io_return \<lparr>lks_Header = None, lks_ID = 42, lks_TTL = ttl\<rparr>,
      cs_CloseSend = io_return (), cs_Header = io_return (), cs_Trailer = (\<lambda>_. ())\<rparr>"

definition record_ttl :: "LeaseKeepAliveResponse option \<Rightarrow> (int list, unit) io" where
  "record_ttl r w = (Ok (), (case r of None \<Rightarrow> w | Some r \<Rightarrow> lks_TTL r # w))"

lemma sent_to_two:
  "sent_to [io_return s, io_return s'] [None, None] req w ss w' \<longleftrightarrow>
     ss = [s, s'] \<and> (\<exists>w1. cs_SendMsg s req w = (Ok (), w1) \<and> cs_SendMsg s' req w1 = (Ok (), w'))"
  by (cases ss; cases "tl ss"; cases "tl (tl ss)") (auto simp: io_return_def)

lemma received_from_two:
  "received_from [s, s'] w rs w' \<longleftrightarrow>
     (\<exists>a b w1. rs = [a, b] \<and> cs_RecvMsg s w = (Ok a, w1) \<and> cs_RecvMsg s' w1 = (Ok b, w'))"
  by (cases rs; cases "tl rs"; cases "tl (tl rs)") auto

theorem keepalive_least_witness:
  "\<exists>ss. keepalive_turn [io_return (ttl_stream 7), io_return (ttl_stream 5)] record_ttl [None, None] \<lparr>lkr_ID = 42\<rparr> [] =
     (Ok ss, [5, 42, 42])"
proof -
  let ?turn = "keepalive_turn [io_return (ttl_stream 7), io_return (ttl_stream 5)] record_ttl [None, None] \<lparr>lkr_ID = 42\<rparr>"
  obtain ss w' where t: "?turn [] = (Ok ss, w')"
    by (simp add: keepalive_turn_def keepalive_send_def keepalive_recv_def ttl_stream_def record_ttl_def io_bind_def io_return_def)
  from keepalive_least [OF t] obtain w1 rs r v where "ss = [ttl_stream 7, ttl_stream 5]" "w1 = [42, 42]"
    and r: "received_from [ttl_stream 7, ttl_stream 5] w1 rs v" "lks_TTL r = Min (lks_TTL ` set rs)"
      "record_ttl (Some r) v = (Ok (), w')"
    by (auto simp: sent_to_two ttl_stream_def)
  then have "v = [42, 42]" "lks_TTL r = 5" by (auto simp: received_from_two ttl_stream_def io_return_def)
  with t r(3) show ?thesis by (auto simp: record_ttl_def)
qed

section \<open>The backend mode\<close>

text \<open>
  In the backend mode every unary call returns exactly what the backend returned, result or error,
  and the proxy adds nothing to what the call did to the backend.
\<close>

theorem backend_transparent:
  assumes "transport_laws g view"
  shows "fst (BackendProxy_Range g p ctx rng w) = fst (fst (KV_Range (bp_kv p) (backendContext g ctx) rng w)) \<and>
    view (snd (BackendProxy_Range g p ctx rng w)) = view (snd (KV_Range (bp_kv p) (backendContext g ctx) rng w)) \<and>
    fst (BackendProxy_Put g p ctx put w) = fst (fst (KV_Put (bp_kv p) (backendContext g ctx) put w)) \<and>
    view (snd (BackendProxy_Put g p ctx put w)) = view (snd (KV_Put (bp_kv p) (backendContext g ctx) put w)) \<and>
    fst (BackendProxy_Txn g p ctx txn w) = fst (fst (KV_Txn (bp_kv p) (backendContext g ctx) txn w)) \<and>
    view (snd (BackendProxy_Txn g p ctx txn w)) = view (snd (KV_Txn (bp_kv p) (backendContext g ctx) txn w)) \<and>
    fst (BackendProxy_LeaseGrant g p ctx grant w) = fst (fst (Lease_Grant (bp_lease p) (backendContext g ctx) grant w)) \<and>
    view (snd (BackendProxy_LeaseGrant g p ctx grant w)) =
      view (snd (Lease_Grant (bp_lease p) (backendContext g ctx) grant w)) \<and>
    fst (BackendProxy_Status g p ctx st w) = fst (fst (Maint_Status (bp_maintenance p) (backendContext g ctx) st w))"
  by (intro conjI fwd_Range.result_forwarded fwd_Put.result_forwarded fwd_Txn.result_forwarded
      fwd_LeaseGrant.result_forwarded fwd_Status.result_forwarded fwd_Range.view_forwarded [OF assms]
      fwd_Put.view_forwarded [OF assms] fwd_Txn.view_forwarded [OF assms] fwd_LeaseGrant.view_forwarded [OF assms])

theorem backend_transparent_witness:
  "fst (BackendProxy_Put mem_grpc (NewBackendProxy mem_stubs 0) () (put_request ''k'' ''v'') mem_empty) =
     Ok \<lparr>ps_Header = None, ps_PrevKv = None\<rparr>"
proof -
  have "fst (BackendProxy_Put mem_grpc (NewBackendProxy mem_stubs 0) () (put_request ''k'' ''v'') mem_empty) =
      fst (fst (KV_Put (bp_kv (NewBackendProxy mem_stubs 0)) (backendContext mem_grpc ()) (put_request ''k'' ''v'') mem_empty))"
    using backend_transparent [OF mem_transport] by blast
  also have "\<dots> = Ok \<lparr>ps_Header = None, ps_PrevKv = None\<rparr>"
    by (simp add: NewBackendProxy_def mem_stubs_def mem_coordinator_def mem_client_def)
  finally show ?thesis .
qed

text \<open>
  The metadata of an incoming call reaches the backend: the outgoing context of a forwarded call
  carries, for every key, the values already set for the outgoing side followed by those of the
  incoming call.
\<close>

theorem metadata_forwarded:
  assumes "metadata_laws g get"
  shows "get (FromOutgoingContext g (backendContext g ctx)) k =
    get (FromOutgoingContext g ctx) k @ get (FromIncomingContext g ctx) k"
  using assms by (rule backendContext_metadata)

definition pair_grpc :: "((string \<times> string) list \<times> (string \<times> string) list, (string \<times> string) list, unit) Grpc" where
  "pair_grpc =
     \<lparr>FromIncomingContext = fst, FromOutgoingContext = snd, NewOutgoingContext = (\<lambda>c m. (fst c, m)),
      MD_Join = (@), MD_len = length, grpc_SetHeader = (\<lambda>_ _ w. w), grpc_SetTrailer = (\<lambda>_ _ w. w)\<rparr>"

theorem metadata_forwarded_witness:
  "map snd (filter (\<lambda>e. fst e = ''auth'')
     (FromOutgoingContext pair_grpc (backendContext pair_grpc ([(''auth'', ''t1'')], [(''auth'', ''t0'')])))) = [''t0'', ''t1'']"
proof -
  have "metadata_laws pair_grpc (\<lambda>m k. map snd (filter (\<lambda>e. fst e = k) m))"
    by (simp add: metadata_laws_def pair_grpc_def)
  from metadata_forwarded [OF this, where ctx = "([(''auth'', ''t1'')], [(''auth'', ''t0'')])" and k = "''auth''"] show ?thesis
    by (simp add: pair_grpc_def)
qed

end
