(* ===== verification/Bidi_Forwarding.thy ===== *)
theory Bidi_Forwarding
  imports Backend_Proxy Machines "HOL-Library.Sublist"
begin

text \<open>
  \<open>pkg/server/backend_proxy.go\<close>, streaming part: \<open>forwardBidi\<close>, \<open>forwardResponses\<close> and the handlers
  \<open>Watch\<close>, \<open>LeaseKeepAlive\<close> and \<open>Snapshot\<close> of \<open>BackendProxy\<close>.

  \<open>forwardBidi\<close> runs two goroutines over one frontend and one backend stream. The one it starts
  moves requests from the frontend to the backend; the handler's own one moves responses back and
  then looks into the channel \<open>sendError\<close>. The state holds the program counter of each, the channel
  (its capacity is one) and the world the streams live in, together with the history of what was
  done on the streams. A schedule says which goroutine takes the next step; between two steps the
  environment may change the world in any way. A goroutine that waits for a message is one the
  schedule does not choose. A panic ends the process, and with it the run.

  The lemmas show, for every schedule and every behaviour of the two peers: messages are forwarded
  in order and without loss or duplication, and the status the handler returns is the backend's
  unless the request side failed first.
\<close>

section \<open>Definitions\<close>

record ('c, 'w, 'm, 'q, 'r) ServerStream =
  ss_Context :: 'c
  ss_RecvMsg :: "('w, 'q) io"
  ss_SendMsg :: "'r \<Rightarrow> ('w, unit) io"
  ss_SendHeader :: "'m \<Rightarrow> ('w, unit) io"
  ss_SetTrailer :: "'m \<Rightarrow> 'w \<Rightarrow> 'w"

datatype 'q request_pc =
  AtFrontRecv | AtBackSend 'q | AtCloseSend | AtFail error | AtCancel | RequestsDone

datatype ('m, 'r) response_pc =
  AtHeader | AtSendHeader 'm | AtBackRecv | AtFrontSend 'r | AtTrailer "unit result"
| AtSelect "unit result" | HandlerDone "unit result"

datatype ('m, 'q, 'r) action =
  FrontRecv "'q result" | BackSend 'q "unit result" | BackCloseSend "unit result"
| SendError error | Cancel
| BackHeader "'m result" | FrontSendHeader 'm "unit result" | BackRecv "'r result"
| FrontSend 'r "unit result" | FrontSetTrailer 'm | HandlerReturn "unit result"

record ('w, 'm, 'q, 'r) bidi =
  b_request :: "'q request_pc"
  b_response :: "('m, 'r) response_pc"
  b_sendError :: "error option"
  b_world :: 'w
  b_history :: "('m, 'q, 'r) action list"

definition did :: "('m, 'q, 'r) action \<Rightarrow> 'w \<Rightarrow> ('w, 'm, 'q, 'r) bidi \<Rightarrow> ('w, 'm, 'q, 'r) bidi" where
  "did a w s = s\<lparr>b_history := b_history s @ [a], b_world := w\<rparr>"

text \<open>The goroutine of \<open>forwardBidi\<close>; \<open>AtFail\<close> is the call of \<open>fail\<close>, which ignores EOF.\<close>

definition request_step ::
  "('c, 'w, 'm, 'q, 'r) ServerStream \<Rightarrow> ('w, 'm, 'q, 'r) ClientStream \<Rightarrow> ('w \<Rightarrow> 'w) \<Rightarrow>
   ('w, 'm, 'q, 'r) bidi \<Rightarrow> ('w, 'm, 'q, 'r) bidi option"
where
  "request_step front bk cancel s =
     (case b_request s of
        AtFrontRecv \<Rightarrow>
          (case ss_RecvMsg front (b_world s) of
             (Ok q, w) \<Rightarrow> Some (did (FrontRecv (Ok q)) w (s\<lparr>b_request := AtBackSend q\<rparr>))
           | (Err e, w) \<Rightarrow>
               Some (did (FrontRecv (Err e)) w
                      (s\<lparr>b_request := (if e = EOF then AtCloseSend else AtFail e)\<rparr>))
           | (Panic _, w) \<Rightarrow> None)
      | AtBackSend q \<Rightarrow>
          (case cs_SendMsg bk q (b_world s) of
             (Ok _, w) \<Rightarrow> Some (did (BackSend q (Ok ())) w (s\<lparr>b_request := AtFrontRecv\<rparr>))
           | (Err e, w) \<Rightarrow> Some (did (BackSend q (Err e)) w (s\<lparr>b_request := AtFail e\<rparr>))
           | (Panic _, w) \<Rightarrow> None)
      | AtCloseSend \<Rightarrow>
          (case cs_CloseSend bk (b_world s) of
             (Ok _, w) \<Rightarrow> Some (did (BackCloseSend (Ok ())) w (s\<lparr>b_request := RequestsDone\<rparr>))
           | (Err e, w) \<Rightarrow> Some (did (BackCloseSend (Err e)) w (s\<lparr>b_request := AtFail e\<rparr>))
           | (Panic _, w) \<Rightarrow> None)
      | AtFail e \<Rightarrow>
          if e = EOF then Some (s\<lparr>b_request := RequestsDone\<rparr>)
          else (case b_sendError s of
              None \<Rightarrow> Some (did (SendError e) (b_world s) (s\<lparr>b_request := AtCancel, b_sendError := Some e\<rparr>))
            | Some _ \<Rightarrow> None)
      | AtCancel \<Rightarrow> Some (did Cancel (cancel (b_world s)) (s\<lparr>b_request := RequestsDone\<rparr>))
      | RequestsDone \<Rightarrow> None)"

text \<open>
  The handler: \<open>forwardResponses\<close>, whose deferred call sets the trailer when it returns, and then the
  \<open>select\<close>. The states up to \<open>AtSelect\<close>, which holds the result, are \<open>forwardResponses\<close>.
\<close>

definition response_step ::
  "('c, 'm, 'w) Grpc \<Rightarrow> ('c, 'w, 'm, 'q, 'r) ServerStream \<Rightarrow> ('w, 'm, 'q, 'r) ClientStream \<Rightarrow>
   ('w, 'm, 'q, 'r) bidi \<Rightarrow> ('w, 'm, 'q, 'r) bidi option"
where
  "response_step g front bk s =
     (case b_response s of
        AtHeader \<Rightarrow>
          (case cs_Header bk (b_world s) of
             (Ok h, w) \<Rightarrow>
               Some (did (BackHeader (Ok h)) w
                      (s\<lparr>b_response := (if MD_len g h \<noteq> 0 then AtSendHeader h else AtBackRecv)\<rparr>))
           | (Err e, w) \<Rightarrow> Some (did (BackHeader (Err e)) w (s\<lparr>b_response := AtTrailer (Err e)\<rparr>))
           | (Panic _, w) \<Rightarrow> None)
      | AtSendHeader h \<Rightarrow>
          (case ss_SendHeader front h (b_world s) of
             (Ok _, w) \<Rightarrow> Some (did (FrontSendHeader h (Ok ())) w (s\<lparr>b_response := AtBackRecv\<rparr>))
           | (Err e, w) \<Rightarrow> Some (did (FrontSendHeader h (Err e)) w (s\<lparr>b_response := AtTrailer (Err e)\<rparr>))
           | (Panic _, w) \<Rightarrow> None)
      | AtBackRecv \<Rightarrow>
          (case cs_RecvMsg bk (b_world s) of
             (Ok r, w) \<Rightarrow> Some (did (BackRecv (Ok r)) w (s\<lparr>b_response := AtFrontSend r\<rparr>))
           | (Err e, w) \<Rightarrow>
               Some (did (BackRecv (Err e)) w
                      (s\<lparr>b_response := AtTrailer (if e = EOF then Ok () else Err e)\<rparr>))
           | (Panic _, w) \<Rightarrow> None)
      | AtFrontSend r \<Rightarrow>
          (case ss_SendMsg front r (b_world s) of
             (Ok _, w) \<Rightarrow> Some (did (FrontSend r (Ok ())) w (s\<lparr>b_response := AtBackRecv\<rparr>))
           | (Err e, w) \<Rightarrow> Some (did (FrontSend r (Err e)) w (s\<lparr>b_response := AtTrailer (Err e)\<rparr>))
           | (Panic _, w) \<Rightarrow> None)
      | AtTrailer res \<Rightarrow>
          (let t = cs_Trailer bk (b_world s)
           in Some (did (FrontSetTrailer t) (ss_SetTrailer front t (b_world s)) (s\<lparr>b_response := AtSelect res\<rparr>)))
      | AtSelect res \<Rightarrow>
          (let res' = (case b_sendError s of Some e \<Rightarrow> Err e | None \<Rightarrow> res)
           in Some (did (HandlerReturn res') (b_world s) (s\<lparr>b_response := HandlerDone res', b_sendError := None\<rparr>)))
      | HandlerDone res \<Rightarrow> None)"

datatype 'w bidi_event = Requests | Responses | Environment 'w

fun bidi_step ::
  "('c, 'm, 'w) Grpc \<Rightarrow> ('c, 'w, 'm, 'q, 'r) ServerStream \<Rightarrow> ('w, 'm, 'q, 'r) ClientStream \<Rightarrow> ('w \<Rightarrow> 'w) \<Rightarrow>
   'w bidi_event \<Rightarrow> ('w, 'm, 'q, 'r) bidi \<Rightarrow> ('w, 'm, 'q, 'r) bidi option"
where
  "bidi_step g front bk cancel Requests s = request_step front bk cancel s"
| "bidi_step g front bk cancel Responses s = response_step g front bk s"
| "bidi_step g front bk cancel (Environment w) s = Some (s\<lparr>b_world := w\<rparr>)"

definition bidi_start :: "'q request_pc \<Rightarrow> 'w \<Rightarrow> ('w, 'm, 'q, 'r) bidi" where
  "bidi_start rq w =
     \<lparr>b_request = rq, b_response = AtHeader, b_sendError = None, b_world = w, b_history = []\<rparr>"

text \<open>
  The calls with their results; \<^const>\<open>None\<close> when the schedule ends before the call returns.
  \<open>forwardResponses\<close> on its own runs without the request goroutine.
\<close>

definition forwardBidi ::
  "('c, 'm, 'w) Grpc \<Rightarrow> ('c, 'w, 'm, 'q, 'r) ServerStream \<Rightarrow> ('w, 'm, 'q, 'r) ClientStream \<Rightarrow> ('w \<Rightarrow> 'w) \<Rightarrow>
   'w bidi_event list \<Rightarrow> 'w \<Rightarrow> (unit result \<times> ('w, 'm, 'q, 'r) bidi) option"
where
  "forwardBidi g front bk cancel sched w =
     (case exec (bidi_step g front bk cancel) sched (bidi_start AtFrontRecv w) of
        None \<Rightarrow> None
      | Some s \<Rightarrow> (case b_response s of HandlerDone res \<Rightarrow> Some (res, s) | _ \<Rightarrow> None))"

definition forwardResponses ::
  "('c, 'm, 'w) Grpc \<Rightarrow> ('c, 'w, 'm, 'q, 'r) ServerStream \<Rightarrow> ('w, 'm, 'q, 'r) ClientStream \<Rightarrow>
   'w bidi_event list \<Rightarrow> 'w \<Rightarrow> (unit result \<times> ('w, 'm, 'q, 'r) bidi) option"
where
  "forwardResponses g front bk sched w =
     (case exec (bidi_step g front bk id) sched (bidi_start RequestsDone w) of
        None \<Rightarrow> None
      | Some s \<Rightarrow> (case b_response s of AtSelect res \<Rightarrow> Some (res, s) | _ \<Rightarrow> None))"

text \<open>
  The handlers: \<open>withCancel\<close> is \<open>context.WithCancel\<close>, the context and its cancel function, which is
  also called when the handler returns.
\<close>

definition forward_stream ::
  "('c \<Rightarrow> 'c \<times> ('w \<Rightarrow> 'w)) \<Rightarrow> ('c, 'm, 'w) Grpc \<Rightarrow> 'c \<Rightarrow>
   ('c \<Rightarrow> ('w, ('w, 'm, 'q, 'r) ClientStream) io) \<Rightarrow>
   ('c \<Rightarrow> ('w \<Rightarrow> 'w) \<Rightarrow> ('w, 'm, 'q, 'r) ClientStream \<Rightarrow> 'w \<Rightarrow> (unit result \<times> ('w, 'm, 'q, 'r) bidi) option) \<Rightarrow>
   'w \<Rightarrow> (unit result \<times> 'w) option"
where
  "forward_stream withCancel g ctx open forward w =
     (case withCancel (backendContext g ctx) of
        (ctx, cancel) \<Rightarrow>
          (case open ctx w of
             (Err e, w1) \<Rightarrow> Some (Err e, cancel w1)
           | (Panic m, w1) \<Rightarrow> Some (Panic m, w1)
           | (Ok bk, w1) \<Rightarrow> map_option (\<lambda>(res, s). (res, cancel (b_world s))) (forward ctx cancel bk w1)))"

definition BackendProxy_Watch ::
  "('c \<Rightarrow> 'c \<times> ('w \<Rightarrow> 'w)) \<Rightarrow> ('c, 'm, 'w) Grpc \<Rightarrow> ('c, 'm, 'w) BackendProxy \<Rightarrow>
   ('c, 'w, 'm, WatchRequest, WatchResponse) ServerStream \<Rightarrow> 'w bidi_event list \<Rightarrow> 'w \<Rightarrow> (unit result \<times> 'w) option"
where
  "BackendProxy_Watch withCancel g p front sched =
     forward_stream withCancel g (ss_Context front) (Watch_Watch (bp_watch p))
       (\<lambda>ctx cancel bk. forwardBidi g front bk cancel sched)"

definition BackendProxy_LeaseKeepAlive ::
  "('c \<Rightarrow> 'c \<times> ('w \<Rightarrow> 'w)) \<Rightarrow> ('c, 'm, 'w) Grpc \<Rightarrow> ('c, 'm, 'w) BackendProxy \<Rightarrow>
   ('c, 'w, 'm, LeaseKeepAliveRequest, LeaseKeepAliveResponse) ServerStream \<Rightarrow> 'w bidi_event list \<Rightarrow> 'w \<Rightarrow>
   (unit result \<times> 'w) option"
where
  "BackendProxy_LeaseKeepAlive withCancel g p front sched =
     forward_stream withCancel g (ss_Context front) (Lease_KeepAlive (bp_lease p))
       (\<lambda>ctx cancel bk. forwardBidi g front bk cancel sched)"

definition BackendProxy_Snapshot ::
  "('c \<Rightarrow> 'c \<times> ('w \<Rightarrow> 'w)) \<Rightarrow> ('c, 'm, 'w) Grpc \<Rightarrow> ('c, 'm, 'w) BackendProxy \<Rightarrow> opaque \<Rightarrow>
   ('c, 'w, 'm, opaque, opaque) ServerStream \<Rightarrow> 'w bidi_event list \<Rightarrow> 'w \<Rightarrow> (unit result \<times> 'w) option"
where
  "BackendProxy_Snapshot withCancel g p req front sched =
     forward_stream withCancel g (ss_Context front) (\<lambda>ctx. Maint_Snapshot (bp_maintenance p) ctx req)
       (\<lambda>ctx cancel bk. forwardResponses g front bk sched)"

section \<open>What was done on the streams\<close>

definition front_received :: "('m, 'q, 'r) action list \<Rightarrow> 'q list" where
  "front_received h = concat (map (\<lambda>a. case a of FrontRecv (Ok q) \<Rightarrow> [q] | _ \<Rightarrow> []) h)"

definition back_sent :: "('m, 'q, 'r) action list \<Rightarrow> 'q list" where
  "back_sent h = concat (map (\<lambda>a. case a of BackSend q (Ok _) \<Rightarrow> [q] | _ \<Rightarrow> []) h)"

definition back_received :: "('m, 'q, 'r) action list \<Rightarrow> 'r list" where
  "back_received h = concat (map (\<lambda>a. case a of BackRecv (Ok r) \<Rightarrow> [r] | _ \<Rightarrow> []) h)"

definition front_sent :: "('m, 'q, 'r) action list \<Rightarrow> 'r list" where
  "front_sent h = concat (map (\<lambda>a. case a of FrontSend r (Ok _) \<Rightarrow> [r] | _ \<Rightarrow> []) h)"

definition send_errors :: "('m, 'q, 'r) action list \<Rightarrow> error list" where
  "send_errors h = concat (map (\<lambda>a. case a of SendError e \<Rightarrow> [e] | _ \<Rightarrow> []) h)"

fun to_front :: "('m, 'q, 'r) action \<Rightarrow> bool" where
  "to_front (FrontSendHeader _ _) = True"
| "to_front (FrontSend _ _) = True"
| "to_front (FrontSetTrailer _) = True"
| "to_front _ = False"

named_theorems history_simps

lemma history_Nil [history_simps]:
  "front_received [] = []" "back_sent [] = []" "back_received [] = []" "front_sent [] = []"
  "send_errors [] = []"
  by (simp_all add: front_received_def back_sent_def back_received_def front_sent_def send_errors_def)

lemma history_snoc [history_simps]:
  "front_received (h @ [a]) = front_received h @ (case a of FrontRecv (Ok q) \<Rightarrow> [q] | _ \<Rightarrow> [])"
  "back_sent (h @ [a]) = back_sent h @ (case a of BackSend q (Ok _) \<Rightarrow> [q] | _ \<Rightarrow> [])"
  "back_received (h @ [a]) = back_received h @ (case a of BackRecv (Ok r) \<Rightarrow> [r] | _ \<Rightarrow> [])"
  "front_sent (h @ [a]) = front_sent h @ (case a of FrontSend r (Ok _) \<Rightarrow> [r] | _ \<Rightarrow> [])"
  "send_errors (h @ [a]) = send_errors h @ (case a of SendError e \<Rightarrow> [e] | _ \<Rightarrow> [])"
  by (simp_all add: front_received_def back_sent_def back_received_def front_sent_def send_errors_def)

lemma set_send_errors: "e \<in> set (send_errors h) \<longleftrightarrow> SendError e \<in> set h"
  by (auto simp: send_errors_def split: action.splits)

section \<open>Reachable states\<close>

definition forwarding_starts :: "('w, 'm, 'q, 'r) bidi \<Rightarrow> bool" where
  "forwarding_starts s \<longleftrightarrow> s = bidi_start AtFrontRecv (b_world s) \<or> s = bidi_start RequestsDone (b_world s)"

abbreviation bidi_reach ::
  "('c, 'm, 'w) Grpc \<Rightarrow> ('c, 'w, 'm, 'q, 'r) ServerStream \<Rightarrow> ('w, 'm, 'q, 'r) ClientStream \<Rightarrow> ('w \<Rightarrow> 'w) \<Rightarrow>
   ('w, 'm, 'q, 'r) bidi \<Rightarrow> bool"
where
  "bidi_reach g front bk cancel \<equiv> reachable forwarding_starts (bidi_step g front bk cancel)"

lemma forwarding_startsE:
  assumes "forwarding_starts s"
  obtains "b_request s = AtFrontRecv \<or> b_request s = RequestsDone" "b_response s = AtHeader" "b_sendError s = None"
    "b_history s = []"
  using assms by (metis forwarding_starts_def bidi_start_def bidi.select_convs)

lemma forwardBidi_reach:
  assumes "forwardBidi g front bk cancel sched w = Some (res, s)"
  shows "bidi_reach g front bk cancel s \<and> b_response s = HandlerDone res"
proof -
  from assms have "exec (bidi_step g front bk cancel) sched (bidi_start AtFrontRecv w) = Some s" "b_response s = HandlerDone res"
    by (auto simp: forwardBidi_def split: option.splits response_pc.splits)
  moreover have "forwarding_starts (bidi_start AtFrontRecv w)" by (simp add: forwarding_starts_def bidi_start_def)
  ultimately show ?thesis using exec_reachable [OF reachable_start] by metis
qed

lemma forwardResponses_reach:
  assumes "forwardResponses g front bk sched w = Some (res, s)"
  shows "bidi_reach g front bk id s \<and> b_response s = AtSelect res"
proof -
  from assms have "exec (bidi_step g front bk id) sched (bidi_start RequestsDone w) = Some s" "b_response s = AtSelect res"
    by (auto simp: forwardResponses_def split: option.splits response_pc.splits)
  moreover have "forwarding_starts (bidi_start RequestsDone w)" by (simp add: forwarding_starts_def bidi_start_def)
  ultimately show ?thesis using exec_reachable [OF reachable_start] by metis
qed

text \<open>A step is one of a goroutine, or of the environment, which changes nothing but the world.\<close>

lemma bidi_step_cases:
  assumes "bidi_step g front bk cancel e s = Some s'"
  obtains (requests) "request_step front bk cancel s = Some s'"
  | (responses) "response_step g front bk s = Some s'"
  | (environment) "b_request s' = b_request s" "b_response s' = b_response s" "b_sendError s' = b_sendError s"
      "b_history s' = b_history s"
  using assms by (cases e) (auto intro: requests responses environment)

text \<open>The steps of the two goroutines, one case for every outcome of the call they make.\<close>

lemma request_step_cases:
  assumes "request_step front bk cancel s = Some s'"
  obtains
    (recv) q w where "b_request s = AtFrontRecv" "ss_RecvMsg front (b_world s) = (Ok q, w)"
      "s' = did (FrontRecv (Ok q)) w (s\<lparr>b_request := AtBackSend q\<rparr>)"
  | (eof) w where "b_request s = AtFrontRecv" "s' = did (FrontRecv (Err EOF)) w (s\<lparr>b_request := AtCloseSend\<rparr>)"
  | (recv_err) e w where "b_request s = AtFrontRecv" "e \<noteq> EOF" "s' = did (FrontRecv (Err e)) w (s\<lparr>b_request := AtFail e\<rparr>)"
  | (sent) q w where "b_request s = AtBackSend q" "s' = did (BackSend q (Ok ())) w (s\<lparr>b_request := AtFrontRecv\<rparr>)"
  | (send_err) q e w where "b_request s = AtBackSend q" "s' = did (BackSend q (Err e)) w (s\<lparr>b_request := AtFail e\<rparr>)"
  | (closed) w where "b_request s = AtCloseSend" "s' = did (BackCloseSend (Ok ())) w (s\<lparr>b_request := RequestsDone\<rparr>)"
  | (close_err) e w where "b_request s = AtCloseSend" "s' = did (BackCloseSend (Err e)) w (s\<lparr>b_request := AtFail e\<rparr>)"
  | (ignored) "b_request s = AtFail EOF" "s' = s\<lparr>b_request := RequestsDone\<rparr>"
  | (failed) e where "b_request s = AtFail e" "e \<noteq> EOF" "b_sendError s = None"
      "s' = did (SendError e) (b_world s) (s\<lparr>b_request := AtCancel, b_sendError := Some e\<rparr>)"
  | (cancelled) "b_request s = AtCancel" "s' = did Cancel (cancel (b_world s)) (s\<lparr>b_request := RequestsDone\<rparr>)"
proof (cases "b_request s")
  case AtFrontRecv
  with assms show ?thesis
    by (auto simp: request_step_def split: prod.splits result.splits if_splits intro: recv eof recv_err)
next
  case (AtBackSend q)
  with assms show ?thesis
    by (auto simp: request_step_def split: prod.splits result.splits intro: sent send_err)
next
  case AtCloseSend
  with assms show ?thesis
    by (auto simp: request_step_def split: prod.splits result.splits intro: closed close_err)
next
  case (AtFail e)
  with assms show ?thesis
    by (auto simp: request_step_def split: option.splits if_splits intro: ignored failed)
qed (use assms in \<open>auto simp: request_step_def intro: cancelled\<close>)

lemma response_step_cases:
  assumes "response_step g front bk s = Some s'"
  obtains
    (header) h w where "b_response s = AtHeader" "MD_len g h \<noteq> 0"
      "s' = did (BackHeader (Ok h)) w (s\<lparr>b_response := AtSendHeader h\<rparr>)"
  | (no_header) h w where "b_response s = AtHeader" "MD_len g h = 0"
      "s' = did (BackHeader (Ok h)) w (s\<lparr>b_response := AtBackRecv\<rparr>)"
  | (header_err) e w where "b_response s = AtHeader" "s' = did (BackHeader (Err e)) w (s\<lparr>b_response := AtTrailer (Err e)\<rparr>)"
  | (sent_header) h w where "b_response s = AtSendHeader h"
      "s' = did (FrontSendHeader h (Ok ())) w (s\<lparr>b_response := AtBackRecv\<rparr>)"
  | (send_header_err) h e w where "b_response s = AtSendHeader h"
      "s' = did (FrontSendHeader h (Err e)) w (s\<lparr>b_response := AtTrailer (Err e)\<rparr>)"
  | (recv) r w where "b_response s = AtBackRecv" "cs_RecvMsg bk (b_world s) = (Ok r, w)"
      "s' = did (BackRecv (Ok r)) w (s\<lparr>b_response := AtFrontSend r\<rparr>)"
  | (eof) w where "b_response s = AtBackRecv" "s' = did (BackRecv (Err EOF)) w (s\<lparr>b_response := AtTrailer (Ok ())\<rparr>)"
  | (recv_err) e w where "b_response s = AtBackRecv" "e \<noteq> EOF"
      "s' = did (BackRecv (Err e)) w (s\<lparr>b_response := AtTrailer (Err e)\<rparr>)"
  | (sent) r w where "b_response s = AtFrontSend r" "s' = did (FrontSend r (Ok ())) w (s\<lparr>b_response := AtBackRecv\<rparr>)"
  | (send_err) r e w where "b_response s = AtFrontSend r"
      "s' = did (FrontSend r (Err e)) w (s\<lparr>b_response := AtTrailer (Err e)\<rparr>)"
  | (trailer) res t w where "b_response s = AtTrailer res" "s' = did (FrontSetTrailer t) w (s\<lparr>b_response := AtSelect res\<rparr>)"
  | (select_err) res e where "b_response s = AtSelect res" "b_sendError s = Some e"
      "s' = did (HandlerReturn (Err e)) (b_world s) (s\<lparr>b_response := HandlerDone (Err e), b_sendError := None\<rparr>)"
  | (select_ok) res where "b_response s = AtSelect res" "b_sendError s = None"
      "s' = did (HandlerReturn res) (b_world s) (s\<lparr>b_response := HandlerDone res, b_sendError := None\<rparr>)"
proof (cases "b_response s")
  case AtHeader
  with assms show ?thesis
    by (auto simp: response_step_def split: prod.splits result.splits if_splits intro: header no_header header_err)
next
  case (AtSendHeader h)
  with assms show ?thesis
    by (auto simp: response_step_def split: prod.splits result.splits intro: sent_header send_header_err)
next
  case AtBackRecv
  with assms show ?thesis
    by (auto simp: response_step_def split: prod.splits result.splits if_splits intro: recv eof recv_err)
next
  case (AtFrontSend r)
  with assms show ?thesis
    by (auto simp: response_step_def split: prod.splits result.splits intro: sent send_err)
next
  case (AtTrailer res)
  with assms show ?thesis by (auto simp: response_step_def Let_def intro: trailer)
next
  case (AtSelect res)
  with assms show ?thesis
    by (auto simp: response_step_def Let_def split: option.splits intro: select_err select_ok)
qed (use assms in \<open>auto simp: response_step_def\<close>)

lemma did_sel [simp]:
  "b_request (did a w s) = b_request s" "b_response (did a w s) = b_response s"
  "b_sendError (did a w s) = b_sendError s" "b_world (did a w s) = w"
  "b_history (did a w s) = b_history s @ [a]"
  by (simp_all add: did_def)

section \<open>Order of messages\<close>

definition requests_ordered :: "('w, 'm, 'q, 'r) bidi \<Rightarrow> bool" where
  "requests_ordered s \<longleftrightarrow>
     (case b_request s of
        AtBackSend q \<Rightarrow> front_received (b_history s) = back_sent (b_history s) @ [q]
      | AtFrontRecv \<Rightarrow> front_received (b_history s) = back_sent (b_history s)
      | AtCloseSend \<Rightarrow> front_received (b_history s) = back_sent (b_history s)
      | _ \<Rightarrow> front_received (b_history s) = back_sent (b_history s) \<or>
          (\<exists>q. front_received (b_history s) = back_sent (b_history s) @ [q]))"

definition responses_ordered :: "('w, 'm, 'q, 'r) bidi \<Rightarrow> bool" where
  "responses_ordered s \<longleftrightarrow>
     (case b_response s of
        AtFrontSend r \<Rightarrow> back_received (b_history s) = front_sent (b_history s) @ [r]
      | AtTrailer _ \<Rightarrow> back_received (b_history s) = front_sent (b_history s) \<or>
          (\<exists>r. back_received (b_history s) = front_sent (b_history s) @ [r])
      | AtSelect _ \<Rightarrow> back_received (b_history s) = front_sent (b_history s) \<or>
          (\<exists>r. back_received (b_history s) = front_sent (b_history s) @ [r])
      | HandlerDone _ \<Rightarrow> back_received (b_history s) = front_sent (b_history s) \<or>
          (\<exists>r. back_received (b_history s) = front_sent (b_history s) @ [r])
      | _ \<Rightarrow> back_received (b_history s) = front_sent (b_history s))"

interpretation request_order: machine_invariant forwarding_starts "bidi_step g front bk cancel" requests_ordered
  for g front bk cancel
proof unfold_locales
  fix s s' e
  assume "requests_ordered s" "bidi_step g front bk cancel e s = Some s'"
  then show "requests_ordered s'"
    by (elim bidi_step_cases request_step_cases response_step_cases)
      (auto simp: requests_ordered_def history_simps split: response_pc.splits request_pc.splits)
qed (auto simp: requests_ordered_def history_simps elim!: forwarding_startsE)

interpretation response_order: machine_invariant forwarding_starts "bidi_step g front bk cancel" responses_ordered
  for g front bk cancel
proof unfold_locales
  fix s s' e
  assume "responses_ordered s" "bidi_step g front bk cancel e s = Some s'"
  then show "responses_ordered s'"
    by (elim bidi_step_cases request_step_cases response_step_cases)
      (auto simp: responses_ordered_def history_simps split: request_pc.splits response_pc.splits)
qed (auto simp: responses_ordered_def history_simps elim!: forwarding_startsE)

section \<open>The status of the call\<close>

text \<open>
  The result of \<open>forwardResponses\<close> is justified by the history: success means that the backend ended
  the stream and everything it sent was delivered, an error is one a call of its own returned.
  A request-side failure is an error other than EOF of a call on that side.
\<close>

definition responses_outcome :: "('m, 'q, 'r) action list \<Rightarrow> unit result \<Rightarrow> bool" where
  "responses_outcome h res \<longleftrightarrow>
     (case res of
        Ok _ \<Rightarrow> BackRecv (Err EOF) \<in> set h \<and> front_sent h = back_received h
      | Err e \<Rightarrow> BackHeader (Err e) \<in> set h \<or> (\<exists>m. FrontSendHeader m (Err e) \<in> set h) \<or>
          e \<noteq> EOF \<and> BackRecv (Err e) \<in> set h \<or> (\<exists>r. FrontSend r (Err e) \<in> set h)
      | Panic _ \<Rightarrow> False)"

definition requests_failure :: "('m, 'q, 'r) action list \<Rightarrow> error \<Rightarrow> bool" where
  "requests_failure h e \<longleftrightarrow> e \<noteq> EOF \<and>
     (FrontRecv (Err e) \<in> set h \<or> (\<exists>q. BackSend q (Err e) \<in> set h) \<or> BackCloseSend (Err e) \<in> set h)"

lemma requests_failure_mono: "requests_failure h e \<Longrightarrow> set h \<subseteq> set h' \<Longrightarrow> requests_failure h' e"
  by (auto simp: requests_failure_def)

text \<open>Every error put into the channel is such a failure, and the backend is cancelled only after one.\<close>

definition failures_recorded :: "('w, 'm, 'q, 'r) bidi \<Rightarrow> bool" where
  "failures_recorded s \<longleftrightarrow>
     (\<forall>e. SendError e \<in> set (b_history s) \<longrightarrow> requests_failure (b_history s) e) \<and>
     (\<forall>e. b_request s = AtFail e \<longrightarrow> e = EOF \<or> requests_failure (b_history s) e) \<and>
     (b_request s = AtCancel \<or> Cancel \<in> set (b_history s) \<longrightarrow> send_errors (b_history s) \<noteq> [])"

interpretation failures: machine_invariant forwarding_starts "bidi_step g front bk cancel" failures_recorded
  for g front bk cancel
proof unfold_locales
  fix s s' e
  assume "failures_recorded s" "bidi_step g front bk cancel e s = Some s'"
  then show "failures_recorded s'"
    by (elim bidi_step_cases request_step_cases response_step_cases)
      (auto simp: failures_recorded_def history_simps requests_failure_def)
qed (auto simp: failures_recorded_def history_simps elim!: forwarding_startsE)

text \<open>
  Before the handler returns, the channel holds what was sent to it; the handler returns that error,
  or the result of \<open>forwardResponses\<close> if there is none, and writes nothing to the frontend afterwards.
\<close>

definition status_of :: "('m, 'q, 'r) action list \<Rightarrow> unit result \<Rightarrow> bool" where
  "status_of h res \<longleftrightarrow>
     (case send_errors h of e # _ \<Rightarrow> res = Err e | [] \<Rightarrow> responses_outcome h res)"

definition before_return :: "('w, 'm, 'q, 'r) bidi \<Rightarrow> bool" where
  "before_return s \<longleftrightarrow>
     (\<forall>r. HandlerReturn r \<notin> set (b_history s)) \<and>
     send_errors (b_history s) = (case b_sendError s of None \<Rightarrow> [] | Some e \<Rightarrow> [e])"

definition status_recorded :: "('w, 'm, 'q, 'r) bidi \<Rightarrow> bool" where
  "status_recorded s \<longleftrightarrow>
     (case b_response s of
        HandlerDone res \<Rightarrow>
          (\<exists>h1 h2. b_history s = h1 @ HandlerReturn res # h2 \<and> (\<forall>r. HandlerReturn r \<notin> set h1) \<and>
             status_of h1 res \<and> (\<forall>a \<in> set h2. \<not> to_front a))
      | AtTrailer res \<Rightarrow> before_return s \<and> responses_outcome (b_history s) res
      | AtSelect res \<Rightarrow> before_return s \<and> responses_outcome (b_history s) res
      | _ \<Rightarrow> before_return s)"

lemma status_recordedI:
  assumes "b_response s = HandlerDone res" and "b_history s = h1 @ HandlerReturn res # h2"
    and "\<forall>r. HandlerReturn r \<notin> set h1" and "status_of h1 res" and "\<forall>a \<in> set h2. \<not> to_front a"
  shows "status_recorded s"
  unfolding status_recorded_def assms(1) response_pc.case using assms(2-5) by blast

text \<open>A step of the request goroutine, as the handler sees it.\<close>

fun on_request_side :: "('m, 'q, 'r) action \<Rightarrow> bool" where
  "on_request_side (FrontRecv _) = True"
| "on_request_side (BackSend _ _) = True"
| "on_request_side (BackCloseSend _) = True"
| "on_request_side (SendError _) = True"
| "on_request_side Cancel = True"
| "on_request_side _ = False"

lemma on_request_side_snoc:
  assumes "on_request_side a"
  shows "front_sent (h @ [a]) = front_sent h" "back_received (h @ [a]) = back_received h"
    "a \<noteq> HandlerReturn r" "\<not> to_front a"
    "responses_outcome h res \<Longrightarrow> responses_outcome (h @ [a]) res"
  using assms by (cases a; auto simp: history_simps responses_outcome_def split: result.splits)+

lemma request_step_effect:
  assumes "request_step front bk cancel s = Some s'"
  obtains (quiet) "b_response s' = b_response s" "b_history s' = b_history s" "b_sendError s' = b_sendError s"
  | (acts) a where "b_response s' = b_response s" "b_history s' = b_history s @ [a]" "on_request_side a"
      "b_sendError s' = b_sendError s" "send_errors (b_history s @ [a]) = send_errors (b_history s)"
  | (fails) e where "b_response s' = b_response s" "b_history s' = b_history s @ [SendError e]"
      "b_sendError s = None" "b_sendError s' = Some e"
  using assms by (rule request_step_cases) (auto simp: history_simps intro: quiet acts fails)

lemma before_return_request:
  assumes "before_return s" and "request_step front bk cancel s = Some s'"
  shows "before_return s'"
  using assms(2)
  by (rule request_step_effect) (use assms(1) in \<open>auto simp: before_return_def history_simps dest: on_request_side_snoc(3)\<close>)

lemma responses_outcome_request:
  assumes "responses_outcome (b_history s) res" and "request_step front bk cancel s = Some s'"
  shows "responses_outcome (b_history s') res"
  using assms(2)
proof (rule request_step_effect)
  fix e
  assume "b_history s' = b_history s @ [SendError e]"
  with on_request_side_snoc(5) [of "SendError e"] assms(1) show ?thesis by simp
qed (use assms(1) on_request_side_snoc(5) in simp_all)

lemma status_recorded_request:
  assumes "status_recorded s" and step: "request_step front bk cancel s = Some s'"
  shows "status_recorded s'"
proof -
  have same: "b_response s' = b_response s" using step by (rule request_step_effect)
  note kept = before_return_request [OF _ step] responses_outcome_request [OF _ step]
  show ?thesis
  proof (cases "b_response s")
    case (HandlerDone res)
    with assms(1) obtain h1 h2 where h: "b_history s = h1 @ HandlerReturn res # h2" "\<forall>r. HandlerReturn r \<notin> set h1"
      "status_of h1 res" "\<forall>a \<in> set h2. \<not> to_front a" by (auto simp: status_recorded_def)
    from step have "\<exists>h3. b_history s' = b_history s @ h3 \<and> (\<forall>a \<in> set h3. \<not> to_front a)"
      by (rule request_step_effect) (auto simp: on_request_side_snoc(4))
    with h obtain h3 where "b_history s' = h1 @ HandlerReturn res # (h2 @ h3)" "\<forall>a \<in> set (h2 @ h3). \<not> to_front a"
      by auto
    with h(2,3) HandlerDone same show ?thesis by (intro status_recordedI [of s' res h1 "h2 @ h3"]) simp_all
  qed (use assms(1) same kept in \<open>auto simp: status_recorded_def\<close>)
qed

lemma status_recorded_response:
  assumes "status_recorded s" and "responses_ordered s" and "response_step g front bk s = Some s'"
  shows "status_recorded s'"
  using assms(3)
proof (cases rule: response_step_cases)
  case (select_err res e)
  with assms(1) have "b_history s' = b_history s @ HandlerReturn (Err e) # []" "status_of (b_history s) (Err e)"
    "\<forall>r. HandlerReturn r \<notin> set (b_history s)"
    by (auto simp: status_recorded_def status_of_def before_return_def)
  with select_err show ?thesis by (intro status_recordedI [of s' "Err e" "b_history s" "[]"]) simp_all
next
  case (select_ok res)
  with assms(1) have "b_history s' = b_history s @ HandlerReturn res # []" "status_of (b_history s) res"
    "\<forall>r. HandlerReturn r \<notin> set (b_history s)"
    by (auto simp: status_recorded_def status_of_def before_return_def)
  with select_ok show ?thesis by (intro status_recordedI [of s' res "b_history s" "[]"]) simp_all
qed (use assms(1,2) in \<open>auto simp: status_recorded_def before_return_def responses_ordered_def responses_outcome_def
       history_simps split: result.splits\<close>)

interpretation status: relative_invariant forwarding_starts "bidi_step g front bk cancel" responses_ordered status_recorded
  for g front bk cancel
proof unfold_locales
  fix s s' e
  assume inv: "responses_ordered s" "status_recorded s" and "bidi_step g front bk cancel e s = Some s'"
  from this(3) show "status_recorded s'"
  proof (cases rule: bidi_step_cases)
    case environment
    with inv(2) show ?thesis by (auto simp: status_recorded_def before_return_def split: response_pc.splits)
  next
    case requests
    with inv(2) show ?thesis by (rule status_recorded_request)
  next
    case responses
    with inv(2,1) show ?thesis by (rule status_recorded_response)
  qed
qed (auto simp: status_recorded_def before_return_def history_simps elim!: forwarding_startsE)

section \<open>What the frontend sees\<close>

text \<open>
  At most one header, before the first message; the trailer once, after the last message and before
  the handler returns.
\<close>

fun is_header_write :: "('m, 'q, 'r) action \<Rightarrow> bool" where
  "is_header_write (FrontSendHeader _ _) = True"
| "is_header_write _ = False"

fun is_message_write :: "('m, 'q, 'r) action \<Rightarrow> bool" where
  "is_message_write (FrontSend _ _) = True"
| "is_message_write _ = False"

definition header_then_messages :: "('m, 'q, 'r) action list \<Rightarrow> bool" where
  "header_then_messages ws \<longleftrightarrow>
     (\<exists>hs ms. ws = hs @ ms \<and> length hs \<le> 1 \<and> list_all is_header_write hs \<and> list_all is_message_write ms)"

definition complete_response :: "('m, 'q, 'r) action list \<Rightarrow> bool" where
  "complete_response ws \<longleftrightarrow> (\<exists>ws' t. ws = ws' @ [FrontSetTrailer t] \<and> header_then_messages ws')"

definition front_writes_ordered :: "('w, 'm, 'q, 'r) bidi \<Rightarrow> bool" where
  "front_writes_ordered s \<longleftrightarrow>
     (let ws = filter to_front (b_history s) in
      case b_response s of
        AtHeader \<Rightarrow> ws = []
      | AtSendHeader _ \<Rightarrow> ws = []
      | AtSelect _ \<Rightarrow> complete_response ws
      | HandlerDone _ \<Rightarrow> complete_response ws
      | _ \<Rightarrow> header_then_messages ws)"

lemma header_then_messages_intros:
  "header_then_messages []"
  "is_header_write a \<Longrightarrow> header_then_messages [a]"
  "header_then_messages ws \<Longrightarrow> is_message_write a \<Longrightarrow> header_then_messages (ws @ [a])"
proof -
  show "header_then_messages []" by (simp add: header_then_messages_def)
  show "is_header_write a \<Longrightarrow> header_then_messages [a]"
    unfolding header_then_messages_def by (rule exI [of _ "[a]"], rule exI [of _ "[]"]) simp
  assume "header_then_messages ws" "is_message_write a"
  then obtain hs ms where "ws = hs @ ms" "length hs \<le> 1" "list_all is_header_write hs" "list_all is_message_write ms"
    by (auto simp: header_then_messages_def)
  with \<open>is_message_write a\<close> show "header_then_messages (ws @ [a])"
    unfolding header_then_messages_def by (intro exI [of _ hs] exI [of _ "ms @ [a]"]) simp
qed

interpretation front_writes: machine_invariant forwarding_starts "bidi_step g front bk cancel" front_writes_ordered
  for g front bk cancel
proof unfold_locales
  fix s s' e
  assume "front_writes_ordered s" "bidi_step g front bk cancel e s = Some s'"
  then show "front_writes_ordered s'"
    by (elim bidi_step_cases request_step_cases response_step_cases)
      (auto simp: front_writes_ordered_def complete_response_def intro: header_then_messages_intros
        split: response_pc.splits)
qed (auto simp: front_writes_ordered_def elim!: forwarding_startsE)

section \<open>Half-close\<close>

text \<open>
  When the client half-closes and the backend's send side is closed without an error, the request
  goroutine ends: the backend is not cancelled and nothing is put into the channel, and every request
  was delivered.
\<close>

definition half_close_quiet :: "('w, 'm, 'q, 'r) bidi \<Rightarrow> bool" where
  "half_close_quiet s \<longleftrightarrow>
     (b_request s \<in> {AtFrontRecv, AtCloseSend} \<or> (\<exists>q. b_request s = AtBackSend q) \<longrightarrow>
        Cancel \<notin> set (b_history s) \<and> send_errors (b_history s) = [] \<and> BackCloseSend (Ok ()) \<notin> set (b_history s)) \<and>
     (\<forall>e. b_request s = AtFail e \<longrightarrow> send_errors (b_history s) = [] \<and> BackCloseSend (Ok ()) \<notin> set (b_history s)) \<and>
     (b_request s = AtCancel \<longrightarrow> BackCloseSend (Ok ()) \<notin> set (b_history s)) \<and>
     (BackCloseSend (Ok ()) \<in> set (b_history s) \<longrightarrow>
        Cancel \<notin> set (b_history s) \<and> send_errors (b_history s) = [] \<and>
        front_received (b_history s) = back_sent (b_history s))"

interpretation half_close: relative_invariant forwarding_starts "bidi_step g front bk cancel" requests_ordered half_close_quiet
  for g front bk cancel
proof unfold_locales
  fix s s' e
  assume "requests_ordered s" "half_close_quiet s" "bidi_step g front bk cancel e s = Some s'"
  then show "half_close_quiet s'"
    by (elim bidi_step_cases request_step_cases response_step_cases)
      (auto simp: half_close_quiet_def requests_ordered_def history_simps)
qed (auto simp: half_close_quiet_def history_simps elim!: forwarding_startsE)

section \<open>Where messages come from\<close>

definition messages_genuine ::
  "('c, 'w, 'm, 'q, 'r) ServerStream \<Rightarrow> ('w, 'm, 'q, 'r) ClientStream \<Rightarrow> ('w, 'm, 'q, 'r) bidi \<Rightarrow> bool"
where
  "messages_genuine front bk s \<longleftrightarrow>
     (\<forall>q \<in> set (front_received (b_history s)). answer_of (ss_RecvMsg front) q) \<and>
     (\<forall>r \<in> set (back_received (b_history s)). answer_of (cs_RecvMsg bk) r)"

interpretation genuine: machine_invariant forwarding_starts "bidi_step g front bk cancel" "messages_genuine front bk"
  for g front bk cancel
proof unfold_locales
  fix s s' e
  assume "messages_genuine front bk s" "bidi_step g front bk cancel e s = Some s'"
  then show "messages_genuine front bk s'"
    by (elim bidi_step_cases request_step_cases response_step_cases)
      (auto simp: messages_genuine_def history_simps intro: answer_ofI [of "ss_RecvMsg front"] answer_ofI [of "cs_RecvMsg bk"])
qed (auto simp: messages_genuine_def history_simps elim!: forwarding_startsE)

section \<open>A failed request side ends the call\<close>

text \<open>
  \<open>severed\<close> is what the gRPC library promises of a client stream whose context was cancelled: in the
  worlds \<open>D\<close> its \<open>RecvMsg\<close> fails. \<open>usable\<close>: calls on the frontend return and do not revive it.
\<close>

definition severed :: "('w \<Rightarrow> bool) \<Rightarrow> ('w, 'm, 'q, 'r) ClientStream \<Rightarrow> bool" where
  "severed D bk \<longleftrightarrow> (\<forall>w. D w \<longrightarrow> (\<exists>e w'. cs_RecvMsg bk w = (Err e, w'))) \<and>
     preserves D (cs_RecvMsg bk) \<and> preserves D (cs_Header bk) \<and> no_panic (cs_Header bk)"

definition usable :: "('w \<Rightarrow> bool) \<Rightarrow> ('c, 'w, 'm, 'q, 'r) ServerStream \<Rightarrow> bool" where
  "usable D front \<longleftrightarrow>
     (\<forall>r. preserves D (ss_SendMsg front r) \<and> no_panic (ss_SendMsg front r)) \<and>
     (\<forall>h. preserves D (ss_SendHeader front h) \<and> no_panic (ss_SendHeader front h)) \<and>
     (\<forall>t w. D w \<longrightarrow> D (ss_SetTrailer front t w))"

text \<open>How many steps the handler then has left.\<close>

fun steps_left :: "('m, 'r) response_pc \<Rightarrow> nat" where
  "steps_left AtHeader = 5"
| "steps_left (AtSendHeader _) = 4"
| "steps_left (AtFrontSend _) = 4"
| "steps_left AtBackRecv = 3"
| "steps_left (AtTrailer _) = 2"
| "steps_left (AtSelect _) = 1"
| "steps_left (HandlerDone _) = 0"

lemma io_outcome:
  assumes "preserves D m" "no_panic m" "D w"
  obtains (Ok) a w' where "m w = (Ok a, w')" "D w'" | (Err) e w' where "m w = (Err e, w')" "D w'"
proof -
  obtain r w' where m: "m w = (r, w')" by fastforce
  have "D w'" by (rule preservesD [OF assms(1,3) m])
  with m assms(2) that show ?thesis by (cases r) (auto simp: no_panic_def)
qed

lemma severed_step:
  assumes "severed D bk" "usable D front" "D (b_world s)" "steps_left (b_response s) = Suc n"
  obtains s' where "response_step g front bk s = Some s'" "D (b_world s')" "steps_left (b_response s') \<le> n"
    "n \<noteq> 0 \<Longrightarrow> b_sendError s' = b_sendError s \<and> steps_left (b_response s') \<noteq> 0"
    "\<And>e. n = 0 \<Longrightarrow> b_sendError s = Some e \<Longrightarrow> b_response s' = HandlerDone (Err e)"
proof (cases "b_response s")
  case AtHeader
  have "preserves D (cs_Header bk)" "no_panic (cs_Header bk)" using assms(1) by (simp_all add: severed_def)
  then show ?thesis using assms(3)
    by (rule io_outcome) (use AtHeader assms(4) in \<open>auto simp: response_step_def intro!: that\<close>)
next
  case (AtSendHeader h)
  have "preserves D (ss_SendHeader front h)" "no_panic (ss_SendHeader front h)" using assms(2) by (simp_all add: usable_def)
  then show ?thesis using assms(3)
    by (rule io_outcome) (use AtSendHeader assms(4) in \<open>auto simp: response_step_def intro!: that\<close>)
next
  case AtBackRecv
  obtain e w' where r: "cs_RecvMsg bk (b_world s) = (Err e, w')" using assms(1,3) by (auto simp: severed_def)
  then have "D w'" using assms(1,3) by (metis preservesD severed_def)
  with r AtBackRecv assms(4) show ?thesis by (auto simp: response_step_def intro!: that)
next
  case (AtFrontSend r)
  have "preserves D (ss_SendMsg front r)" "no_panic (ss_SendMsg front r)" using assms(2) by (simp_all add: usable_def)
  then show ?thesis using assms(3)
    by (rule io_outcome) (use AtFrontSend assms(4) in \<open>auto simp: response_step_def intro!: that\<close>)
next
  case (AtTrailer res)
  with assms show ?thesis by (auto simp: response_step_def Let_def usable_def intro!: that)
next
  case (AtSelect res)
  with assms show ?thesis by (auto simp: response_step_def Let_def intro!: that)
qed (use assms(4) in simp)

text \<open>
  From the moment an error was put into the channel, the handler, if it has not returned, can return nothing
  else. \<open>keeps_cancelled\<close>: the environment does not revive a cancelled stream; \<open>handler_steps\<close> counts the steps of
  the handler in a schedule.
\<close>

definition handler_returned :: "('w, 'm, 'q, 'r) bidi \<Rightarrow> bool" where
  "handler_returned s \<longleftrightarrow> steps_left (b_response s) = 0"

lemma handler_returned_iff: "handler_returned s \<longleftrightarrow> (\<exists>res. b_response s = HandlerDone res)"
  by (cases "b_response s") (auto simp: handler_returned_def)

definition decided_by :: "error \<Rightarrow> ('w, 'm, 'q, 'r) bidi \<Rightarrow> bool" where
  "decided_by e s \<longleftrightarrow>
     (b_request s = AtCancel \<or> b_request s = RequestsDone) \<and>
     (b_response s = HandlerDone (Err e) \<or> \<not> handler_returned s \<and> b_sendError s = Some e)"

interpretation decided_by: machine_invariant "decided_by e" "bidi_step g front bk cancel" "decided_by e"
  for e g front bk cancel
proof unfold_locales
  fix s s' ev
  assume "decided_by e s" "bidi_step g front bk cancel ev s = Some s'"
  then show "decided_by e s'"
    by (elim bidi_step_cases request_step_cases response_step_cases) (auto simp: decided_by_def handler_returned_def)
qed

lemma reported_decides:
  assumes "bidi_reach g front bk cancel s" "b_sendError s = Some e" "\<not> handler_returned s"
  shows "decided_by e s"
proof -
  have "before_return s"
    using status.always' [OF assms(1)] assms(3) by (auto simp: status_recorded_def handler_returned_iff split: response_pc.splits)
  with assms(2) have "send_errors (b_history s) \<noteq> []" by (simp add: before_return_def)
  with half_close.always' [OF assms(1)] have "b_request s = AtCancel \<or> b_request s = RequestsDone"
    by (cases "b_request s") (auto simp: half_close_quiet_def)
  with assms(2,3) show ?thesis by (simp add: decided_by_def)
qed

fun keeps_cancelled :: "('w \<Rightarrow> bool) \<Rightarrow> 'w bidi_event \<Rightarrow> bool" where
  "keeps_cancelled D (Environment w) \<longleftrightarrow> D w"
| "keeps_cancelled D _ \<longleftrightarrow> True"

definition handler_steps :: "'w bidi_event list \<Rightarrow> nat" where
  "handler_steps sched = length (filter (\<lambda>e. e = Responses) sched)"

lemma handler_steps_Cons [simp]:
  "handler_steps [] = 0" "handler_steps (e # es) = (if e = Responses then 1 else 0) + handler_steps es"
  by (simp_all add: handler_steps_def)

text \<open>
  After the cancel the handler runs down its remaining steps, of which every one is enabled, whatever is scheduled
  between them.
\<close>

lemma severed_runs_down:
  assumes sev: "severed D bk" "usable D front"
    and "decided_by e s" "b_request s = RequestsDone" "D (b_world s)" "list_all (keeps_cancelled D) sched"
    and "exec (bidi_step g front bk cancel) sched s = Some s'"
  shows "D (b_world s') \<and> (b_response s' = HandlerDone (Err e) \<or>
    steps_left (b_response s') + handler_steps sched \<le> steps_left (b_response s))"
  using assms(3-7)
proof (induction sched arbitrary: s)
  case (Cons ev sched)
  then obtain s1 where s1: "bidi_step g front bk cancel ev s = Some s1" "exec (bidi_step g front bk cancel) sched s1 = Some s'"
    by (auto simp: bind_eq_Some_conv)
  have d1: "decided_by e s1" by (rule decided_by.kept [OF Cons.prems(1) s1(1)])
  have r1: "b_request s1 = RequestsDone"
    using s1(1) Cons.prems(2) by (elim bidi_step_cases request_step_cases response_step_cases) auto
  have "D (b_world s1) \<and> steps_left (b_response s1) + (if ev = Responses then 1 else 0) \<le> steps_left (b_response s)"
  proof (cases ev)
    case Requests
    with s1(1) Cons.prems(2) show ?thesis by (simp add: request_step_def)
  next
    case Responses
    with s1(1) obtain n where n: "steps_left (b_response s) = Suc n"
      by (cases "b_response s") (auto simp: response_step_def)
    from severed_step [OF sev Cons.prems(3) n, of g] s1(1) Responses obtain
      "D (b_world s1)" "steps_left (b_response s1) \<le> n" by (metis bidi_step.simps(2) option.inject)
    with n Responses show ?thesis by simp
  next
    case (Environment w)
    with s1(1) Cons.prems(4) show ?thesis by auto
  qed
  with Cons.IH [OF d1 r1 _ _ s1(2)] Cons.prems(4) show ?case by auto
qed simp

text \<open>
  A request goroutine that has met an error stops: it receives and sends no further request, and reports no other
  error.
\<close>

definition halted :: "error \<Rightarrow> 'q list \<Rightarrow> 'q list \<Rightarrow> ('w, 'm, 'q, 'r) bidi \<Rightarrow> bool" where
  "halted e received sent s \<longleftrightarrow>
     (b_request s = AtFail e \<or> b_request s = AtCancel \<or> b_request s = RequestsDone) \<and>
     front_received (b_history s) = received \<and> back_sent (b_history s) = sent \<and>
     set (send_errors (b_history s)) \<subseteq> {e}"

interpretation halted: machine_invariant "halted e received sent" "bidi_step g front bk cancel" "halted e received sent"
  for e received sent g front bk cancel
proof unfold_locales
  fix s s' ev
  assume "halted e received sent s" "bidi_step g front bk cancel ev s = Some s'"
  then show "halted e received sent s'"
    by (elim bidi_step_cases request_step_cases response_step_cases) (auto simp: halted_def history_simps)
qed

lemma AtFail_halted:
  assumes "bidi_reach g front bk cancel s" "b_request s = AtFail e"
  shows "halted e (front_received (b_history s)) (back_sent (b_history s)) s"
  using half_close.always' [OF assms(1)] assms(2) by (simp add: halted_def half_close_quiet_def)

text \<open>So the call ends with that error, unless the handler returned before it was reported.\<close>

lemma halted_result:
  assumes "bidi_reach g front bk cancel s" "halted e received sent s" "b_response s = HandlerDone res"
  shows "res = Err e \<or> (\<exists>h1 h2. b_history s = h1 @ HandlerReturn res # h2 \<and> send_errors h1 = [])"
proof -
  from status.always' [OF assms(1)] assms(3) obtain h1 h2 where h: "b_history s = h1 @ HandlerReturn res # h2" "status_of h1 res"
    by (auto simp: status_recorded_def)
  moreover have "set (send_errors h1) \<subseteq> {e}" using assms(2) h(1) by (auto simp: halted_def send_errors_def)
  ultimately show ?thesis by (cases "send_errors h1") (auto simp: status_of_def)
qed

end
