(* ===== verification/Coordinated_Watch.thy ===== *)
theory Coordinated_Watch
  imports Coordinated_Refinement Bidi_Forwarding
begin

text \<open>
  The streams of \<open>pkg/server/coordinated_proxy.go\<close>: \<open>Watch\<close>, which forwards over the message-rewriting
  \<open>coordinatedWatchStream\<close>, and \<open>LeaseKeepAlive\<close>. The lemmas carry the forwarding theorems over to the
  rewritten stream: the events a client receives are those of the coordinator with the user's keys and
  the values the references stand for, and a request the rewriting refuses ends the call.
\<close>

section \<open>Definitions\<close>

definition CoordinatedProxy_Watch ::
  "('c \<Rightarrow> 'c \<times> ('w \<Rightarrow> 'w)) \<Rightarrow> ('c, 'm, 'w) Grpc \<Rightarrow> ('conn, 'c, 'm, 'w) CoordinatedProxy \<Rightarrow>
   ('c, 'w, 'm, WatchRequest, WatchResponse) ServerStream \<Rightarrow> 'w bidi_event list \<Rightarrow> 'w \<Rightarrow> (unit result \<times> 'w) option"
where
  "CoordinatedProxy_Watch withCancel g p front sched =
     forward_stream withCancel g (ss_Context front) (Watch_Watch (bp_watch (cp_backend p)))
       (\<lambda>ctx cancel bk. forwardBidi g front (coordinatedWatchStream g p ctx bk) cancel sched)"

definition CoordinatedProxy_LeaseKeepAlive ::
  "('c \<Rightarrow> 'c \<times> ('w \<Rightarrow> 'w)) \<Rightarrow> ('c, 'm, 'w) Grpc \<Rightarrow> ('conn, 'c, 'm, 'w) CoordinatedProxy \<Rightarrow>
   ('c, 'w, 'm, LeaseKeepAliveRequest, LeaseKeepAliveResponse) ServerStream \<Rightarrow> 'w bidi_event list \<Rightarrow> 'w \<Rightarrow>
   (unit result \<times> 'w) option"
where
  "CoordinatedProxy_LeaseKeepAlive withCancel g p s sched = BackendProxy_LeaseKeepAlive withCancel g (cp_backend p) s sched"

section \<open>Events\<close>

definition event_reads :: "('conn, 'c, 'm, 'w) deployment \<Rightarrow> 'w \<Rightarrow> Event \<Rightarrow> Event \<Rightarrow> bool" where
  "event_reads d w ev ev' \<longleftrightarrow>
     ev_Type ev' = ev_Type ev \<and>
     rel_option (reads d w (ev_Type ev = DELETE)) (ev_Kv ev) (ev_Kv ev') \<and>
     rel_option (reads d w False) (ev_PrevKv ev) (ev_PrevKv ev')"

text \<open>What a client gets for a response of the coordinator received in world \<open>w\<close>.\<close>

definition response_reads :: "('conn, 'c, 'm, 'w) deployment \<Rightarrow> 'w \<Rightarrow> WatchResponse \<Rightarrow> WatchResponse \<Rightarrow> bool" where
  "response_reads d w raw r \<longleftrightarrow>
     r = raw\<lparr>wr_Events := wr_Events r\<rparr> \<and> list_all2 (event_reads d w) (wr_Events raw) (wr_Events r)"

lemma decodeKV_reads:
  assumes d: "environment d" and "decodeKV (dp_grpc d) (dp_proxy d) ctx kv keysOnly w = (Ok kv', w')"
    and "same_views d w0 w"
  shows "rel_option (reads d w0 keysOnly) kv kv' \<and> same_views d w0 w'"
proof (cases kv)
  case (Some x)
  with assms(2) obtain x' where x: "decode_kv (dp_grpc d) (dp_proxy d) ctx keysOnly x w = (Ok x', w')" "kv' = Some x'"
    by (auto simp: decodeKV_def io_bind_Ok_iff)
  then have "io_map (decode_kv (dp_grpc d) (dp_proxy d) ctx keysOnly) [x] w = (Ok [x'], w')"
    by (simp add: io_bind_Ok_iff)
  from decode_kvs_reads [OF d this assms(3)] preservesD [OF decode_kv_preserves [OF d] assms(3) x(1)] Some x(2)
  show ?thesis by simp
qed (use assms in \<open>auto simp: decodeKV_def\<close>)

lemma decodeEvent_reads:
  assumes d: "environment d" and "decodeEvent (dp_grpc d) (dp_proxy d) ctx ev w = (Ok ev', w')"
    and "same_views d w0 w"
  shows "event_reads d w0 ev ev' \<and> same_views d w0 w'"
proof -
  from assms(2) obtain kv w1 prev where
    kv: "decodeKV (dp_grpc d) (dp_proxy d) ctx (ev_Kv ev) (ev_Type ev = DELETE) w = (Ok kv, w1)"
    and prev: "decodeKV (dp_grpc d) (dp_proxy d) ctx (ev_PrevKv ev) False w1 = (Ok prev, w')"
    and ev': "ev' = ev\<lparr>ev_Kv := kv, ev_PrevKv := prev\<rparr>"
    by (auto simp: decodeEvent_def io_bind_Ok_iff)
  from decodeKV_reads [OF d kv assms(3)] decodeKV_reads [OF d prev] ev' show ?thesis
    by (auto simp: event_reads_def)
qed

lemma decodeEvents_reads:
  assumes d: "environment d" and "io_map (decodeEvent (dp_grpc d) (dp_proxy d) ctx) evs w = (Ok evs', w')"
    and "same_views d w0 w"
  shows "list_all2 (event_reads d w0) evs evs'"
  using assms(2,3)
proof (induction evs arbitrary: evs' w)
  case (Cons ev evs)
  then obtain x w1 xs where x: "decodeEvent (dp_grpc d) (dp_proxy d) ctx ev w = (Ok x, w1)"
    and xs: "io_map (decodeEvent (dp_grpc d) (dp_proxy d) ctx) evs w1 = (Ok xs, w')" "evs' = x # xs"
    by (auto simp: io_bind_Ok_iff)
  with decodeEvent_reads [OF d x Cons.prems(2)] Cons.IH [OF xs(1)] show ?case by simp
qed auto

lemma watch_RecvMsg_reads:
  assumes d: "environment d" and "watch_RecvMsg (dp_grpc d) (dp_proxy d) ctx bk w = (Ok r, w')"
  shows "\<exists>raw w1. cs_RecvMsg bk w = (Ok raw, w1) \<and> response_reads d w1 raw r"
proof -
  from assms(2) obtain raw w1 evs where raw: "cs_RecvMsg bk w = (Ok raw, w1)"
    and evs: "io_map (decodeEvent (dp_grpc d) (dp_proxy d) ctx) (wr_Events raw) w1 = (Ok evs, w')"
    and r: "r = raw\<lparr>wr_Events := evs\<rparr>"
    by (auto simp: watch_RecvMsg_def io_bind_Ok_iff)
  moreover have "same_views d w1 w1" by (simp add: same_views_def)
  ultimately show ?thesis using decodeEvents_reads [OF d evs] by (auto simp: response_reads_def)
qed

section \<open>Requests\<close>

lemma watch_SendMsg_invalid:
  assumes "coordinatedKeys (wc_Key c) (wc_RangeEnd c) = Err e"
  shows "watch_SendMsg bk (WatchCreate c) w = (Err e, w)"
  using assms by (simp add: watch_SendMsg_def io_bind_def io_lift_def)

text \<open>The step that sends a request to watch: refused without a call, or passed on with the metadata range.\<close>

lemma watch_create_step:
  assumes "b_request s = AtBackSend (WatchCreate c)"
    and "bidi_step g front (coordinatedWatchStream g p ctx bk) cancel Requests s = Some s'"
  shows "wc_Key c = [] \<Longrightarrow> \<exists>msg. b_request s' = AtFail (Status InvalidArgument msg) \<and> b_world s' = b_world s \<and>
      front_received (b_history s') = front_received (b_history s) \<and> back_sent (b_history s') = back_sent (b_history s)"
    and "wc_Key c \<noteq> [] \<Longrightarrow> \<exists>k e r. prefixed_range (wc_Key c) (wc_RangeEnd c) k e \<and>
      cs_SendMsg bk (WatchCreate (c\<lparr>wc_Key := k, wc_RangeEnd := e\<rparr>)) (b_world s) = (r, b_world s') \<and>
      (accepted r \<longleftrightarrow> b_request s' = AtFrontRecv)"
proof -
  show "\<exists>msg. b_request s' = AtFail (Status InvalidArgument msg) \<and> b_world s' = b_world s \<and>
      front_received (b_history s') = front_received (b_history s) \<and> back_sent (b_history s') = back_sent (b_history s)"
    if "wc_Key c = []"
    using assms that watch_SendMsg_invalid [of c "coordinatedInvalid ''empty key''" bk]
    by (auto simp: request_step_def coordinatedWatchStream_def coordinatedKeys_empty coordinatedInvalid_def history_simps)
next
  assume "wc_Key c \<noteq> []"
  then obtain k e where ke: "coordinatedKeys (wc_Key c) (wc_RangeEnd c) = Ok (k, e)" by (simp add: coordinatedKeys_def)
  then have send: "cs_SendMsg (coordinatedWatchStream g p ctx bk) (WatchCreate c) =
      cs_SendMsg bk (WatchCreate (c\<lparr>wc_Key := k, wc_RangeEnd := e\<rparr>))"
    by (simp add: coordinatedWatchStream_def watch_SendMsg_def io_bind_def io_lift_def fun_eq_iff del: coordinatedKeys_Ok)
  obtain r w where r: "cs_SendMsg bk (WatchCreate (c\<lparr>wc_Key := k, wc_RangeEnd := e\<rparr>)) (b_world s) = (r, w)" by fastforce
  with assms send have "b_world s' = w \<and> (accepted r \<longleftrightarrow> b_request s' = AtFrontRecv)"
    by (cases r) (auto simp: request_step_def)
  with r coordinatedKeys_prefixed [OF ke]
  show "\<exists>k e r. prefixed_range (wc_Key c) (wc_RangeEnd c) k e \<and>
      cs_SendMsg bk (WatchCreate (c\<lparr>wc_Key := k, wc_RangeEnd := e\<rparr>)) (b_world s) = (r, b_world s') \<and>
      (accepted r \<longleftrightarrow> b_request s' = AtFrontRecv)" by blast
qed

end
