(* ===== verification/Watch_Proxy.thy ===== *)
theory Watch_Proxy
  imports KV_Proxy Bidi_Forwarding
begin

text \<open>
  \<open>pkg/server/proxy_watch.go\<close>, the watch service of the legacy mode. \<open>Run\<close> starts three goroutines over
  one client stream: \<open>recvLoop\<close> reads requests into the channel \<open>recvChan\<close>; \<open>handleRecvLoop\<close> takes them
  out and sends each to every shard, opening the shard's watch stream at its first request, with a
  goroutine that reads the stream into the channel \<open>respChan\<close>; \<open>sendLoop\<close> sends what arrives there to
  the client. Both channels have capacity ten.

  The state has a program counter for every goroutine, the two channels, the map of open streams, the
  error of the context once it is done, the log, and the history of what was done. An event of a
  schedule lets one goroutine take one step, up to and including its next call or channel operation;
  where a \<open>select\<close> has two ready cases the event says which is taken. A step that would block is
  \<^const>\<open>None\<close>, and so is one that panics, which ends the process. \<open>Recv\<close> of a generated client stream
  returns nil with an error, so responses are optional. The history records with every send to a shard and to the
  client what the call returned, also where the code drops it, and with every receive of a reader its result
  (the receive of EOF that ends the reader apart). \<open>FromError\<close> stands for \<open>status.FromError\<close>.
\<close>

section \<open>Definitions\<close>

record ('c, 'm, 'w) SingleWatchStreamProxy =
  sp_ctx :: 'c
  sp_cancel :: "'w \<Rightarrow> 'w"
  sp_gRPCStream :: "('c, 'w, 'm, WatchRequest, WatchResponse option) ServerStream"
  sp_configs :: "('c, 'm, 'w) ShardClientImpl ShardingConfigs"

definition NewSingleWatchStreamProxy ::
  "('c \<Rightarrow> 'c \<times> ('w \<Rightarrow> 'w)) \<Rightarrow> ('c, 'w, 'm, WatchRequest, WatchResponse option) ServerStream \<Rightarrow>
   ('c, 'm, 'w) ShardClientImpl ShardingConfigs \<Rightarrow> ('c, 'm, 'w) SingleWatchStreamProxy"
where
  "NewSingleWatchStreamProxy withCancel gRPCStream sharding =
     (case withCancel (ss_Context gRPCStream) of
        (ctx, cancel) \<Rightarrow>
          \<lparr>sp_ctx = ctx, sp_cancel = cancel, sp_gRPCStream = gRPCStream, sp_configs = sharding\<rparr>)"

definition isClientCtxErr :: "(error \<Rightarrow> (code \<times> string) option) \<Rightarrow> error option \<Rightarrow> error \<Rightarrow> bool" where
  "isClientCtxErr FromError ctxErr err =
     (if ctxErr \<noteq> None then True
      else case FromError err of
          None \<Rightarrow> False
        | Some (c, msg) \<Rightarrow>
            if c = Canceled \<or> c = DeadlineExceeded then True
            else if c = Unavailable then
              if msg = ''client disconnected'' then True
              else if prefix ''stream error: '' msg \<and> suffix ''; CANCEL'' msg then True
              else False
            else False)"

datatype recv_pc = RecvWait | RecvPush WatchRequest | RecvDone "unit result"

datatype ('c, 'm, 'w) handle_pc =
  HandleWait | Broadcasting WatchRequest "('c, 'm, 'w) ShardClientImpl list" | HandleDone "unit result"

datatype send_pc = SendWait | Sending "WatchResponse option" | SendDone "unit result"

datatype reader_pc = ReaderWait | ReaderPush "WatchResponse option" | ReaderDone

datatype watch_action =
  ClientRecv WatchRequest | TakeRequest WatchRequest | ShardSend int WatchRequest "unit result"
| ShardRecv int "WatchResponse result" | PushResponse int "WatchResponse option"
| TakeResponse "WatchResponse option" | ClientSend "WatchResponse option" "unit result"

record ('c, 'm, 'w) watch_state =
  wp_recv :: recv_pc
  wp_handle :: "('c, 'm, 'w) handle_pc"
  wp_send :: send_pc
  wp_readers :: "int \<Rightarrow> reader_pc option"
  wp_streams :: "int \<Rightarrow> ('w, 'm, WatchRequest, WatchResponse) ClientStream option"   \<comment> \<open>\<open>mapShardStream\<close>\<close>
  wp_recvChan :: "WatchRequest list"
  wp_respChan :: "WatchResponse option list"
  wp_ctxErr :: "error option"       \<comment> \<open>\<open>p.ctx.Err()\<close>\<close>
  wp_parentErr :: "error option"    \<comment> \<open>\<open>p.gRPCStream.Context().Err()\<close>\<close>
  wp_first :: "error option"        \<comment> \<open>the first error the group has seen\<close>
  wp_log :: "(string \<times> error) list"
  wp_world :: 'w
  wp_history :: "watch_action list"

definition watch_start :: "'w \<Rightarrow> ('c, 'm, 'w) watch_state" where
  "watch_start w =
     \<lparr>wp_recv = RecvWait, wp_handle = HandleWait, wp_send = SendWait, wp_readers = (\<lambda>_. None),
      wp_streams = (\<lambda>_. None), wp_recvChan = [], wp_respChan = [], wp_ctxErr = None, wp_parentErr = None,
      wp_first = None, wp_log = [], wp_world = w, wp_history = []\<rparr>"

definition chan_cap :: nat where
  "chan_cap = 10"

definition acted :: "watch_action \<Rightarrow> 'w \<Rightarrow> ('c, 'm, 'w) watch_state \<Rightarrow> ('c, 'm, 'w) watch_state" where
  "acted a w s = s\<lparr>wp_history := wp_history s @ [a], wp_world := w\<rparr>"

text \<open>The group keeps the first error a goroutine returns.\<close>

definition returned :: "error \<Rightarrow> ('c, 'm, 'w) watch_state \<Rightarrow> ('c, 'm, 'w) watch_state" where
  "returned e s = s\<lparr>wp_first := (case wp_first s of None \<Rightarrow> Some e | Some e' \<Rightarrow> Some e')\<rparr>"

definition cancel_ctx ::
  "('c, 'm, 'w) SingleWatchStreamProxy \<Rightarrow> ('c, 'm, 'w) watch_state \<Rightarrow> ('c, 'm, 'w) watch_state"
where
  "cancel_ctx p s =
     s\<lparr>wp_ctxErr := (case wp_ctxErr s of None \<Rightarrow> Some ContextCanceled | Some e \<Rightarrow> Some e),
       wp_world := sp_cancel p (wp_world s)\<rparr>"

definition recvLoop ::
  "('c, 'm, 'w) SingleWatchStreamProxy \<Rightarrow> ('c, 'm, 'w) watch_state \<Rightarrow> ('c, 'm, 'w) watch_state option"
where
  "recvLoop p s =
     (case wp_recv s of
        RecvWait \<Rightarrow>
          (case ss_RecvMsg (sp_gRPCStream p) (wp_world s) of
             (Ok req, w) \<Rightarrow> Some (acted (ClientRecv req) w (s\<lparr>wp_recv := RecvPush req\<rparr>))
           | (Err err, w) \<Rightarrow>
               if err = EOF then Some (s\<lparr>wp_recv := RecvDone (Ok ()), wp_world := w\<rparr>)
               else Some (returned err (cancel_ctx p (s\<lparr>wp_recv := RecvDone (Err err), wp_world := w\<rparr>)))
           | (Panic _, w) \<Rightarrow> None)
      | RecvPush req \<Rightarrow>
          if length (wp_recvChan s) < chan_cap
          then Some (s\<lparr>wp_recv := RecvWait, wp_recvChan := wp_recvChan s @ [req]\<rparr>)
          else None
      | RecvDone _ \<Rightarrow> None)"

text \<open>The two cases of the \<open>select\<close> of \<open>handleRecvLoop\<close>, and its loop over the shards.\<close>

definition handle_done :: "('c, 'm, 'w) watch_state \<Rightarrow> ('c, 'm, 'w) watch_state option" where
  "handle_done s =
     (case (wp_handle s, wp_ctxErr s) of
        (HandleWait, Some e) \<Rightarrow> Some (returned e (s\<lparr>wp_handle := HandleDone (Err e)\<rparr>))
      | _ \<Rightarrow> None)"

definition handle_take ::
  "('c, 'm, 'w) SingleWatchStreamProxy \<Rightarrow> ('c, 'm, 'w) watch_state \<Rightarrow> ('c, 'm, 'w) watch_state option"
where
  "handle_take p s =
     (case (wp_handle s, wp_recvChan s) of
        (HandleWait, req # rest) \<Rightarrow>
          Some (acted (TakeRequest req) (wp_world s)
                 (s\<lparr>wp_handle := Broadcasting req (cfg_GetAllShardClis (sp_configs p)), wp_recvChan := rest\<rparr>))
      | _ \<Rightarrow> None)"

definition watch_msg :: "int \<Rightarrow> string" where
  "watch_msg i = ''watch on shard['' @ itoi i @ '']''"

definition handle_shard ::
  "('c, 'm, 'w) SingleWatchStreamProxy \<Rightarrow> ('c, 'm, 'w) watch_state \<Rightarrow> ('c, 'm, 'w) watch_state option"
where
  "handle_shard p s =
     (case wp_handle s of
        Broadcasting req [] \<Rightarrow> Some (s\<lparr>wp_handle := HandleWait\<rparr>)
      | Broadcasting req (shardCli # clis) \<Rightarrow>
          (case wp_streams s (GetShardID shardCli) of
             None \<Rightarrow>
               (case Watch_Watch (sc_Watch shardCli) (sp_ctx p) (wp_world s) of
                  (Err err, w) \<Rightarrow>
                    Some (returned (Wrap (watch_msg (GetShardID shardCli)) err)
                      (s\<lparr>wp_log := wp_log s @ [(''failed to create watch stream on shard'', err)],
                         wp_handle := HandleDone (Err (Wrap (watch_msg (GetShardID shardCli)) err)),
                         wp_world := w\<rparr>))
                | (Ok shardStream, w) \<Rightarrow>
                    Some (s\<lparr>wp_readers := (wp_readers s)(GetShardID shardCli \<mapsto> ReaderWait),
                            wp_streams := (wp_streams s)(GetShardID shardCli \<mapsto> shardStream),
                            wp_world := w\<rparr>)
                | (Panic _, w) \<Rightarrow> None)
           | Some shardStream \<Rightarrow>
               (case cs_SendMsg shardStream req (wp_world s) of
                  (Panic _, w) \<Rightarrow> None
                | (r, w) \<Rightarrow>
                    Some (acted (ShardSend (GetShardID shardCli) req r) w
                           (s\<lparr>wp_handle := Broadcasting req clis\<rparr>))))
      | _ \<Rightarrow> None)"

text \<open>The goroutine that reads the stream of shard \<open>i\<close>.\<close>

definition shard_reader :: "int \<Rightarrow> ('c, 'm, 'w) watch_state \<Rightarrow> ('c, 'm, 'w) watch_state option" where
  "shard_reader i s =
     (case (wp_readers s i, wp_streams s i) of
        (Some ReaderWait, Some shardStream) \<Rightarrow>
          (case cs_RecvMsg shardStream (wp_world s) of
             (Ok resp, w) \<Rightarrow>
               Some (acted (ShardRecv i (Ok resp)) w (s\<lparr>wp_readers := (wp_readers s)(i \<mapsto> ReaderPush (Some resp))\<rparr>))
           | (Err err, w) \<Rightarrow>
               if err = EOF then Some (s\<lparr>wp_readers := (wp_readers s)(i \<mapsto> ReaderDone), wp_world := w\<rparr>)
               else Some (acted (ShardRecv i (Err err)) w
                      (s\<lparr>wp_readers := (wp_readers s)(i \<mapsto> ReaderPush None),
                         wp_log := wp_log s @ [(''failed to receive watch response from shard stream'', err)]\<rparr>))
           | (Panic _, w) \<Rightarrow> None)
      | (Some (ReaderPush resp), _) \<Rightarrow>
          if length (wp_respChan s) < chan_cap
          then Some (acted (PushResponse i resp) (wp_world s)
                 (s\<lparr>wp_readers := (wp_readers s)(i \<mapsto> ReaderWait), wp_respChan := wp_respChan s @ [resp]\<rparr>))
          else None
      | _ \<Rightarrow> None)"

text \<open>The two cases of the \<open>select\<close> of \<open>sendLoop\<close>, and the rest of its loop.\<close>

definition send_done :: "('c, 'm, 'w) watch_state \<Rightarrow> ('c, 'm, 'w) watch_state option" where
  "send_done s =
     (case (wp_send s, wp_ctxErr s) of
        (SendWait, Some e) \<Rightarrow> Some (returned e (s\<lparr>wp_send := SendDone (Err e)\<rparr>))
      | _ \<Rightarrow> None)"

definition send_take :: "('c, 'm, 'w) watch_state \<Rightarrow> ('c, 'm, 'w) watch_state option" where
  "send_take s =
     (case (wp_send s, wp_respChan s) of
        (SendWait, msg # rest) \<Rightarrow>
          Some (acted (TakeResponse msg) (wp_world s) (s\<lparr>wp_send := Sending msg, wp_respChan := rest\<rparr>))
      | _ \<Rightarrow> None)"

definition send_message ::
  "(error \<Rightarrow> (code \<times> string) option) \<Rightarrow> ('c, 'm, 'w) SingleWatchStreamProxy \<Rightarrow>
   ('c, 'm, 'w) watch_state \<Rightarrow> ('c, 'm, 'w) watch_state option"
where
  "send_message FromError p s =
     (case wp_send s of
        Sending msg \<Rightarrow>
          (case ss_SendMsg (sp_gRPCStream p) msg (wp_world s) of
             (Ok _, w) \<Rightarrow> Some (acted (ClientSend msg (Ok ())) w (s\<lparr>wp_send := SendWait\<rparr>))
           | (Err err, w) \<Rightarrow>
               Some (returned err (acted (ClientSend msg (Err err)) w
                 (s\<lparr>wp_send := SendDone (Err err),
                    wp_log := (if isClientCtxErr FromError (wp_parentErr s) err then wp_log s
                      else wp_log s @ [(''failed to send watch control response to gRPC stream'', err)])\<rparr>)))
           | (Panic _, w) \<Rightarrow> None)
      | _ \<Rightarrow> None)"

text \<open>
  The events: a step of a goroutine, the end of the client's context, and a change of the world by
  the environment.
\<close>

datatype 'w watch_event =
  RecvLoop | HandleCtxDone | HandleTake | HandleShard | SendCtxDone | SendTake | SendMessage
| ShardReader int | ParentDone error | Outside 'w

fun watch_step ::
  "(error \<Rightarrow> (code \<times> string) option) \<Rightarrow> ('c, 'm, 'w) SingleWatchStreamProxy \<Rightarrow> 'w watch_event \<Rightarrow>
   ('c, 'm, 'w) watch_state \<Rightarrow> ('c, 'm, 'w) watch_state option"
where
  "watch_step FromError p RecvLoop s = recvLoop p s"
| "watch_step FromError p HandleCtxDone s = handle_done s"
| "watch_step FromError p HandleTake s = handle_take p s"
| "watch_step FromError p HandleShard s = handle_shard p s"
| "watch_step FromError p SendCtxDone s = send_done s"
| "watch_step FromError p SendTake s = send_take s"
| "watch_step FromError p SendMessage s = send_message FromError p s"
| "watch_step FromError p (ShardReader i) s = shard_reader i s"
| "watch_step FromError p (ParentDone e) s =
     Some (s\<lparr>wp_parentErr := (case wp_parentErr s of None \<Rightarrow> Some e | Some e' \<Rightarrow> Some e'),
             wp_ctxErr := (case wp_ctxErr s of None \<Rightarrow> Some e | Some e' \<Rightarrow> Some e')\<rparr>)"
| "watch_step FromError p (Outside w) s = Some (s\<lparr>wp_world := w\<rparr>)"

text \<open>\<open>Wait\<close>: the group's error once all three loops have returned.\<close>

definition watch_wait :: "('c, 'm, 'w) watch_state \<Rightarrow> unit result option" where
  "watch_wait s =
     (case (wp_recv s, wp_handle s, wp_send s) of
        (RecvDone _, HandleDone _, SendDone _) \<Rightarrow> Some (case wp_first s of None \<Rightarrow> Ok () | Some e \<Rightarrow> Err e)
      | _ \<Rightarrow> None)"

definition SingleWatchStreamProxy_Run ::
  "(error \<Rightarrow> (code \<times> string) option) \<Rightarrow> ('c, 'm, 'w) SingleWatchStreamProxy \<Rightarrow> 'w watch_event list \<Rightarrow> 'w \<Rightarrow>
   (unit result \<times> ('c, 'm, 'w) watch_state) option"
where
  "SingleWatchStreamProxy_Run FromError p sched w =
     (case exec (watch_step FromError p) sched (watch_start w) of
        None \<Rightarrow> None
      | Some s \<Rightarrow> map_option (\<lambda>res. (res, s)) (watch_wait s))"

definition WatchProxy_Watch ::
  "(error \<Rightarrow> (code \<times> string) option) \<Rightarrow> ('c \<Rightarrow> 'c \<times> ('w \<Rightarrow> 'w)) \<Rightarrow> ('c, 'm, 'w) ShardClientImpl ShardingConfigs \<Rightarrow>
   ('c, 'w, 'm, WatchRequest, WatchResponse option) ServerStream \<Rightarrow> 'w watch_event list \<Rightarrow> 'w \<Rightarrow>
   (unit result \<times> ('c, 'm, 'w) watch_state) option"
where
  "WatchProxy_Watch FromError withCancel configs stream sched w =
     SingleWatchStreamProxy_Run FromError (NewSingleWatchStreamProxy withCancel stream configs) sched w"

section \<open>Steps\<close>

lemma recvLoop_cases:
  assumes "recvLoop p s = Some s'"
  obtains
    (recv) req w where "wp_recv s = RecvWait" "s' = acted (ClientRecv req) w (s\<lparr>wp_recv := RecvPush req\<rparr>)"
  | (recv_eof) w where "wp_recv s = RecvWait" "s' = s\<lparr>wp_recv := RecvDone (Ok ()), wp_world := w\<rparr>"
  | (recv_err) e w where "wp_recv s = RecvWait" "e \<noteq> EOF"
      "s' = returned e (cancel_ctx p (s\<lparr>wp_recv := RecvDone (Err e), wp_world := w\<rparr>))"
  | (recv_push) req where "wp_recv s = RecvPush req" "length (wp_recvChan s) < chan_cap"
      "s' = s\<lparr>wp_recv := RecvWait, wp_recvChan := wp_recvChan s @ [req]\<rparr>"
proof (cases "wp_recv s")
  case RecvWait
  with assms show ?thesis
    by (auto simp: recvLoop_def split: prod.splits result.splits if_splits intro: recv recv_eof recv_err)
qed (use assms in \<open>auto simp: recvLoop_def split: if_splits intro: recv_push\<close>)

lemma handle_cases:
  assumes "handle_done s = Some s' \<or> handle_take p s = Some s' \<or> handle_shard p s = Some s'"
  obtains
    (ctx_done) e where "wp_handle s = HandleWait" "wp_ctxErr s = Some e"
      "s' = returned e (s\<lparr>wp_handle := HandleDone (Err e)\<rparr>)"
  | (take) req rest where "wp_handle s = HandleWait" "wp_recvChan s = req # rest"
      "s' = acted (TakeRequest req) (wp_world s)
         (s\<lparr>wp_handle := Broadcasting req (cfg_GetAllShardClis (sp_configs p)), wp_recvChan := rest\<rparr>)"
  | (all_sent) req where "wp_handle s = Broadcasting req []" "s' = s\<lparr>wp_handle := HandleWait\<rparr>"
  | (open_err) req cli clis e lg w where "wp_handle s = Broadcasting req (cli # clis)" "wp_streams s (GetShardID cli) = None"
      "s' = returned e (s\<lparr>wp_log := lg, wp_handle := HandleDone (Err e), wp_world := w\<rparr>)"
  | (opened) req cli clis st w where "wp_handle s = Broadcasting req (cli # clis)" "wp_streams s (GetShardID cli) = None"
      "s' = s\<lparr>wp_readers := (wp_readers s)(GetShardID cli \<mapsto> ReaderWait),
              wp_streams := (wp_streams s)(GetShardID cli \<mapsto> st), wp_world := w\<rparr>"
  | (shard_sent) req cli clis st r w where "wp_handle s = Broadcasting req (cli # clis)" "wp_streams s (GetShardID cli) = Some st"
      "cs_SendMsg st req (wp_world s) = (r, w)" "s' = acted (ShardSend (GetShardID cli) req r) w (s\<lparr>wp_handle := Broadcasting req clis\<rparr>)"
proof (cases "wp_handle s")
  case HandleWait
  with assms show ?thesis
    by (auto simp: handle_done_def handle_take_def handle_shard_def split: option.splits list.splits intro: ctx_done take)
next
  case (Broadcasting req clis)
  with assms have step: "handle_shard p s = Some s'" by (auto simp: handle_done_def handle_take_def)
  show ?thesis
  proof (cases clis)
    case Nil
    with Broadcasting step show ?thesis by (auto simp: handle_shard_def intro: all_sent)
  next
    case (Cons cli rest)
    show ?thesis
    proof (cases "wp_streams s (GetShardID cli)")
      case None
      with Broadcasting Cons step show ?thesis
        by (auto simp: handle_shard_def split: prod.splits result.splits intro: open_err opened)
    next
      case (Some st)
      with Broadcasting Cons step show ?thesis
        by (auto simp: handle_shard_def split: prod.splits result.splits intro: shard_sent)
    qed
  qed
qed (use assms in \<open>auto simp: handle_done_def handle_take_def handle_shard_def\<close>)

lemma shard_reader_cases:
  assumes "shard_reader i s = Some s'"
  obtains
    (got) st r w where "wp_readers s i = Some ReaderWait" "wp_streams s i = Some st" "cs_RecvMsg st (wp_world s) = (Ok r, w)"
      "s' = acted (ShardRecv i (Ok r)) w (s\<lparr>wp_readers := (wp_readers s)(i \<mapsto> ReaderPush (Some r))\<rparr>)"
  | (ended) st w where "wp_readers s i = Some ReaderWait" "wp_streams s i = Some st" "cs_RecvMsg st (wp_world s) = (Err EOF, w)"
      "s' = s\<lparr>wp_readers := (wp_readers s)(i \<mapsto> ReaderDone), wp_world := w\<rparr>"
  | (broken) st e lg w where "wp_readers s i = Some ReaderWait" "wp_streams s i = Some st" "e \<noteq> EOF"
      "cs_RecvMsg st (wp_world s) = (Err e, w)"
      "s' = acted (ShardRecv i (Err e)) w (s\<lparr>wp_readers := (wp_readers s)(i \<mapsto> ReaderPush None), wp_log := lg\<rparr>)"
  | (push) r where "wp_readers s i = Some (ReaderPush r)" "length (wp_respChan s) < chan_cap"
      "s' = acted (PushResponse i r) (wp_world s)
         (s\<lparr>wp_readers := (wp_readers s)(i \<mapsto> ReaderWait), wp_respChan := wp_respChan s @ [r]\<rparr>)"
proof (cases "wp_readers s i")
  case (Some pc)
  show ?thesis
  proof (cases pc)
    case ReaderWait
    with Some assms show ?thesis
      by (auto simp: shard_reader_def split: option.splits prod.splits result.splits if_splits
          intro: got ended broken)
  qed (use Some assms in \<open>auto simp: shard_reader_def split: if_splits intro: push\<close>)
qed (use assms in \<open>auto simp: shard_reader_def\<close>)

lemma send_cases:
  assumes "send_done s = Some s' \<or> send_take s = Some s' \<or> send_message FromError p s = Some s'"
  obtains
    (ctx_done) e where "wp_send s = SendWait" "wp_ctxErr s = Some e" "s' = returned e (s\<lparr>wp_send := SendDone (Err e)\<rparr>)"
  | (take) m rest where "wp_send s = SendWait" "wp_respChan s = m # rest"
      "s' = acted (TakeResponse m) (wp_world s) (s\<lparr>wp_send := Sending m, wp_respChan := rest\<rparr>)"
  | (sent) m w where "wp_send s = Sending m" "ss_SendMsg (sp_gRPCStream p) m (wp_world s) = (Ok (), w)"
      "s' = acted (ClientSend m (Ok ())) w (s\<lparr>wp_send := SendWait\<rparr>)"
  | (send_err) m e lg w where "wp_send s = Sending m" "ss_SendMsg (sp_gRPCStream p) m (wp_world s) = (Err e, w)"
      "s' = returned e (acted (ClientSend m (Err e)) w (s\<lparr>wp_send := SendDone (Err e), wp_log := lg\<rparr>))"
proof (cases "wp_send s")
  case SendWait
  with assms show ?thesis
    by (auto simp: send_done_def send_take_def send_message_def split: option.splits list.splits intro: ctx_done take)
next
  case (Sending m)
  with assms have "send_message FromError p s = Some s'" by (auto simp: send_done_def send_take_def)
  with Sending show ?thesis
    by (auto simp: send_message_def split: prod.splits result.splits intro: sent send_err)
qed (use assms in \<open>auto simp: send_done_def send_take_def send_message_def\<close>)

lemma watch_step_cases:
  assumes "watch_step FromError p ev s = Some s'"
  obtains (recv) "recvLoop p s = Some s'"
  | (handle) "handle_done s = Some s' \<or> handle_take p s = Some s' \<or> handle_shard p s = Some s'"
  | (reader) i where "ev = ShardReader i" "shard_reader i s = Some s'"
  | (send) "send_done s = Some s' \<or> send_take s = Some s' \<or> send_message FromError p s = Some s'"
  | (outside) ce pe w where "s' = s\<lparr>wp_parentErr := pe, wp_ctxErr := ce, wp_world := w\<rparr>"
      "wp_ctxErr s \<noteq> None \<Longrightarrow> ce = wp_ctxErr s"
proof (cases ev)
  case (Outside w)
  with assms show ?thesis by (intro outside [where pe = "wp_parentErr s" and ce = "wp_ctxErr s" and w = w]) auto
next
  case (ParentDone e)
  with assms show ?thesis
    by (intro outside [where pe = "wp_parentErr s'" and ce = "wp_ctxErr s'" and w = "wp_world s"]) (auto split: option.splits)
qed (use assms recv handle reader send in auto)

lemmas watch_updates = acted_def returned_def cancel_ctx_def

section \<open>What was done\<close>

definition client_requests :: "watch_action list \<Rightarrow> WatchRequest list" where
  "client_requests h = concat (map (\<lambda>a. case a of ClientRecv q \<Rightarrow> [q] | _ \<Rightarrow> []) h)"

definition taken_requests :: "watch_action list \<Rightarrow> WatchRequest list" where
  "taken_requests h = concat (map (\<lambda>a. case a of TakeRequest q \<Rightarrow> [q] | _ \<Rightarrow> []) h)"

text \<open>What a shard's stream was handed, with the result of each send, and those it took; what receiving from it gave.\<close>

definition shard_sends :: "int \<Rightarrow> watch_action list \<Rightarrow> (WatchRequest \<times> unit result) list" where
  "shard_sends i h = concat (map (\<lambda>a. case a of ShardSend j q r \<Rightarrow> if j = i then [(q, r)] else [] | _ \<Rightarrow> []) h)"

definition shard_accepted :: "int \<Rightarrow> watch_action list \<Rightarrow> WatchRequest list" where
  "shard_accepted i h = map fst (filter (\<lambda>(q, r). r = Ok ()) (shard_sends i h))"

definition shard_receives :: "int \<Rightarrow> watch_action list \<Rightarrow> WatchResponse result list" where
  "shard_receives i h = concat (map (\<lambda>a. case a of ShardRecv j r \<Rightarrow> if j = i then [r] else [] | _ \<Rightarrow> []) h)"

text \<open>The response of a receive; nil where it failed.\<close>

definition response_of :: "WatchResponse result \<Rightarrow> WatchResponse option" where
  "response_of x = (case x of Ok r \<Rightarrow> Some r | _ \<Rightarrow> None)"

lemma response_of_simps [simp]: "response_of (Ok r) = Some r" "response_of (Err e) = None"
  by (simp_all add: response_of_def)

definition pushed_by :: "int \<Rightarrow> watch_action list \<Rightarrow> WatchResponse option list" where
  "pushed_by i h = concat (map (\<lambda>a. case a of PushResponse j r \<Rightarrow> if j = i then [r] else [] | _ \<Rightarrow> []) h)"

definition pushed :: "watch_action list \<Rightarrow> WatchResponse option list" where
  "pushed h = concat (map (\<lambda>a. case a of PushResponse _ r \<Rightarrow> [r] | _ \<Rightarrow> []) h)"

definition taken_responses :: "watch_action list \<Rightarrow> WatchResponse option list" where
  "taken_responses h = concat (map (\<lambda>a. case a of TakeResponse r \<Rightarrow> [r] | _ \<Rightarrow> []) h)"

text \<open>What the client's stream took, and what a failed send was for.\<close>

definition client_responses :: "watch_action list \<Rightarrow> WatchResponse option list" where
  "client_responses h = concat (map (\<lambda>a. case a of ClientSend r (Ok _) \<Rightarrow> [r] | _ \<Rightarrow> []) h)"

definition client_failures :: "watch_action list \<Rightarrow> WatchResponse option list" where
  "client_failures h = concat (map (\<lambda>a. case a of ClientSend r (Err _) \<Rightarrow> [r] | _ \<Rightarrow> []) h)"

lemmas watch_history_defs = client_requests_def taken_requests_def shard_sends_def shard_receives_def
  pushed_by_def pushed_def taken_responses_def client_responses_def client_failures_def

lemma watch_history_Nil [history_simps]:
  "client_requests [] = []" "taken_requests [] = []" "shard_sends i [] = []" "shard_receives i [] = []"
  "pushed_by i [] = []" "pushed [] = []" "taken_responses [] = []" "client_responses [] = []" "client_failures [] = []"
  by (simp_all add: watch_history_defs)

lemma watch_history_snoc [history_simps]:
  "client_requests (h @ [a]) = client_requests h @ (case a of ClientRecv q \<Rightarrow> [q] | _ \<Rightarrow> [])"
  "taken_requests (h @ [a]) = taken_requests h @ (case a of TakeRequest q \<Rightarrow> [q] | _ \<Rightarrow> [])"
  "shard_sends i (h @ [a]) = shard_sends i h @ (case a of ShardSend j q r \<Rightarrow> if j = i then [(q, r)] else [] | _ \<Rightarrow> [])"
  "shard_receives i (h @ [a]) = shard_receives i h @ (case a of ShardRecv j r \<Rightarrow> if j = i then [r] else [] | _ \<Rightarrow> [])"
  "pushed_by i (h @ [a]) = pushed_by i h @ (case a of PushResponse j r \<Rightarrow> if j = i then [r] else [] | _ \<Rightarrow> [])"
  "pushed (h @ [a]) = pushed h @ (case a of PushResponse _ r \<Rightarrow> [r] | _ \<Rightarrow> [])"
  "taken_responses (h @ [a]) = taken_responses h @ (case a of TakeResponse r \<Rightarrow> [r] | _ \<Rightarrow> [])"
  "client_responses (h @ [a]) = client_responses h @ (case a of ClientSend r (Ok _) \<Rightarrow> [r] | _ \<Rightarrow> [])"
  "client_failures (h @ [a]) = client_failures h @ (case a of ClientSend r (Err _) \<Rightarrow> [r] | _ \<Rightarrow> [])"
  by (simp_all add: watch_history_defs)

lemma set_shard_sends: "(q, r) \<in> set (shard_sends i h) \<longleftrightarrow> ShardSend i q r \<in> set h"
  by (force simp: shard_sends_def split: watch_action.splits if_splits)

lemma set_shard_receives: "x \<in> set (shard_receives i h) \<longleftrightarrow> ShardRecv i x \<in> set h"
  by (force simp: shard_receives_def split: watch_action.splits if_splits)

section \<open>Invariants\<close>

definition watch_starts :: "('c, 'm, 'w) watch_state \<Rightarrow> bool" where
  "watch_starts s \<longleftrightarrow> s = watch_start (wp_world s)"

lemma watch_startsE:
  assumes "watch_starts s"
  obtains w where "s = watch_start w"
  using assms by (auto simp: watch_starts_def)

lemmas watch_elims = watch_step_cases recvLoop_cases handle_cases shard_reader_cases send_cases

text \<open>The channel between the first two loops loses nothing.\<close>

definition requests_queued :: "('c, 'm, 'w) watch_state \<Rightarrow> bool" where
  "requests_queued s \<longleftrightarrow>
     client_requests (wp_history s) =
       taken_requests (wp_history s) @ wp_recvChan s @ (case wp_recv s of RecvPush q \<Rightarrow> [q] | _ \<Rightarrow> []) \<and>
     length (wp_recvChan s) \<le> chan_cap"

interpretation request_queue: machine_invariant watch_starts "watch_step FromError p" requests_queued
  for FromError p
proof unfold_locales
  fix s s' ev
  assume "requests_queued s" "watch_step FromError p ev s = Some s'"
  then show "requests_queued s'"
    by (elim watch_elims) (auto simp: requests_queued_def watch_updates history_simps)
qed (auto simp: requests_queued_def watch_start_def history_simps elim!: watch_startsE)

text \<open>Every shard is offered what was taken from the channel, one shard after the other, whatever the sends return.\<close>

definition requests_broadcast :: "('c, 'm, 'w) SingleWatchStreamProxy \<Rightarrow> ('c, 'm, 'w) watch_state \<Rightarrow> bool" where
  "requests_broadcast p s \<longleftrightarrow>
     (let clis = cfg_GetAllShardClis (sp_configs p); h = wp_history s in
      case wp_handle s of
        HandleWait \<Rightarrow> (\<forall>cli \<in> set clis. map fst (shard_sends (GetShardID cli) h) = taken_requests h)
      | Broadcasting q rest \<Rightarrow>
          (\<exists>sent. clis = sent @ rest \<and>
             (\<forall>cli \<in> set sent. map fst (shard_sends (GetShardID cli) h) = taken_requests h) \<and>
             (\<forall>cli \<in> set rest. map fst (shard_sends (GetShardID cli) h) @ [q] = taken_requests h))
      | HandleDone _ \<Rightarrow>
          (\<forall>cli \<in> set clis. map fst (shard_sends (GetShardID cli) h) = taken_requests h \<or>
             (\<exists>q. map fst (shard_sends (GetShardID cli) h) @ [q] = taken_requests h)))"

abbreviation distinct_shards :: "('c, 'm, 'w) SingleWatchStreamProxy \<Rightarrow> bool" where
  "distinct_shards p \<equiv> distinct (map GetShardID (cfg_GetAllShardClis (sp_configs p)))"

lemma requests_broadcast_frame:
  assumes "requests_broadcast p s" "wp_handle s' = wp_handle s"
    and "\<And>i. shard_sends i (wp_history s') = shard_sends i (wp_history s)"
    and "taken_requests (wp_history s') = taken_requests (wp_history s)"
  shows "requests_broadcast p s'"
  using assms(1) unfolding requests_broadcast_def Let_def assms(2-4) .

lemma requests_broadcast_handle:
  assumes inv: "requests_broadcast p s" and dist: "distinct_shards p"
    and step: "handle_done s = Some s' \<or> handle_take p s = Some s' \<or> handle_shard p s = Some s'"
  shows "requests_broadcast p s'"
  using step
proof (cases rule: handle_cases)
  case (shard_sent req cli clis st r w)
  from inv shard_sent(1) obtain sent where sent: "cfg_GetAllShardClis (sp_configs p) = sent @ cli # clis"
    "\<forall>c \<in> set sent. map fst (shard_sends (GetShardID c) (wp_history s)) = taken_requests (wp_history s)"
    "\<forall>c \<in> set (cli # clis). map fst (shard_sends (GetShardID c) (wp_history s)) @ [req] = taken_requests (wp_history s)"
    by (auto simp: requests_broadcast_def Let_def)
  have "GetShardID cli \<notin> GetShardID ` (set sent \<union> set clis)"
    using dist unfolding sent(1) by auto
  then have other: "\<forall>c \<in> set sent \<union> set clis. GetShardID cli \<noteq> GetShardID c" by (metis imageI)
  have "requests_broadcast p s' \<longleftrightarrow> (\<exists>sent'. cfg_GetAllShardClis (sp_configs p) = sent' @ clis \<and>
      (\<forall>c \<in> set sent'. map fst (shard_sends (GetShardID c) (wp_history s')) = taken_requests (wp_history s')) \<and>
      (\<forall>c \<in> set clis. map fst (shard_sends (GetShardID c) (wp_history s')) @ [req] = taken_requests (wp_history s')))"
    using shard_sent(4) by (simp add: requests_broadcast_def Let_def watch_updates)
  also have "\<dots>"
    using sent other shard_sent(4)
    by (intro exI [of _ "sent @ [cli]"]) (auto simp: watch_updates history_simps)
  finally show ?thesis by simp
next
  case (open_err req cli clis e lg w)
  with inv show ?thesis by (fastforce simp: requests_broadcast_def Let_def watch_updates)
next
  case (opened req cli clis st w)
  then show ?thesis by (intro requests_broadcast_frame [OF inv]) simp_all
next
  case (take req rest)
  with inv show ?thesis by (simp add: requests_broadcast_def Let_def watch_updates history_simps)
qed (use inv in \<open>auto simp: requests_broadcast_def Let_def watch_updates\<close>)

interpretation broadcast: machine_invariant watch_starts "watch_step FromError p"
  "\<lambda>s. distinct_shards p \<longrightarrow> requests_broadcast p s" for FromError p
proof unfold_locales
  fix s s' ev
  assume inv: "distinct_shards p \<longrightarrow> requests_broadcast p s" and step: "watch_step FromError p ev s = Some s'"
  show "distinct_shards p \<longrightarrow> requests_broadcast p s'"
  proof
    assume dist: "distinct_shards p"
    with inv have "requests_broadcast p s" by simp
    note frame = requests_broadcast_frame [OF this]
    from step show "requests_broadcast p s'"
    proof (cases rule: watch_step_cases)
      case handle
      with inv dist show ?thesis using requests_broadcast_handle by metis
    next
      case outside
      then show ?thesis by (intro frame) simp_all
    qed (erule recvLoop_cases shard_reader_cases send_cases; rule frame; simp add: watch_updates history_simps)+
  qed
qed (auto simp: requests_broadcast_def Let_def watch_start_def history_simps elim!: watch_startsE)

text \<open>
  The responses: what was taken from the channel was sent to the client, apart from the one in hand and one
  whose send failed, which ended the loop; the channel keeps the order in which each shard answered.
\<close>

definition in_hand :: "('c, 'm, 'w) watch_state \<Rightarrow> WatchResponse option list" where
  "in_hand s = (case wp_send s of Sending m \<Rightarrow> [m] | _ \<Rightarrow> [])"

definition pending :: "int \<Rightarrow> ('c, 'm, 'w) watch_state \<Rightarrow> WatchResponse option list" where
  "pending i s = (case wp_readers s i of Some (ReaderPush r) \<Rightarrow> [r] | _ \<Rightarrow> [])"

definition responses_queued :: "('c, 'm, 'w) watch_state \<Rightarrow> bool" where
  "responses_queued s \<longleftrightarrow>
     pushed (wp_history s) = taken_responses (wp_history s) @ wp_respChan s \<and>
     taken_responses (wp_history s) =
       client_responses (wp_history s) @ client_failures (wp_history s) @ in_hand s \<and>
     (client_failures (wp_history s) = [] \<or>
       (\<exists>m e. client_failures (wp_history s) = [m] \<and> wp_send s = SendDone (Err e))) \<and>
     length (wp_respChan s) \<le> chan_cap \<and>
     (\<forall>i. map response_of (shard_receives i (wp_history s)) = pushed_by i (wp_history s) @ pending i s)"

text \<open>A reader exists only where a stream is open.\<close>

definition readers_open :: "('c, 'm, 'w) watch_state \<Rightarrow> bool" where
  "readers_open s \<longleftrightarrow> (\<forall>i. wp_streams s i = None \<longrightarrow> wp_readers s i = None)"

interpretation response_queue: relative_invariant watch_starts "watch_step FromError p" readers_open responses_queued
  for FromError p
proof unfold_locales
  fix s s' ev
  assume "readers_open s" and step: "watch_step FromError p ev s = Some s'"
  then show "readers_open s'"
    by (elim watch_elims) (auto simp: readers_open_def watch_updates)
next
  fix s s' ev
  assume "readers_open s" "responses_queued s" "watch_step FromError p ev s = Some s'"
  then show "responses_queued s'"
    by (elim watch_elims)
      (auto simp: readers_open_def responses_queued_def in_hand_def pending_def watch_updates history_simps)
qed (auto simp: readers_open_def responses_queued_def in_hand_def pending_def watch_start_def history_simps elim!: watch_startsE)

text \<open>The results recorded in the history are those of the calls on the streams.\<close>

definition action_genuine :: "('c, 'm, 'w) SingleWatchStreamProxy \<Rightarrow> ('c, 'm, 'w) watch_state \<Rightarrow> watch_action \<Rightarrow> bool" where
  "action_genuine p s a \<longleftrightarrow>
     (case a of
        ShardSend i q r \<Rightarrow> \<exists>st w w'. wp_streams s i = Some st \<and> cs_SendMsg st q w = (r, w')
      | ShardRecv i x \<Rightarrow> x \<noteq> Err EOF \<and> (\<exists>st w w'. wp_streams s i = Some st \<and> cs_RecvMsg st w = (x, w'))
      | ClientSend m r \<Rightarrow> \<exists>w w'. ss_SendMsg (sp_gRPCStream p) m w = (r, w')
      | _ \<Rightarrow> True)"

lemma action_genuine_mono:
  "action_genuine p s a \<Longrightarrow> wp_streams s \<subseteq>\<^sub>m wp_streams s' \<Longrightarrow> action_genuine p s' a"
  unfolding action_genuine_def by (cases a) (auto simp: map_le_def, (metis domI)+)

lemma streams_kept: "watch_step FromError p ev s = Some s' \<Longrightarrow> wp_streams s \<subseteq>\<^sub>m wp_streams s'"
  by (elim watch_elims) (auto simp: watch_updates map_le_def)

lemma recorded_genuine:
  assumes "watch_step FromError p ev s = Some s'"
  shows "wp_history s' = wp_history s \<or> (\<exists>a. wp_history s' = wp_history s @ [a] \<and> action_genuine p s' a)"
  using assms by (elim watch_elims) (auto simp: watch_updates action_genuine_def)

interpretation calls: machine_invariant watch_starts "watch_step FromError p"
  "\<lambda>s. \<forall>a \<in> set (wp_history s). action_genuine p s a" for FromError p
proof unfold_locales
  fix s s' ev
  assume "\<forall>a \<in> set (wp_history s). action_genuine p s a" and step: "watch_step FromError p ev s = Some s'"
  then have "\<forall>a \<in> set (wp_history s). action_genuine p s' a"
    using action_genuine_mono streams_kept [OF step] by blast
  with recorded_genuine [OF step] show "\<forall>a \<in> set (wp_history s'). action_genuine p s' a" by auto
qed (auto simp: watch_start_def elim!: watch_startsE)

text \<open>
  The loops end with errors only, apart from \<open>recvLoop\<close>; \<open>sendLoop\<close> ends when the context is done or a
  send to the client fails, and the group's error is one a loop returned.
\<close>

definition returns_justified :: "('c, 'm, 'w) watch_state \<Rightarrow> bool" where
  "returns_justified s \<longleftrightarrow>
     (\<forall>r. wp_send s = SendDone r \<longrightarrow>
        wp_first s \<noteq> None \<and> (wp_ctxErr s \<noteq> None \<or> (\<exists>m e. ClientSend m (Err e) \<in> set (wp_history s)))) \<and>
     (\<forall>e. wp_first s = Some e \<longrightarrow>
        wp_recv s = RecvDone (Err e) \<or> wp_handle s = HandleDone (Err e) \<or> wp_send s = SendDone (Err e))"

interpretation returns: machine_invariant watch_starts "watch_step FromError p" returns_justified
  for FromError p
proof unfold_locales
  fix s s' ev
  assume "returns_justified s" "watch_step FromError p ev s = Some s'"
  then show "returns_justified s'"
    by (elim watch_elims) (auto simp: returns_justified_def watch_updates split: option.splits)
qed (auto simp: returns_justified_def watch_start_def elim!: watch_startsE)

section \<open>A broken shard stream\<close>

text \<open>
  \<open>broken B st\<close>: in the worlds \<open>B\<close> receiving from the stream fails with an error that is not EOF, which
  is what a gRPC stream does once it has failed. Its reader does not stop, whatever else happens while the
  stream is broken: it hands over a nil response every second step. \<open>nil_reader\<close> is the state of such
  a reader, \<open>owes\<close> whether it has a nil response to hand over.
\<close>

definition broken :: "('w \<Rightarrow> bool) \<Rightarrow> ('w, 'm, WatchRequest, WatchResponse) ClientStream \<Rightarrow> bool" where
  "broken B st \<longleftrightarrow> (\<forall>w. B w \<longrightarrow> (\<exists>e w'. cs_RecvMsg st w = (Err e, w') \<and> e \<noteq> EOF))"

definition nil_reader :: "int \<Rightarrow> ('w, 'm, WatchRequest, WatchResponse) ClientStream \<Rightarrow> ('c, 'm, 'w) watch_state \<Rightarrow> bool" where
  "nil_reader i st s \<longleftrightarrow>
     wp_streams s i = Some st \<and> (wp_readers s i = Some ReaderWait \<or> wp_readers s i = Some (ReaderPush None))"

definition owes :: "int \<Rightarrow> ('c, 'm, 'w) watch_state \<Rightarrow> nat" where
  "owes i s = (if wp_readers s i = Some ReaderWait then 0 else 1)"

lemma broken_own_step:
  assumes "nil_reader i st s" "broken B st" "B (wp_world s)" "shard_reader i s = Some s'"
  shows "nil_reader i st s' \<and>
    (\<exists>n. pushed_by i (wp_history s') = pushed_by i (wp_history s) @ replicate n None \<and> 2 * n + owes i s' = owes i s + 1)"
  using assms(4)
proof (cases rule: shard_reader_cases)
  case (broken st e lg w)
  with assms(1) show ?thesis by (intro conjI exI [of _ 0]) (auto simp: nil_reader_def owes_def watch_updates history_simps)
next
  case (push r)
  with assms(1) show ?thesis by (intro conjI exI [of _ 1]) (auto simp: nil_reader_def owes_def watch_updates history_simps)
qed (use assms(1-3) in \<open>auto simp: nil_reader_def broken_def\<close>)

lemma broken_other_step:
  assumes "nil_reader i st s" "ev \<noteq> ShardReader i" "watch_step FromError p ev s = Some s'"
  shows "nil_reader i st s' \<and> pushed_by i (wp_history s') = pushed_by i (wp_history s) \<and> owes i s' = owes i s"
  using assms by (elim watch_elims) (auto simp: nil_reader_def owes_def watch_updates history_simps)

lemma broken_exec:
  assumes "broken B st" "nil_reader i st s" "exec (watch_step FromError p) sched s = Some s'"
    and "\<forall>t \<in> set (visited (watch_step FromError p) sched s). B (wp_world t)"
  shows "nil_reader i st s' \<and>
    (\<exists>n. pushed_by i (wp_history s') = pushed_by i (wp_history s) @ replicate n None \<and>
       2 * n + owes i s' = owes i s + count_list sched (ShardReader i))"
  using assms(2-4)
proof (induction sched arbitrary: s)
  case (Cons ev sched)
  from Cons.prems(2) obtain t where t: "watch_step FromError p ev s = Some t" "exec (watch_step FromError p) sched t = Some s'"
    by (auto simp: bind_eq_Some_conv)
  obtain m where m: "nil_reader i st t" "pushed_by i (wp_history t) = pushed_by i (wp_history s) @ replicate m None"
    "2 * m + owes i t = owes i s + (if ev = ShardReader i then 1 else 0)"
  proof (cases "ev = ShardReader i")
    case True
    with broken_own_step [OF Cons.prems(1) assms(1)] Cons.prems(3) t(1) that show thesis by auto
  next
    case False
    with broken_other_step [OF Cons.prems(1) _ t(1)] that [of 0] show thesis by auto
  qed
  from Cons.IH [OF m(1) t(2)] Cons.prems(3) t(1) obtain n where n: "nil_reader i st s'"
    "pushed_by i (wp_history s') = pushed_by i (wp_history t) @ replicate n None"
    "2 * n + owes i s' = owes i t + count_list sched (ShardReader i)" by auto
  from n(2) m(2) have "pushed_by i (wp_history s') = pushed_by i (wp_history s) @ replicate (m + n) None"
    by (simp add: replicate_add)
  with n(1,3) m(3) show ?case by (intro conjI exI [of _ "m + n"]) auto
qed (auto intro: exI [of _ 0])

lemma broken_enabled:
  assumes "broken B st" "nil_reader i st s" "B (wp_world s)" "length (wp_respChan s) < chan_cap"
  shows "\<exists>s'. shard_reader i s = Some s'"
  using assms by (auto simp: nil_reader_def broken_def shard_reader_def split: prod.splits result.splits)

end
