(* ===== verification/Stream_Theorems.thy ===== *)
theory Stream_Theorems
  imports Coordinated_Watch Watch_Proxy Memory_Cluster
begin

text \<open>
  The properties of the streaming calls, for every schedule of the goroutines and every behaviour of the
  peers: \<open>forwardBidi\<close> (backend and coordinated mode), the coordinated watch, and the watch proxy of the
  legacy mode. Every theorem is followed by a witness on scripted streams.
\<close>

section \<open>Forwarding\<close>

text \<open>
  C16. Forwarding keeps order and loses nothing: at every moment the requests handed to the backend are a
  prefix of those received from the client, at most one behind, and the responses handed to the client
  are a prefix of those received from the backend, at most one behind; once the client's half-close was
  passed on, every request was.
\<close>

theorem forwarding_in_order:
  assumes "reachable forwarding_starts (bidi_step g front bk cancel) s"
  shows "prefix (back_sent (b_history s)) (front_received (b_history s)) \<and>
    length (front_received (b_history s)) \<le> Suc (length (back_sent (b_history s))) \<and>
    prefix (front_sent (b_history s)) (back_received (b_history s)) \<and>
    length (back_received (b_history s)) \<le> Suc (length (front_sent (b_history s))) \<and>
    (BackCloseSend (Ok ()) \<in> set (b_history s) \<longrightarrow> back_sent (b_history s) = front_received (b_history s))"
proof -
  have "front_received (b_history s) = back_sent (b_history s) \<or>
      (\<exists>q. front_received (b_history s) = back_sent (b_history s) @ [q])"
    using request_order.always [OF assms] by (auto simp: requests_ordered_def split: request_pc.splits)
  moreover have "back_received (b_history s) = front_sent (b_history s) \<or>
      (\<exists>r. back_received (b_history s) = front_sent (b_history s) @ [r])"
    using response_order.always [OF assms] by (auto simp: responses_ordered_def split: response_pc.splits)
  moreover have "BackCloseSend (Ok ()) \<in> set (b_history s) \<longrightarrow> back_sent (b_history s) = front_received (b_history s)"
    using half_close.always' [OF assms] by (auto simp: half_close_quiet_def)
  ultimately show ?thesis by auto
qed

text \<open>Scripted peers: the world is whether the backend was cancelled, what the client and the backend do.\<close>

type_synonym script = "bool \<times> string result list \<times> string list"

definition script_grpc :: "(unit, unit, script) Grpc" where
  "script_grpc = \<lparr>FromIncomingContext = (\<lambda>_. ()), FromOutgoingContext = (\<lambda>_. ()), NewOutgoingContext = (\<lambda>_ _. ()),
     MD_Join = (\<lambda>_ _. ()), MD_len = (\<lambda>_. 1), grpc_SetHeader = (\<lambda>_ _ w. w), grpc_SetTrailer = (\<lambda>_ _ w. w)\<rparr>"

definition script_front :: "(unit, script, unit, string, string) ServerStream" where
  "script_front = \<lparr>ss_Context = (),
     ss_RecvMsg = (\<lambda>(c, qs, rs). case qs of [] \<Rightarrow> (Err EOF, (c, [], rs)) | q # qs \<Rightarrow> (q, (c, qs, rs))),
     ss_SendMsg = (\<lambda>_ w. (Ok (), w)), ss_SendHeader = (\<lambda>_ w. (Ok (), w)), ss_SetTrailer = (\<lambda>_ w. w)\<rparr>"

definition script_back :: "(script, unit, string, string) ClientStream" where
  "script_back = \<lparr>cs_SendMsg = (\<lambda>_ w. (Ok (), w)),
     cs_RecvMsg = (\<lambda>(c, qs, rs). if c then (Err (Status Canceled ''canceled''), (c, qs, rs))
       else case rs of [] \<Rightarrow> (Err EOF, (c, qs, [])) | r # rs \<Rightarrow> (Ok r, (c, qs, rs))),
     cs_CloseSend = (\<lambda>w. (Ok (), w)), cs_Header = (\<lambda>w. (Ok (), w)), cs_Trailer = (\<lambda>_. ())\<rparr>"

definition script_cancel :: "script \<Rightarrow> script" where
  "script_cancel = (\<lambda>(c, x). (True, x))"

lemmas script_defs = script_grpc_def script_front_def script_back_def script_cancel_def

text \<open>A call with one request and one response, and the client's half-close between them.\<close>

definition echo_schedule :: "script bidi_event list" where
  "echo_schedule = [Requests, Responses, Requests, Responses, Requests, Responses, Requests, Responses,
     Responses, Responses, Responses]"

lemma echo_call:
  "\<exists>s. forwardBidi script_grpc script_front script_back script_cancel echo_schedule (False, [Ok ''q''], [''r'']) = Some (Ok (), s) \<and>
     front_received (b_history s) = [''q''] \<and> back_received (b_history s) = [''r''] \<and> send_errors (b_history s) = [] \<and>
     BackCloseSend (Ok ()) \<in> set (b_history s)"
  by (simp add: forwardBidi_def echo_schedule_def bidi_start_def request_step_def response_step_def script_defs did_def
      history_simps front_received_def back_received_def send_errors_def Let_def)

theorem forwarding_in_order_witness:
  "\<exists>s. forwardBidi script_grpc script_front script_back script_cancel echo_schedule (False, [Ok ''q''], [''r'']) = Some (Ok (), s) \<and>
     back_sent (b_history s) = [''q''] \<and> prefix (front_sent (b_history s)) [''r'']"
proof -
  obtain s where s: "forwardBidi script_grpc script_front script_back script_cancel echo_schedule (False, [Ok ''q''], [''r'']) = Some (Ok (), s)"
    "front_received (b_history s) = [''q'']" "back_received (b_history s) = [''r'']" "BackCloseSend (Ok ()) \<in> set (b_history s)"
    using echo_call by blast
  from forwardBidi_reach [OF s(1)] have "bidi_reach script_grpc script_front script_back script_cancel s" ..
  from forwarding_in_order [OF this] s show ?thesis by auto
qed

text \<open>
  C15. The status of a forwarded stream is authoritative. The handler writes at most one header, then
  messages, then the trailer once, and nothing after it returned. It returns the error of the request
  side if one was reported before the return, an error other than EOF of a call on that side; otherwise
  success only if the backend ended the stream and every response was delivered, or else an error of a
  call of the response side.
\<close>

theorem forwarding_status:
  assumes "forwardBidi g front bk cancel sched w = Some (res, s)"
  shows "\<exists>h1 h2. b_history s = h1 @ HandlerReturn res # h2 \<and> complete_response (filter to_front h1) \<and>
    filter to_front h2 = [] \<and>
    (case send_errors h1 of
       e # _ \<Rightarrow> res = Err e \<and> requests_failure (b_history s) e
     | [] \<Rightarrow> responses_outcome h1 res)"
proof -
  from forwardBidi_reach [OF assms] have r: "bidi_reach g front bk cancel s" "b_response s = HandlerDone res" by auto
  from status.always' [OF r(1)] r(2) obtain h1 h2 where
    h: "b_history s = h1 @ HandlerReturn res # h2" "status_of h1 res" "\<forall>a \<in> set h2. \<not> to_front a"
    by (auto simp: status_recorded_def)
  have quiet: "filter to_front h2 = []" using h(3) by (simp add: filter_empty_conv)
  with front_writes.always [OF r(1)] r(2) h(1) have "complete_response (filter to_front h1)"
    by (simp add: front_writes_ordered_def)
  moreover have "requests_failure (b_history s) e" if "send_errors h1 = e # es" for e es
    using failures.always [OF r(1)] h(1) that set_send_errors [of e h1] by (auto simp: failures_recorded_def)
  ultimately show ?thesis using h quiet
    by (intro exI [of _ h1] exI [of _ h2]) (auto simp: status_of_def split: list.splits)
qed

theorem forwarding_status_witness:
  "\<exists>s h1 h2. forwardBidi script_grpc script_front script_back script_cancel echo_schedule (False, [Ok ''q''], [''r'']) = Some (Ok (), s) \<and>
     b_history s = h1 @ HandlerReturn (Ok ()) # h2 \<and> BackRecv (Err EOF) \<in> set h1 \<and> front_sent h1 = back_received h1"
proof -
  obtain s where s: "forwardBidi script_grpc script_front script_back script_cancel echo_schedule (False, [Ok ''q''], [''r'']) = Some (Ok (), s)"
    "send_errors (b_history s) = []"
    using echo_call by blast
  from forwarding_status [OF s(1)] obtain h1 h2 where h: "b_history s = h1 @ HandlerReturn (Ok ()) # h2"
    "case send_errors h1 of e # _ \<Rightarrow> Ok () = Err e \<and> requests_failure (b_history s) e | [] \<Rightarrow> responses_outcome h1 (Ok ())"
    by auto
  from s(2) h(1) have "send_errors h1 = []" by (simp add: send_errors_def)
  with h s(1) show ?thesis by (auto simp: responses_outcome_def)
qed

text \<open>
  C21. A reported failure of the request side decides the call. Once an error of that side was put into the
  channel and the handler has not returned: in every schedule, whatever the handler was doing and whatever the
  environment does, the handler returns nothing but that error. Once the backend was cancelled too, every
  step of the handler is enabled until it returned, and every schedule with five of them ends with that result. The second part needs of
  the gRPC library that receiving from a cancelled stream fails, that it stays cancelled and that calls on the
  client's stream return. (An error that was not reported before the handler looked into the channel is not
  returned.)
\<close>

theorem request_failure_ends_call:
  assumes "reachable forwarding_starts (bidi_step g front bk cancel) s" and "b_sendError s = Some e"
    and "\<forall>res. b_response s \<noteq> HandlerDone res"
    and "exec (bidi_step g front bk cancel) sched s = Some s'"
  shows "(\<forall>res. b_response s' = HandlerDone res \<longrightarrow> res = Err e) \<and>
    (b_request s = RequestsDone \<and> D (b_world s) \<and> severed D bk \<and> usable D front \<and> list_all (keeps_cancelled D) sched \<longrightarrow>
       (b_response s' = HandlerDone (Err e) \<or> (\<exists>s''. bidi_step g front bk cancel Responses s' = Some s'')) \<and>
       (5 \<le> handler_steps sched \<longrightarrow> b_response s' = HandlerDone (Err e)))"
proof -
  have d: "decided_by e s" using reported_decides [OF assms(1,2)] assms(3) by (auto simp: handler_returned_iff)
  then have d': "decided_by e s'" using assms(4) by (rule decided_by.always_exec)
  have left: "steps_left (b_response s) \<le> 5" by (cases "b_response s") simp_all
  have "(b_response s' = HandlerDone (Err e) \<or> (\<exists>s''. bidi_step g front bk cancel Responses s' = Some s'')) \<and>
       (5 \<le> handler_steps sched \<longrightarrow> b_response s' = HandlerDone (Err e))"
    if stopped: "b_request s = RequestsDone" "D (b_world s)" and D: "severed D bk" "usable D front"
      and env: "list_all (keeps_cancelled D) sched"
  proof (cases "handler_returned s'")
    case True
    with d' show ?thesis by (simp add: decided_by_def)
  next
    case False
    note down = severed_runs_down [OF D d stopped env assms(4)]
    from False obtain n where n: "steps_left (b_response s') = Suc n" by (auto simp: handler_returned_def gr0_conv_Suc)
    from severed_step [OF D conjunct1 [OF down] n, of g] have "\<exists>s''. bidi_step g front bk cancel Responses s' = Some s''"
      by auto
    with down n left show ?thesis by auto
  qed
  with d' show ?thesis by (auto simp: decided_by_def handler_returned_iff simp del: bidi_step.simps)
qed

lemma script_severed: "severed fst script_back"
  by (auto simp: severed_def script_back_def preserves_def no_panic_def)

lemma script_usable: "usable fst script_front"
  by (auto simp: usable_def script_front_def preserves_def no_panic_def)

theorem request_failure_ends_call_witness:
  "\<exists>s'. exec (bidi_step script_grpc script_front script_back script_cancel)
       [Requests, Requests, Requests, Responses, Responses, Environment (True, [], []), Responses, Responses, Responses]
       (bidi_start AtFrontRecv (False, [Err (Status Canceled ''client'')], [''r''])) = Some s' \<and>
     b_response s' = HandlerDone (Err (Status Canceled ''client''))"
proof -
  let ?step = "bidi_step script_grpc script_front script_back script_cancel"
  let ?init = "bidi_start AtFrontRecv (False, [Err (Status Canceled ''client'')], [''r''])"
  let ?rest = "[Responses, Responses, Environment (True, [], []), Responses, Responses, Responses] :: script bidi_event list"
  obtain s h where s: "exec ?step [Requests, Requests, Requests] ?init = Some s"
    and s_def: "s = \<lparr>b_request = RequestsDone, b_response = AtHeader, b_sendError = Some (Status Canceled ''client''),
      b_world = (True, [], [''r'']), b_history = h\<rparr>"
    by (simp add: bidi_start_def request_step_def script_defs did_def)
  have "reachable forwarding_starts ?step ?init"
    by (rule reachable_start) (simp add: forwarding_starts_def bidi_start_def)
  then have r: "reachable forwarding_starts ?step s" using s by (rule exec_reachable)
  obtain s' where s': "exec ?step ?rest s = Some s'"
    by (simp add: s_def response_step_def script_defs did_def Let_def)
  have e: "b_sendError s = Some (Status Canceled ''client'')" by (simp add: s_def)
  have "b_response s' = HandlerDone (Err (Status Canceled ''client''))"
  proof -
    have "b_request s = RequestsDone \<and> fst (b_world s) \<and> severed fst script_back \<and> usable fst script_front \<and>
        list_all (keeps_cancelled fst) ?rest"
      by (simp add: s_def script_severed script_usable)
    moreover have "\<forall>res. b_response s \<noteq> HandlerDone res" "5 \<le> handler_steps ?rest" by (simp_all add: s_def)
    ultimately show ?thesis using request_failure_ends_call [OF r e _ s', of fst] by blast
  qed
  moreover have "exec ?step ([Requests, Requests, Requests] @ ?rest) ?init = Some s'"
    using s s' by (simp only: exec_append Option.bind.simps)
  ultimately show ?thesis by (intro exI [of _ s']) simp
qed

section \<open>The coordinated watch\<close>

text \<open>
  C14. Every response a watching client receives is one the coordinator sent, event by event in order:
  the user's key, the coordinator's revisions, and for a put the value its reference stands for at that
  moment; a reference is never passed on in place of a value.
\<close>

theorem watch_delivers_values:
  assumes "environment d"
    and "reachable forwarding_starts
      (bidi_step (dp_grpc d) front (coordinatedWatchStream (dp_grpc d) (dp_proxy d) ctx bk) cancel) s"
    and "r \<in> set (front_sent (b_history s))"
  shows "\<exists>raw w w'. cs_RecvMsg bk w = (Ok raw, w') \<and> response_reads d w' raw r"
proof -
  have "responses_ordered s" by (rule response_order.always [OF assms(2)])
  then have "set (front_sent (b_history s)) \<subseteq> set (back_received (b_history s))"
    by (auto simp: responses_ordered_def split: response_pc.splits)
  with genuine.always [OF assms(2)] assms(3)
  have "answer_of (cs_RecvMsg (coordinatedWatchStream (dp_grpc d) (dp_proxy d) ctx bk)) r"
    by (auto simp: messages_genuine_def)
  then show ?thesis
    using watch_RecvMsg_reads [OF assms(1)] by (fastforce simp: answer_of_def coordinatedWatchStream_def)
qed

definition watch_blob :: bytes where
  "watch_blob = CoordinatedBlobPrefix @ hex_encode [CHR ''t'']"

definition watch_world :: mem where
  "watch_world = \<lparr>mem_meta = [], mem_blobs = [[(watch_blob, ''v1'')], []], mem_drawn = 0\<rparr>"

definition raw_response :: WatchResponse where
  "raw_response =
     \<lparr>wr_Header = None, wr_WatchId = 7, wr_Created = False, wr_Canceled = False, wr_CompactRevision = 0,
      wr_Events = [\<lparr>ev_Type = PUT,
        ev_Kv = Some (mem_kv False (''/__etcd_sharding/keys/b'', Marshal_ref \<lparr>ref_Shard = int 0, ref_Key = watch_blob\<rparr>)),
        ev_PrevKv = None\<rparr>], wr_rest = []\<rparr>"

definition raw_stream :: "(mem, unit, WatchRequest, WatchResponse) ClientStream" where
  "raw_stream = \<lparr>cs_SendMsg = (\<lambda>_. io_return ()), cs_RecvMsg = io_return raw_response,
     cs_CloseSend = io_return (), cs_Header = io_return (), cs_Trailer = (\<lambda>_. ())\<rparr>"

definition watch_client :: "(unit, mem, unit, WatchRequest, WatchResponse) ServerStream" where
  "watch_client = \<lparr>ss_Context = (), ss_RecvMsg = io_err EOF, ss_SendMsg = (\<lambda>_. io_return ()),
     ss_SendHeader = (\<lambda>_. io_return ()), ss_SetTrailer = (\<lambda>_ w. w)\<rparr>"

lemma watch_blob_read:
  "decode_kv mem_grpc mem_proxy () False
     (mem_kv False (''/__etcd_sharding/keys/b'', Marshal_ref \<lparr>ref_Shard = int 0, ref_Key = watch_blob\<rparr>)) watch_world =
   (Ok (mem_kv False (''b'', ''v1'')), watch_world)"
proof -
  have "valid_ref (length (cp_clients mem_proxy)) (Marshal_ref \<lparr>ref_Shard = int 0, ref_Key = watch_blob\<rparr>) =
      Some \<lparr>ref_Shard = int 0, ref_Key = watch_blob\<rparr>"
    unfolding watch_blob_def by (rule valid_ref_Marshal) (simp_all add: mem_proxy_def mem_shards_def)
  moreover have "Marshal_ref \<lparr>ref_Shard = int 0, ref_Key = watch_blob\<rparr> \<noteq> []" by (simp add: Marshal_ref_def json_object_def)
  moreover have "rpc_call (KV_Range (cp_clients mem_proxy ! 0)) (backendContext mem_grpc ()) (get_request watch_blob) watch_world =
      (Ok (mem_range_response (get_request watch_blob) [(watch_blob, ''v1'')]), watch_world)"
    by (simp add: rpc_call_def mem_proxy_def mem_shards_def mem_stubs_def mem_shard_def mem_client_def watch_world_def)
  ultimately show ?thesis
    by (simp add: decode_kv_def mem_kv_def CoordinatedMetadataPrefix_def Let_def io_bind_def mem_range_response_def mem_get)
qed

lemma watch_delivery:
  "\<exists>s. exec (bidi_step mem_grpc watch_client (coordinatedWatchStream mem_grpc mem_proxy () raw_stream) id)
       [Responses, Responses, Responses] (bidi_start AtFrontRecv watch_world) = Some s \<and>
     (\<exists>r. front_sent (b_history s) = [r])"
  using watch_blob_read
  by (simp add: bidi_start_def response_step_def coordinatedWatchStream_def watch_RecvMsg_def raw_stream_def raw_response_def
      watch_client_def mem_grpc_def decodeEvent_def decodeKV_def did_def io_bind_def io_return_def front_sent_def)

theorem watch_delivers_values_witness:
  "\<exists>s r kv. exec (bidi_step mem_grpc watch_client (coordinatedWatchStream mem_grpc mem_proxy () raw_stream) id)
       [Responses, Responses, Responses] (bidi_start AtFrontRecv watch_world) = Some s \<and>
     r \<in> set (front_sent (b_history s)) \<and> map ev_Kv (wr_Events r) = [Some kv] \<and> kv_Key kv = ''b''"
proof -
  let ?step = "bidi_step mem_grpc watch_client (coordinatedWatchStream mem_grpc mem_proxy () raw_stream) id"
  obtain s r where s: "exec ?step [Responses, Responses, Responses] (bidi_start AtFrontRecv watch_world) = Some s"
    "front_sent (b_history s) = [r]" using watch_delivery by blast
  have "reachable forwarding_starts ?step (bidi_start AtFrontRecv watch_world)"
    by (rule reachable_start) (simp add: forwarding_starts_def bidi_start_def)
  then have "reachable forwarding_starts ?step s" using s(1) by (rule exec_reachable)
  with watch_delivers_values [OF mem_environment, of watch_client "()" raw_stream id s r] s(2)
  obtain w where "response_reads mem_deployment w raw_response r"
    by (auto simp: mem_deployment_def raw_stream_def)
  then obtain kv where "map ev_Kv (wr_Events r) = [Some kv]" "kv_Key kv = ''b''"
    by (auto simp: response_reads_def raw_response_def list_all2_Cons1 event_reads_def option_rel_Some1 reads_def resolved_def decoded_def
        mem_kv_def CoordinatedMetadataPrefix_def)
  with s show ?thesis by auto
qed

text \<open>
  C20. A request to watch is checked before it reaches the coordinator. With a key, it is sent to the coordinator's stream, once,
  for the range that holds the metadata keys of exactly the user's range, with its other fields unchanged, and
  the client's next request is read only if the send succeeded. With an empty key, nothing is sent: in every
  schedule that follows no further request is received from the client or sent to the coordinator, and if the
  handler returns, it returns \<open>InvalidArgument\<close>, unless it returned before the error was reported to it.
\<close>

theorem watch_create_checked:
  assumes "reachable forwarding_starts (bidi_step g front (coordinatedWatchStream g p ctx bk) cancel) s"
    and "b_request s = AtBackSend (WatchCreate c)"
    and "bidi_step g front (coordinatedWatchStream g p ctx bk) cancel Requests s = Some s1"
    and "exec (bidi_step g front (coordinatedWatchStream g p ctx bk) cancel) sched s1 = Some s2"
  shows "if wc_Key c \<noteq> [] then
      \<exists>k e r. prefixed_range (wc_Key c) (wc_RangeEnd c) k e \<and>
        cs_SendMsg bk (WatchCreate (c\<lparr>wc_Key := k, wc_RangeEnd := e\<rparr>)) (b_world s) = (r, b_world s1) \<and>
        (accepted r \<longleftrightarrow> b_request s1 = AtFrontRecv)
    else b_world s1 = b_world s \<and> front_received (b_history s2) = front_received (b_history s) \<and>
      back_sent (b_history s2) = back_sent (b_history s) \<and>
      (\<forall>res. b_response s2 = HandlerDone res \<longrightarrow> (\<exists>msg. res = Err (Status InvalidArgument msg)) \<or>
         (\<exists>h1 h2. b_history s2 = h1 @ HandlerReturn res # h2 \<and> send_errors h1 = []))"
proof (cases "wc_Key c = []")
  case False
  with watch_create_step(2) [OF assms(2,3)] show ?thesis by simp
next
  case True
  from watch_create_step(1) [OF assms(2,3) True] obtain msg where fail: "b_request s1 = AtFail (Status InvalidArgument msg)"
    and same: "b_world s1 = b_world s" "front_received (b_history s1) = front_received (b_history s)"
      "back_sent (b_history s1) = back_sent (b_history s)" by blast
  note reach = reachable_step [OF assms(1,3)]
  from halted.always_exec [OF AtFail_halted [OF reach fail] assms(4)]
  have h: "halted (Status InvalidArgument msg) (front_received (b_history s)) (back_sent (b_history s)) s2"
    by (simp only: same(2,3))
  with halted_result [OF exec_reachable [OF reach assms(4)] h] True same(1) show ?thesis by (auto simp: halted_def)
qed

text \<open>A client that asks to watch the empty key, and one that watches \<open>b\<close>.\<close>

definition watch_of :: "bytes \<Rightarrow> WatchCreateRequest" where
  "watch_of k = \<lparr>wc_Key = k, wc_RangeEnd = [], wc_StartRevision = 0, wc_PrevKv = False, wc_WatchId = 0, wc_rest = []\<rparr>"

definition create_client :: "bytes \<Rightarrow> (unit, mem, unit, WatchRequest, WatchResponse) ServerStream" where
  "create_client k = watch_client\<lparr>ss_RecvMsg := io_return (WatchCreate (watch_of k))\<rparr>"

definition ended_stream :: "(mem, unit, WatchRequest, WatchResponse) ClientStream" where
  "ended_stream = raw_stream\<lparr>cs_RecvMsg := io_err EOF\<rparr>"

theorem watch_create_checked_witness:
  "\<exists>s2 msg. exec (bidi_step mem_grpc (create_client []) (coordinatedWatchStream mem_grpc mem_proxy () ended_stream) id)
       [Requests, Requests, Responses, Requests, Responses, Requests, Responses, Responses] (bidi_start AtFrontRecv watch_world) = Some s2 \<and>
     back_sent (b_history s2) = [] \<and> b_response s2 = HandlerDone (Err (Status InvalidArgument msg))"
proof -
  let ?str = "coordinatedWatchStream mem_grpc mem_proxy () ended_stream"
  let ?step = "bidi_step mem_grpc (create_client []) ?str id"
  let ?rest = "[Responses, Requests, Responses, Requests, Responses, Responses] :: mem bidi_event list"
  let ?init = "bidi_start AtFrontRecv watch_world"
  note defs = bidi_start_def request_step_def response_step_def create_client_def watch_of_def watch_client_def io_return_def
    io_err_def did_def Let_def coordinatedWatchStream_def watch_SendMsg_def watch_RecvMsg_def ended_stream_def raw_stream_def
    coordinatedKeys_empty io_bind_def io_lift_def coordinatedInvalid_def mem_grpc_def
  obtain s where s: "?step Requests ?init = Some s" "b_request s = AtBackSend (WatchCreate (watch_of []))" "back_sent (b_history s) = []"
    by (simp add: defs back_sent_def)
  obtain s1 where s1: "?step Requests s = Some s1" "s1 = \<lparr>b_request = AtFail (Status InvalidArgument ''empty key''),
      b_response = AtHeader, b_sendError = None, b_world = watch_world, b_history = [FrontRecv (Ok (WatchCreate (watch_of []))),
        BackSend (WatchCreate (watch_of [])) (Err (Status InvalidArgument ''empty key''))]\<rparr>"
    using s(1) by (auto simp: defs)
  obtain s2 where s2: "exec ?step ?rest s1 = Some s2" "\<exists>res. b_response s2 = HandlerDone res"
    "\<And>h1 h2 res. b_history s2 = h1 @ HandlerReturn res # h2 \<Longrightarrow> send_errors h1 \<noteq> []"
    by (simp add: s1(2) defs append_eq_Cons_conv Cons_eq_append_conv send_errors_def)
  note e = s1(1) s2(1)
  have "reachable forwarding_starts ?step ?init"
    by (rule reachable_start) (simp add: forwarding_starts_def bidi_start_def)
  then have r: "reachable forwarding_starts ?step s" using s(1) by (rule reachable_step)
  have "wc_Key (watch_of []) = []" by (simp add: watch_of_def)
  with watch_create_checked [OF r s(2) e] s2(2,3) s(3) obtain msg where
    "back_sent (b_history s2) = []" "b_response s2 = HandlerDone (Err (Status InvalidArgument msg))" by auto
  moreover have "exec ?step (Requests # Requests # ?rest) ?init = Some s2"
    using s(1) e by (simp del: bidi_step.simps)
  ultimately show ?thesis by blast
qed

section \<open>The legacy watch\<close>

text \<open>
  C25. Every shard is offered the client's requests, each once and in order, whatever the sends to it and to the
  other shards return: the requests offered to a shard are a prefix of those received from the client, behind
  them by at most the capacity of the channel and two requests in the hands of the loops, and when the loops
  are idle they are all of them. Each was offered by one send on the stream opened for that shard. The shard
  gets those whose send succeeded: a subsequence of the client's requests, and all of them if no send failed;
  a request whose send failed is dropped.
\<close>

theorem legacy_watch_broadcast:
  assumes "reachable watch_starts (watch_step FromError p) s"
    and "distinct (map GetShardID (cfg_GetAllShardClis (sp_configs p)))" and "cli \<in> set (cfg_GetAllShardClis (sp_configs p))"
    and "i = GetShardID cli"
  shows "prefix (map fst (shard_sends i (wp_history s))) (client_requests (wp_history s)) \<and>
    length (client_requests (wp_history s)) \<le> length (shard_sends i (wp_history s)) + chan_cap + 2 \<and>
    (wp_recv s = RecvWait \<and> wp_recvChan s = [] \<and> wp_handle s = HandleWait \<longrightarrow>
       map fst (shard_sends i (wp_history s)) = client_requests (wp_history s)) \<and>
    (\<forall>(q, r) \<in> set (shard_sends i (wp_history s)). \<exists>st w w'. wp_streams s i = Some st \<and> cs_SendMsg st q w = (r, w')) \<and>
    subseq (shard_accepted i (wp_history s)) (client_requests (wp_history s)) \<and>
    ((\<forall>(q, r) \<in> set (shard_sends i (wp_history s)). r = Ok ()) \<longrightarrow>
       shard_accepted i (wp_history s) = map fst (shard_sends i (wp_history s)))"
proof -
  let ?h = "wp_history s"
  from request_queue.always [OF assms(1)] have q: "client_requests ?h = taken_requests ?h @ wp_recvChan s @
      (case wp_recv s of RecvPush q \<Rightarrow> [q] | _ \<Rightarrow> [])" "length (wp_recvChan s) \<le> chan_cap"
    by (simp_all add: requests_queued_def)
  have b: "requests_broadcast p s" using broadcast.always [OF assms(1)] assms(2) by blast
  then have "map fst (shard_sends i ?h) = taken_requests ?h \<or> (\<exists>q. map fst (shard_sends i ?h) @ [q] = taken_requests ?h)"
    using assms(3,4) by (auto simp: requests_broadcast_def Let_def split: handle_pc.splits)
  then obtain x where x: "taken_requests ?h = map fst (shard_sends i ?h) @ x" "length x \<le> 1"
    by (metis One_nat_def append_Nil2 le0 length_Cons list.size(3) order_refl)
  have idle: "map fst (shard_sends i ?h) = taken_requests ?h" if "wp_handle s = HandleWait"
    using b assms(3,4) that by (simp add: requests_broadcast_def Let_def)
  have "length (case wp_recv s of RecvPush q \<Rightarrow> [q] | _ \<Rightarrow> []) \<le> 1" by (simp split: recv_pc.splits)
  with q x have "length (client_requests ?h) \<le> length (map fst (shard_sends i ?h)) + chan_cap + 2" by simp
  moreover have pre: "prefix (map fst (shard_sends i ?h)) (client_requests ?h)" using q(1) x(1) by simp
  moreover have "subseq (shard_accepted i ?h) (client_requests ?h)"
    using subseq_order.trans [OF subseq_map [OF subseq_filter_left] prefix_imp_subseq [OF pre]]
    by (simp add: shard_accepted_def)
  moreover have "\<exists>st w w'. wp_streams s i = Some st \<and> cs_SendMsg st q w = (r, w')" if "(q, r) \<in> set (shard_sends i ?h)" for q r
    using calls.always [OF assms(1)] that by (force simp: set_shard_sends action_genuine_def)
  moreover have "filter (\<lambda>(q, r). r = Ok ()) (shard_sends i ?h) = shard_sends i ?h"
    if "\<forall>(q, r) \<in> set (shard_sends i ?h). r = Ok ()" using that by (auto simp: filter_id_conv)
  ultimately show ?thesis using q(1) idle by (auto simp: shard_accepted_def)
qed

text \<open>Two shards: the stream of the first answers, that of the second has failed; sends to it return EOF.\<close>

definition gone_stream :: "(mem, unit, WatchRequest, WatchResponse) ClientStream" where
  "gone_stream = raw_stream\<lparr>cs_SendMsg := (\<lambda>_. io_err EOF), cs_RecvMsg := io_err (Status Unavailable ''gone'')\<rparr>"

definition watch_cli :: "nat \<Rightarrow> (unit, unit, mem) ShardClientImpl" where
  "watch_cli i = \<lparr>shardID = int i, sc_KV = mem_shard i,
     sc_Watch = \<lparr>Watch_Watch = (\<lambda>_. io_return (if i = 0 then raw_stream else gone_stream))\<rparr>, sc_Lease = no_lease\<rparr>"

definition legacy_front :: "(mem, WatchRequest) io \<Rightarrow> (unit, mem, unit, WatchRequest, WatchResponse option) ServerStream" where
  "legacy_front recv = \<lparr>ss_Context = (), ss_RecvMsg = recv, ss_SendMsg = (\<lambda>_. io_return ()),
     ss_SendHeader = (\<lambda>_. io_return ()), ss_SetTrailer = (\<lambda>_ w. w)\<rparr>"

definition legacy_watch :: "(mem, WatchRequest) io \<Rightarrow> (unit, unit, mem) SingleWatchStreamProxy" where
  "legacy_watch recv = NewSingleWatchStreamProxy (\<lambda>c. (c, id)) (legacy_front recv)
     (NewDefaultShardingConfigs
       [\<lparr>shard_start = [], shard_end = ''m'', shard_cli = watch_cli 0\<rparr>,
        \<lparr>shard_start = ''m'', shard_end = noEnd, shard_cli = watch_cli 1\<rparr>])"

definition no_status :: "error \<Rightarrow> (code \<times> string) option" where
  "no_status e = None"

definition broadcast_schedule :: "mem watch_event list" where
  "broadcast_schedule = [RecvLoop, RecvLoop, HandleTake, HandleShard, HandleShard, HandleShard, HandleShard, HandleShard]"

lemma legacy_watch_sel:
  "sp_ctx (legacy_watch recv) = ()" "sp_cancel (legacy_watch recv) = id" "sp_gRPCStream (legacy_watch recv) = legacy_front recv"
  "cfg_GetAllShardClis (sp_configs (legacy_watch recv)) = [watch_cli 0, watch_cli 1]"
  by (simp_all add: legacy_watch_def NewSingleWatchStreamProxy_def NewDefaultShardingConfigs_def GetAllShardClis_def GetClient_def
      legacy_front_def)

lemma watch_cli_sel:
  "GetShardID (watch_cli i) = int i"
  "Watch_Watch (sc_Watch (watch_cli i)) ctx = io_return (if i = 0 then raw_stream else gone_stream)"
  by (simp_all add: GetShardID_def watch_cli_def)

lemma broadcast_run:
  "\<exists>s. exec (watch_step no_status (legacy_watch (io_return WatchProgress))) broadcast_schedule (watch_start mem_empty) = Some s \<and>
     wp_recv s = RecvWait \<and> wp_handle s = HandleWait \<and> wp_send s = SendWait \<and> wp_recvChan s = [] \<and> wp_respChan s = [] \<and>
     wp_streams s = [0 \<mapsto> raw_stream, 1 \<mapsto> gone_stream] \<and> wp_readers s = [0 \<mapsto> ReaderWait, 1 \<mapsto> ReaderWait] \<and>
     client_requests (wp_history s) = [WatchProgress] \<and> client_responses (wp_history s) = [] \<and>
     client_failures (wp_history s) = [] \<and> pushed_by 1 (wp_history s) = []"
  by (simp add: broadcast_schedule_def watch_start_def recvLoop_def handle_take_def handle_shard_def legacy_watch_sel watch_cli_sel
      legacy_front_def io_return_def io_err_def raw_stream_def gone_stream_def acted_def chan_cap_def watch_history_defs)

lemma broadcast_reachable:
  assumes "exec (watch_step no_status (legacy_watch recv)) sched (watch_start w) = Some s"
  shows "reachable watch_starts (watch_step no_status (legacy_watch recv)) s"
proof (rule exec_reachable [OF _ assms])
  show "reachable watch_starts (watch_step no_status (legacy_watch recv)) (watch_start w)"
    by (rule reachable_start) (simp add: watch_starts_def watch_start_def)
qed

theorem legacy_watch_broadcast_witness:
  "\<exists>s. exec (watch_step no_status (legacy_watch (io_return WatchProgress))) broadcast_schedule (watch_start mem_empty) = Some s \<and>
     shard_sends 0 (wp_history s) = [(WatchProgress, Ok ())] \<and> shard_accepted 0 (wp_history s) = [WatchProgress] \<and>
     shard_sends 1 (wp_history s) = [(WatchProgress, Err EOF)]"
proof -
  obtain s where s: "exec (watch_step no_status (legacy_watch (io_return WatchProgress))) broadcast_schedule (watch_start mem_empty) = Some s"
    "wp_recv s = RecvWait" "wp_handle s = HandleWait" "wp_recvChan s = []" "client_requests (wp_history s) = [WatchProgress]"
    "wp_streams s = [0 \<mapsto> raw_stream, 1 \<mapsto> gone_stream]"
    using broadcast_run by blast
  note b = legacy_watch_broadcast [OF broadcast_reachable [OF s(1)]]
  have "distinct (map GetShardID (cfg_GetAllShardClis (sp_configs (legacy_watch (io_return WatchProgress)))))"
    by (simp add: legacy_watch_sel watch_cli_sel)
  with b [of "watch_cli 0" 0] b [of "watch_cli 1" 1] s have
    "shard_sends 0 (wp_history s) = [(WatchProgress, Ok ())] \<and> shard_sends 1 (wp_history s) = [(WatchProgress, Err EOF)]"
    by (auto simp: legacy_watch_sel watch_cli_sel raw_stream_def gone_stream_def io_return_def io_err_def)
  with s(1) show ?thesis by (auto simp: shard_accepted_def)
qed

lemma pushed_interleaving:
  "\<exists>ps. pushed h = map snd ps \<and> (\<forall>i. pushed_by i h = map snd (filter (\<lambda>x. fst x = i) ps))"
proof (induction h)
  case (Cons a h)
  then obtain ps where ps: "pushed h = map snd ps" "\<forall>i. pushed_by i h = map snd (filter (\<lambda>x. fst x = i) ps)" by blast
  show ?case
  proof (cases a)
    case (PushResponse i r)
    with ps show ?thesis by (intro exI [of _ "(i, r) # ps"]) (auto simp: pushed_def pushed_by_def)
  qed (use ps in \<open>auto simp: pushed_def pushed_by_def\<close>)
qed (simp add: history_simps)

text \<open>
  C26. Every response is accounted for. Each receive of a reader is a call on the stream of its shard, and hands over
  the response it returned, or nil if it failed. At every moment what the receives handed over is, for every
  shard in its order and without duplicates or gaps: the responses the client's stream took, then at most
  one whose send to the client failed, which has ended the send loop, then the one in the hand of that loop, those in the
  channel, at most ten, and the one its reader is about to put there. (What is not yet sent when the call ends
  is not delivered.)
\<close>

theorem legacy_watch_responses:
  assumes "reachable watch_starts (watch_step FromError p) s"
  shows "\<exists>ps. map snd ps = client_responses (wp_history s) @ client_failures (wp_history s) @
      (case wp_send s of Sending m \<Rightarrow> [m] | _ \<Rightarrow> []) @ wp_respChan s \<and>
    (client_failures (wp_history s) = [] \<or>
      (\<exists>m e. client_failures (wp_history s) = [m] \<and> wp_send s = SendDone (Err e))) \<and>
    length (wp_respChan s) \<le> 10 \<and>
    (\<forall>i. map response_of (shard_receives i (wp_history s)) =
        map snd (filter (\<lambda>x. fst x = i) ps) @ (case wp_readers s i of Some (ReaderPush r) \<Rightarrow> [r] | _ \<Rightarrow> []) \<and>
      (\<forall>x \<in> set (shard_receives i (wp_history s)). x \<noteq> Err EOF \<and>
        (\<exists>st w w'. wp_streams s i = Some st \<and> cs_RecvMsg st w = (x, w'))))"
proof -
  let ?h = "wp_history s"
  obtain ps where ps: "pushed ?h = map snd ps" "\<And>i. pushed_by i ?h = map snd (filter (\<lambda>x. fst x = i) ps)"
    using pushed_interleaving by blast
  have "x \<noteq> Err EOF \<and> (\<exists>st w w'. wp_streams s i = Some st \<and> cs_RecvMsg st w = (x, w'))"
    if "x \<in> set (shard_receives i ?h)" for i x
    using calls.always [OF assms] that by (force simp: set_shard_receives action_genuine_def)
  with response_queue.always' [OF assms] show ?thesis
    by (intro exI [of _ ps]) (simp add: responses_queued_def in_hand_def pending_def chan_cap_def flip: ps)
qed

lemma replies_run:
  "\<exists>s. exec (watch_step no_status (legacy_watch (io_return WatchProgress)))
       (broadcast_schedule @ [ShardReader 1, ShardReader 0, ShardReader 0, SendTake, SendMessage]) (watch_start mem_empty) = Some s \<and>
     client_responses (wp_history s) = [Some raw_response] \<and> client_failures (wp_history s) = [] \<and> wp_respChan s = [] \<and>
     wp_send s = SendWait \<and> wp_readers s = [0 \<mapsto> ReaderWait, 1 \<mapsto> ReaderPush None]"
proof -
  obtain s0 where s0: "exec (watch_step no_status (legacy_watch (io_return WatchProgress))) broadcast_schedule (watch_start mem_empty) = Some s0"
    "wp_send s0 = SendWait" "wp_respChan s0 = []" "wp_streams s0 = [0 \<mapsto> raw_stream, 1 \<mapsto> gone_stream]"
    "wp_readers s0 = [0 \<mapsto> ReaderWait, 1 \<mapsto> ReaderWait]" "client_responses (wp_history s0) = []" "client_failures (wp_history s0) = []"
    using broadcast_run by blast
  then show ?thesis
    by (simp add: exec_append shard_reader_def send_take_def send_message_def legacy_watch_sel legacy_front_def raw_stream_def
        gone_stream_def io_return_def io_err_def acted_def chan_cap_def client_responses_def client_failures_def fun_upd_twist)
qed

theorem legacy_watch_responses_witness:
  "\<exists>s ps. exec (watch_step no_status (legacy_watch (io_return WatchProgress)))
       (broadcast_schedule @ [ShardReader 1, ShardReader 0, ShardReader 0, SendTake, SendMessage]) (watch_start mem_empty) = Some s \<and>
     client_responses (wp_history s) = [Some raw_response] \<and> map snd ps = [Some raw_response] \<and>
     map response_of (shard_receives 0 (wp_history s)) = map snd (filter (\<lambda>x. fst x = (0 :: int)) ps) \<and>
     map response_of (shard_receives 1 (wp_history s)) = map snd (filter (\<lambda>x. fst x = (1 :: int)) ps) @ [None]"
proof -
  obtain s where s: "exec (watch_step no_status (legacy_watch (io_return WatchProgress)))
      (broadcast_schedule @ [ShardReader 1, ShardReader 0, ShardReader 0, SendTake, SendMessage]) (watch_start mem_empty) = Some s"
    "client_responses (wp_history s) = [Some raw_response]" "client_failures (wp_history s) = []" "wp_respChan s = []"
    "wp_send s = SendWait" "wp_readers s = [0 \<mapsto> ReaderWait, 1 \<mapsto> ReaderPush None]"
    using replies_run by blast
  obtain ps where "map snd ps = client_responses (wp_history s) @ client_failures (wp_history s) @
      (case wp_send s of Sending m \<Rightarrow> [m] | _ \<Rightarrow> []) @ wp_respChan s"
    and ps: "\<forall>i. map response_of (shard_receives i (wp_history s)) =
        map snd (filter (\<lambda>x. fst x = i) ps) @ (case wp_readers s i of Some (ReaderPush r) \<Rightarrow> [r] | _ \<Rightarrow> [])"
    using legacy_watch_responses [OF broadcast_reachable [OF s(1)]] by (elim exE conjE) (rule that; blast)
  then have "map snd ps = [Some raw_response]" by (simp add: s(2-5))
  with ps s(1,2,6) show ?thesis by (intro exI [of _ s] exI [of _ ps]) simp
qed

text \<open>
  C34. The reader of a shard stream that has failed never stops. While receiving from the stream fails with errors
  other than EOF, in every schedule of all goroutines, also after the watch call has returned: the reader
  waits for the stream or has a nil response to hand over; every second step it takes puts
  one nil response into the channel to the client, and nothing else; and its next step is always enabled, unless the channel is full.
\<close>

theorem legacy_watch_nil_responses:
  assumes "wp_streams s i = Some st" and "wp_readers s i = Some ReaderWait" and "broken B st"
    and "exec (watch_step FromError p) sched s = Some s'"
    and "\<forall>t \<in> set (visited (watch_step FromError p) sched s). B (wp_world t)"
  shows "(wp_readers s' i = Some ReaderWait \<or> wp_readers s' i = Some (ReaderPush None)) \<and>
    pushed_by i (wp_history s') = pushed_by i (wp_history s) @ replicate (count_list sched (ShardReader i) div 2) None \<and>
    (length (wp_respChan s') < chan_cap \<longrightarrow> (\<exists>s''. watch_step FromError p (ShardReader i) s' = Some s''))"
proof -
  have "nil_reader i st s" "owes i s = 0" using assms(1,2) by (simp_all add: nil_reader_def owes_def)
  with broken_exec [OF assms(3) _ assms(4,5), of i] obtain n where n: "nil_reader i st s'"
    "pushed_by i (wp_history s') = pushed_by i (wp_history s) @ replicate n None"
    "2 * n + owes i s' = count_list sched (ShardReader i)" by auto
  have "owes i s' \<le> 1" by (simp add: owes_def)
  with n(3) have "n = count_list sched (ShardReader i) div 2" by linarith
  moreover have "B (wp_world s')" using visited_end [OF assms(4)] assms(5) by blast
  ultimately show ?thesis using n(1,2) broken_enabled [OF assms(3) n(1)] by (auto simp: nil_reader_def)
qed

theorem legacy_watch_nil_responses_witness:
  "\<exists>sched s. exec (watch_step no_status (legacy_watch (io_return WatchProgress))) sched (watch_start mem_empty) = Some s \<and>
     pushed_by 1 (wp_history s) = [None, None, None]"
proof -
  let ?p = "legacy_watch (io_return WatchProgress)"
  let ?sched = "[ShardReader 1, ShardReader 1, ShardReader 1, ShardReader 1, SendTake, ShardReader 1, ShardReader 1]"
  obtain s where s: "exec (watch_step no_status ?p) broadcast_schedule (watch_start mem_empty) = Some s" "wp_send s = SendWait"
    "wp_respChan s = []" "wp_streams s = [0 \<mapsto> raw_stream, 1 \<mapsto> gone_stream]"
    "wp_readers s = [0 \<mapsto> ReaderWait, 1 \<mapsto> ReaderWait]" "pushed_by 1 (wp_history s) = []"
    using broadcast_run by blast
  have "broken (\<lambda>_. True) gone_stream" by (simp add: broken_def gone_stream_def io_err_def)
  moreover obtain s' where s': "exec (watch_step no_status ?p) ?sched s = Some s'"
    using s by (simp add: shard_reader_def send_take_def gone_stream_def io_err_def acted_def chan_cap_def)
  ultimately have "pushed_by 1 (wp_history s') = [None, None, None]"
    using legacy_watch_nil_responses [OF _ _ _ s', of 1 gone_stream "\<lambda>_. True"] s(4-6) by (simp add: numeral_3_eq_3)
  with s(1) s' show ?thesis by (intro exI [of _ "broadcast_schedule @ ?sched"] exI [of _ s']) (simp add: exec_append)
qed

text \<open>
  C27. The watch call never ends without an error: when \<open>Run\<close> returns, it returns an error of one of its
  loops, and that happens only after the context is done or a send to the client has failed. Neither
  the client's half-close nor a shard whose stream cannot be opened ends the call.
\<close>

theorem legacy_watch_returns:
  assumes "SingleWatchStreamProxy_Run FromError p sched w = Some (res, s)"
  shows "(\<exists>e. res = Err e \<and>
      (wp_recv s = RecvDone (Err e) \<or> wp_handle s = HandleDone (Err e) \<or> wp_send s = SendDone (Err e))) \<and>
    (wp_ctxErr s \<noteq> None \<or> (\<exists>m e. ClientSend m (Err e) \<in> set (wp_history s)))"
proof -
  from assms have e: "exec (watch_step FromError p) sched (watch_start w) = Some s" "watch_wait s = Some res"
    by (auto simp: SingleWatchStreamProxy_Run_def split: option.splits)
  have "watch_starts (watch_start w)" by (simp add: watch_starts_def watch_start_def)
  with e(1) have "returns_justified s" using returns.always_exec by metis
  with e(2) show ?thesis
    by (auto simp: watch_wait_def returns_justified_def split: recv_pc.splits handle_pc.splits send_pc.splits option.splits)
qed

theorem legacy_watch_returns_witness:
  "\<exists>e s. SingleWatchStreamProxy_Run no_status (legacy_watch (io_err EOF)) [RecvLoop, ParentDone ContextCanceled, HandleCtxDone, SendCtxDone]
     mem_empty = Some (Err e, s) \<and> wp_ctxErr s \<noteq> None"
proof -
  obtain res s where r: "SingleWatchStreamProxy_Run no_status (legacy_watch (io_err EOF))
      [RecvLoop, ParentDone ContextCanceled, HandleCtxDone, SendCtxDone] mem_empty = Some (res, s)" "wp_ctxErr s \<noteq> None"
    by (simp add: SingleWatchStreamProxy_Run_def watch_start_def recvLoop_def legacy_watch_sel legacy_front_def io_err_def
        handle_done_def send_done_def watch_wait_def returned_def)
  with legacy_watch_returns [OF r(1)] show ?thesis by blast
qed

end
