(* ===== verification/Proxy_Main.thy ===== *)
theory Proxy_Main
  imports Startup
begin

text \<open>
  \<open>main\<close> (\<open>cmd/proxy/main.go\<close>) and \<open>GrpcServer.Serve\<close> (\<open>pkg/server/server.go\<close>): loading the configuration,
  building the servers, the credentials of the listener, and serving until the server stops. The flags
  are the arguments \<open>addr\<close>, \<open>port\<close> and \<open>configPath\<close>; \<open>net.Listen\<close> and the server's accept loop are
  parameters. What is printed is left out. \<open>exitWithErr\<close> ends the process with status 1 at a stage,
  without running the deferred close.

  The lemmas show that the listener opens only after the configuration was validated, every backend was
  dialed and, where the configuration asks for it, TLS credentials were made.
\<close>

section \<open>Definitions\<close>

record GrpcServer =
  srv_Creds :: "Creds option"      \<comment> \<open>the option \<open>grpc.Creds\<close>, if it was given\<close>
  srv_Services :: "service list"

record ('l, 'w) NetLib =
  net_Listen :: "string \<Rightarrow> ('w, 'l) io"
  server_Serve :: "GrpcServer \<Rightarrow> 'l \<Rightarrow> ('w, unit) io"

definition Serve :: "('l, 'w) NetLib \<Rightarrow> GrpcServer \<Rightarrow> string \<Rightarrow> int \<Rightarrow> ('w, unit) io" where
  "Serve net s addr port =
     io_bind (io_wrap ''failed to listen'' (net_Listen net (addr @ '':'' @ itoi port))) (\<lambda>listen.
       io_wrap ''failed to serve'' (server_Serve net s listen))"

datatype outcome = Served | ExitWithErr string error | Crashed string

definition stage :: "string \<Rightarrow> ('w, 'a) io \<Rightarrow> ('a \<Rightarrow> 'w \<Rightarrow> outcome \<times> 'w) \<Rightarrow> 'w \<Rightarrow> outcome \<times> 'w" where
  "stage name m k = (\<lambda>w.
     case m w of
       (Ok a, w1) \<Rightarrow> k a w1
     | (Err e, w1) \<Rightarrow> (ExitWithErr name e, w1)
     | (Panic s, w1) \<Rightarrow> (Crashed s, w1))"

text \<open>
  A deferred call runs when the function returns and when it panics; \<open>os.Exit\<close> skips it.
\<close>

definition deferred :: "('w \<Rightarrow> 'w) \<Rightarrow> ('w \<Rightarrow> outcome \<times> 'w) \<Rightarrow> 'w \<Rightarrow> outcome \<times> 'w" where
  "deferred close body = (\<lambda>w.
     case body w of
       (ExitWithErr name e, w1) \<Rightarrow> (ExitWithErr name e, w1)
     | (out, w1) \<Rightarrow> (out, close w1))"

definition listener_creds :: "('cert, 'pool, 'w) TlsLib \<Rightarrow> Configurations \<Rightarrow> ('w, Creds option) io" where
  "listener_creds lib conf =
     (if IsEnabled (conf_TLS conf)
      then io_bind (TransportCredentials lib (conf_TLS conf) True) (\<lambda>creds. io_return (Some creds))
      else io_return None)"

definition proxy_main ::
  "(string \<Rightarrow> 'raw result) \<Rightarrow> ('raw \<Rightarrow> Configurations result) \<Rightarrow> ('cert, 'pool, 'w) TlsLib \<Rightarrow>
   ('conn, 'c, 'm, 'w) Stubs \<Rightarrow> ('c, 'm, 'w) Grpc \<Rightarrow> (bytes \<Rightarrow> bytes) \<Rightarrow> 'c \<Rightarrow> ('l, 'w) NetLib \<Rightarrow>
   string \<Rightarrow> int \<Rightarrow> string \<Rightarrow> 'w \<Rightarrow> outcome \<times> 'w"
where
  "proxy_main read unmarshal lib stubs g sha256 ctx net addr port configPath =
     stage ''load config file'' (io_lift (NewConfigurationsFromFile read unmarshal configPath)) (\<lambda>conf.
       stage ''create backends'' (buildBackends lib stubs g sha256 ctx conf) (\<lambda>(bes, conns).
         deferred (closeAll stubs conns) (stage ''load listener TLS'' (listener_creds lib conf) (\<lambda>creds.
           stage ''grpc server serve''
             (Serve net \<lparr>srv_Creds = creds, srv_Services = NewGrpcServer bes\<rparr> addr port) (\<lambda>_ w. (Served, w))))))"

section \<open>Stages\<close>

lemma stage_cases:
  assumes "stage name m k w = (out, w')"
  obtains (continues) a w1 where "m w = (Ok a, w1)" "k a w1 = (out, w')"
  | (exits) e where "m w = (Err e, w')" "out = ExitWithErr name e"
  | (crashes) s where "m w = (Panic s, w')" "out = Crashed s"
  using assms by (auto simp: stage_def split: prod.splits result.splits)

text \<open>
  The calls of the listener happen only behind the other stages: a run that got past them has a
  validated configuration, the servers of its mode, and TLS credentials where TLS is enabled.
\<close>

lemma deferred_cases:
  assumes "deferred close body w = (out, w')"
  obtains w1 where "body w = (out, w1)" "case out of ExitWithErr name e \<Rightarrow> w' = w1 | _ \<Rightarrow> w' = close w1"
  using assms by (cases "body w"; cases "fst (body w)") (auto simp: deferred_def)

lemma main_reaches_listener:
  assumes main: "proxy_main read unmarshal lib stubs g sha256 ctx net addr port configPath w = (out, w')"
    and early: "\<And>e. out \<noteq> ExitWithErr ''load config file'' e" "\<And>e. out \<noteq> ExitWithErr ''create backends'' e"
      "\<And>e. out \<noteq> ExitWithErr ''load listener TLS'' e" "\<And>s. out \<noteq> Crashed s"
  obtains conf bes conns creds w1 w2 r w3 where
    "Validate conf = Ok ()" "buildBackends lib stubs g sha256 ctx conf w = (Ok (bes, conns), w1)"
    "listener_creds lib conf w1 = (Ok creds, w2)" "IsEnabled (conf_TLS conf) \<longleftrightarrow> (\<exists>t. creds = Some (TLSCreds t))"
    "Serve net \<lparr>srv_Creds = creds, srv_Services = NewGrpcServer bes\<rparr> addr port w2 = (r, w3)"
    "case r of Ok _ \<Rightarrow> out = Served \<and> w' = closeAll stubs conns w3
     | Err e \<Rightarrow> out = ExitWithErr ''grpc server serve'' e \<and> w' = w3 | Panic s \<Rightarrow> False"
proof -
  let ?serve = "\<lambda>conf bes. stage ''load listener TLS'' (listener_creds lib conf) (\<lambda>creds.
      stage ''grpc server serve'' (Serve net \<lparr>srv_Creds = creds, srv_Services = NewGrpcServer bes\<rparr> addr port) (\<lambda>_ w. (Served, w)))"
  from main obtain conf where conf: "NewConfigurationsFromFile read unmarshal configPath = Ok conf"
    and k1: "stage ''create backends'' (buildBackends lib stubs g sha256 ctx conf) (\<lambda>(bes, conns).
         deferred (closeAll stubs conns) (?serve conf bes)) w = (out, w')"
    unfolding proxy_main_def by (rule stage_cases) (use early(1,4) in \<open>auto simp: io_lift_def\<close>)
  from k1 obtain bes conns w1 where b: "buildBackends lib stubs g sha256 ctx conf w = (Ok (bes, conns), w1)"
    and k2: "deferred (closeAll stubs conns) (?serve conf bes) w1 = (out, w')"
    by (rule stage_cases) (use early(2,4) in auto)
  from k2 obtain v where k3: "?serve conf bes w1 = (out, v)"
    and v: "case out of ExitWithErr name e \<Rightarrow> w' = v | _ \<Rightarrow> w' = closeAll stubs conns v"
    by (rule deferred_cases)
  from k3 obtain creds w2 where c: "listener_creds lib conf w1 = (Ok creds, w2)"
    and k4: "stage ''grpc server serve'' (Serve net \<lparr>srv_Creds = creds, srv_Services = NewGrpcServer bes\<rparr> addr port)
             (\<lambda>_ w. (Served, w)) w2 = (out, v)"
    by (rule stage_cases) (use early(3,4) in auto)
  obtain r w3 where s: "Serve net \<lparr>srv_Creds = creds, srv_Services = NewGrpcServer bes\<rparr> addr port w2 = (r, w3)" by fastforce
  have "Validate conf = Ok ()"
    using conf by (auto simp: NewConfigurationsFromFile_def res_bind_eq_Ok split: result.splits)
  moreover have "IsEnabled (conf_TLS conf) \<longleftrightarrow> (\<exists>t. creds = Some (TLSCreds t))"
    using c by (auto simp: listener_creds_def TransportCredentials_def io_bind_Ok_iff split: if_splits)
  moreover have "case r of Ok _ \<Rightarrow> out = Served \<and> w' = closeAll stubs conns w3
     | Err e \<Rightarrow> out = ExitWithErr ''grpc server serve'' e \<and> w' = w3 | Panic s \<Rightarrow> False"
    using k4 s v early(4) by (auto simp: stage_def split: result.splits)
  ultimately show thesis using b c s that by blast
qed

end
