(* ===== verification/Spec2Isabelle.thy ===== *)
theory Spec2Isabelle
  imports Coordinated_Agreement Concurrency_Theorems Sharded_Theorems Stream_Theorems Proxy_Main
begin

text \<open>
  A verification of the etcd sharding proxy, a gRPC server that speaks the etcd v3 API and keeps its
  data in several etcd clusters.

  \<^bold>\<open>The program.\<close> A configuration (\<open>pkg/config/config.go\<close>) selects one of three modes, and \<open>buildBackends\<close>
  (\<open>cmd/proxy/main.go\<close>) builds the services of that mode for the gRPC server (\<open>pkg/server/server.go\<close>).

  \<^item> In the backend mode, \<open>BackendProxy\<close> (\<open>backend_proxy.go\<close>) passes every call on to one cluster.
  \<^item> In the coordinated mode, \<open>CoordinatedProxy\<close> (\<open>coordinated_proxy.go\<close>) keeps the values as immutable
    blobs in data shards and, in a coordinator cluster, one metadata key per user key that refers to its
    blob. It uses a \<open>BackendProxy\<close> on the coordinator for everything but the values.
  \<^item> In the legacy mode, \<open>KVProxy\<close>, \<open>LeaseProxy\<close> and \<open>WatchProxy\<close> (\<open>proxy_kv.go\<close>, \<open>proxy_lease.go\<close>,
    \<open>proxy_watch.go\<close>) cut the key space over shards by a routing table (\<open>shard.go\<close>, \<open>shard_client.go\<close>,
    \<open>sharding.go\<close>), ask shards concurrently (\<open>group_runner.go\<close>) and merge the answers
    (\<open>response_filter.go\<close>); lease identifiers come from \<open>id_generator.go\<close>.

  \<^bold>\<open>The theories.\<close> Paths without a directory are under \<open>pkg/server\<close>.

  \<^item> \<open>Prelude\<close>: bytes, errors, the result type (\<open>Ok\<close>, \<open>Err\<close>, \<open>Panic\<close>) and the state monad \<open>('w, 'a) io\<close>
    over an abstract world \<open>'w\<close> in which all handlers are written; \<open>Key_Ranges\<close>: etcd's key ranges, tilings
    of the key space and the locale \<open>key_router\<close> both routing tables interpret; \<open>Etcd_Api\<close>: the messages
    and client stubs, which are generated code outside the repository; \<open>Json\<close>: the part of
    \<open>encoding/json\<close>, \<open>encoding/base64\<close> and \<open>encoding/hex\<close> the proxy uses, with the round trip of a reference;
    \<open>Machines\<close>: goroutines as steps of a machine, reachable states and invariants (the locales
    \<open>machine_invariant\<close> and \<open>relative_invariant\<close>).
  \<^item> \<open>Config\<close>: the configuration and \<open>Validate\<close>. \<open>Startup\<close>: \<open>TransportCredentials\<close> (\<open>tls.go\<close>), \<open>buildBackends\<close>
    with its dialing loop and closing on failure, \<open>NewGrpcServer\<close>. \<open>Proxy_Main\<close>: \<open>Serve\<close> and \<open>main\<close>.
  \<^item> \<open>Backend_Proxy\<close>: \<open>backendContext\<close>, \<open>forwardUnary\<close> and the unary methods; what the gRPC library promises
    of metadata is a hypothesis (\<open>metadata_laws\<close>, \<open>transport_laws\<close>). \<open>Bidi_Forwarding\<close>: \<open>forwardBidi\<close> with
    its request goroutine, \<open>forwardResponses\<close>, \<open>Watch\<close>, \<open>LeaseKeepAlive\<close> and \<open>Snapshot\<close>, one step per
    call on a stream.
  \<^item> \<open>Coordinated_Proxy\<close>: all of \<open>coordinated_proxy.go\<close> but the forwarding of its watch stream, which is in
    \<open>Coordinated_Watch\<close>. \<open>Coordinated_Refinement\<close>: the abstraction to one map from user keys to values and
    the outcome of every request on it; the locale \<open>simulation\<close> lifts outcomes to histories.
    \<open>Route_Encoding\<close>: the JSON that the constructor hashes determines the routes.
    \<open>Interleaving\<close>: handlers as programs of single calls; \<open>Coordinated_Programs\<close>: the four key-value handlers as
    such programs, equal to the handlers when run alone; \<open>Coordinated_Concurrency\<close>: interleaved executions of
    any number of requests and the invariant that their coordinator calls linearize them.
    \<open>Memory_Cluster\<close>: an in-memory deployment that satisfies the laws, used by the witnesses.
  \<^item> \<open>Sharding\<close>, \<open>Response_Filters\<close>, \<open>Group_Runner\<close>, \<open>KV_Proxy\<close>, \<open>Id_Generator\<close>, \<open>Lease_Proxy\<close>, \<open>Watch_Proxy\<close>:
    the legacy mode, a theory per source file. The locales \<open>sharding_contract\<close> and \<open>response_filter\<close> are the
    Go interfaces \<open>ShardingConfigs\<close> and \<open>ResponseFilter\<close>, interpreted by their only implementations.
  \<^item> \<open>Coordinated_Theorems\<close>, \<open>Coordinated_Agreement\<close>, \<open>Concurrency_Theorems\<close>, \<open>Sharded_Theorems\<close>,
    \<open>Stream_Theorems\<close>: the properties, numbered \<open>C1\<close>, \<open>C2\<close> and so on, each followed by its application to a
    concrete input where it has hypotheses.

  \<^bold>\<open>What is shown.\<close>

  \<^item> Coordinated mode. Under the laws of etcd and of the random source, every request, whatever it returns,
    keeps all references resolvable and acts on the user's map as its etcd meaning or not at all; a success
    acts as stated; linearizable reads (current revision, not serializable) answer for the current map and fail
    only when a cluster fails. A request the mode does not serve is refused before any call. Mutations
    are confined to one shard, and the coordinator's ranges are exactly those of the user's keys; no request
    changes another key of the coordinator or a stored blob, so proxies of one coordinator agree on the
    routing. Concurrent requests, with every draw and remote call a step of its own, are linearizable: the
    log records for every coordinator call the request and the worlds before and after it, and \<open>explains\<close> ties
    the request to what was asked there (ranges, comparisons, references), what changed and what was answered.
    The linearization keeps the order of requests that do not overlap. The responses of a watch carry the
    values their references stand for, and requests to watch are checked and rewritten.
  \<^item> Streams. For every schedule of the goroutines and every behaviour of the peers, what a forwarded
    stream passed on is a prefix of what it received, and its status is an error of the request side that was
    reported before the handler looked for one, or else the outcome of the response side. A reported error is
    what the handler returns, in every schedule; an error that is reported later is lost, as in the code.
  \<^item> Legacy mode. The routing table sends a range to exactly the shards that own keys of it; merging,
    lease calls and the legacy watch are characterised, also where they fall short of a single store
    (lost errors, duplicated keys, watch requests dropped when a send fails, readers that never stop, watch
    calls that do not return). The history of a legacy watch records what every send returned, so that what
    a peer was offered and what it took are told apart.
  \<^item> Start-up. What validation accepts is what the constructors need; enabled TLS never becomes plaintext;
    peers are verified against the configured authorities; every failed start of the backend and the
    coordinated mode closes what it had dialed.

  \<^bold>\<open>Bounds and schedules.\<close> The JSON reader has fuel \<open>2 * length + 2\<close>, which \<open>Json\<close> proves enough for every
  text. Goroutines are driven by an arbitrary list of scheduling choices, an argument of the model: a
  property holds for every list, and a handler's result is \<^const>\<open>None\<close> when the list ends first. Inputs
  of the \<open>select\<close> of the keep-alive loop are an event list in the same way. Go's integers are 64-bit words
  in the identifier generator; sums of 64-bit counters wrap explicitly.

  \<^bold>\<open>Outside the repository.\<close> The etcd clusters, gRPC and its metadata, \<open>crypto/rand\<close>, SHA-256, dialing,
  certificate loading, the clock, sockets and the YAML reader are parameters. What a theorem needs of
  them is among its hypotheses, as named laws.

  \<^bold>\<open>Not modelled.\<close> Text printed by \<open>main\<close> and the parsing of flags; the nesting limit of \<open>encoding/json\<close>;
  timeouts and keep-alive parameters of connections. In \<open>KVProxy.DeleteRange\<close> the two reads of the shared
  error variable at the end of a goroutine are one step; in the coordinated watch a receive from the
  coordinator and the reads of the blobs its events refer to are one step of the stream. In the coordinated mode the clusters change only by
  calls of proxies: the expiry of a lease, which removes metadata keys, is not a step of the model. What
  serializable and historical reads return is not specified by the laws; the theorems on the values that reads
  return are for linearizable reads.
\<close>

end
